(* ===== verification/Prelude.thy ===== *)
theory Prelude
  imports Main "HOL-Library.Word"
begin

text \<open>
  Shared vocabulary of the development: the machine types of the Rust sources, results with
  static error messages, little-endian integer encoding, the standard library's binary searches
  on slices, ordered logs keyed by a linear order, and the generic invariant argument for
  command-driven components.
\<close>

unbundle bit_operations_syntax

named_theorems wal_simps \<open>rewriting of write-ahead-log operations\<close>
named_theorems lock_simps \<open>rewriting of coordinator state updates\<close>

section \<open>Machine types and results\<close>

type_synonym byte = "8 word"
type_synonym bytes = "byte list"
type_synonym u8 = "8 word"
type_synonym u16 = "16 word"
type_synonym u32 = "32 word"
type_synonym u64 = "64 word"

text \<open>A Rust \<open>String\<close> is a list of Unicode scalar values; \<open>lit\<close> writes ASCII literals.\<close>

type_synonym ustr = "nat list"

definition lit :: "string \<Rightarrow> ustr" where
  "lit s = map of_char s"

text \<open>\<open>Result<T, &'static str>\<close>: the error is the static message.\<close>

type_synonym err = string
type_synonym 'a result = "err + 'a"

abbreviation Err :: "'e \<Rightarrow> 'e + 'a" where "Err \<equiv> Inl"
abbreviation Ok :: "'a \<Rightarrow> 'e + 'a" where "Ok \<equiv> Inr"

fun is_ok :: "'e + 'a \<Rightarrow> bool" where
  "is_ok (Inl _) = False"
| "is_ok (Inr _) = True"

lemma is_ok_iff: "is_ok r \<longleftrightarrow> (\<exists>v. r = Ok v)"
  by (cases r) auto

fun ok :: "'e + 'a \<Rightarrow> 'a option" where
  "ok (Inl _) = None"
| "ok (Inr v) = Some v"

text \<open>The \<open>?\<close> operator.\<close>

fun try_bind :: "'e + 'a \<Rightarrow> ('a \<Rightarrow> 'e + 'b) \<Rightarrow> 'e + 'b" where
  "try_bind (Inl e) f = Inl e"
| "try_bind (Inr v) f = f v"

lemma try_bind_Ok_iff: "try_bind r f = Ok y \<longleftrightarrow> (\<exists>v. r = Ok v \<and> f v = Ok y)"
  by (cases r) auto

lemma try_bind_Err_iff:
  "try_bind r f = Err e \<longleftrightarrow> r = Err e \<or> (\<exists>v. r = Ok v \<and> f v = Err e)"
  by (cases r) auto

section \<open>Little-endian integers\<close>

text \<open>\<open>to_le_bytes\<close> and \<open>from_le_bytes\<close> on \<open>n\<close>-byte unsigned integers, read as naturals.\<close>

fun to_le :: "nat \<Rightarrow> nat \<Rightarrow> bytes" where
  "to_le 0 v = []"
| "to_le (Suc n) v = of_nat (v mod 256) # to_le n (v div 256)"

fun from_le :: "bytes \<Rightarrow> nat" where
  "from_le [] = 0"
| "from_le (b # bs) = unat b + 256 * from_le bs"

lemma to_le_numeral:
  "to_le (numeral k) v = of_nat (v mod 256) # to_le (pred_numeral k) (v div 256)"
  by (metis numeral_eq_Suc to_le.simps(2))

lemma length_to_le [simp]: "length (to_le n v) = n"
  by (induction n arbitrary: v) auto

lemma from_le_to_le_mod: "from_le (to_le n v) = v mod 256 ^ n"
proof (induction n arbitrary: v)
  case 0
  then show ?case by simp
next
  case (Suc n)
  have "unat (of_nat (v mod 256) :: byte) = v mod 256"
    by (simp add: unat_of_nat)
  with Suc show ?case
    by (simp add: mod_mult2_eq)
qed

lemma from_le_to_le: "v < 256 ^ n \<Longrightarrow> from_le (to_le n v) = v"
  by (simp add: from_le_to_le_mod)

lemma unat_byte_less: "unat (b :: byte) < 256"
  using unsigned_less [of b, where 'a = nat] by simp

lemma from_le_less: "from_le bs < 256 ^ length bs"
proof (induction bs)
  case Nil
  then show ?case by simp
next
  case (Cons b bs)
  have "unat b < 256" by (rule unat_byte_less)
  with Cons show ?case by simp
qed

lemma to_le_from_le: "to_le (length bs) (from_le bs) = bs"
proof (induction bs)
  case Nil
  then show ?case by simp
next
  case (Cons b bs)
  have "unat b < 256" by (rule unat_byte_less)
  then have "(unat b + 256 * from_le bs) mod 256 = unat b"
    and "(unat b + 256 * from_le bs) div 256 = from_le bs" by simp_all
  with Cons show ?case by simp
qed

section \<open>Ordered slices\<close>

text \<open>
  \<open>slice::partition_point\<close> on a slice that is partitioned by the predicate: the index of the
  first element of the second part.
\<close>

definition partition_point :: "('a \<Rightarrow> bool) \<Rightarrow> 'a list \<Rightarrow> nat" where
  "partition_point P xs = length (takeWhile P xs)"

lemma drop_partition_point: "drop (partition_point P xs) xs = dropWhile P xs"
  by (simp add: partition_point_def dropWhile_eq_drop)

lemma dropWhile_sorted_filter:
  fixes f :: "'a \<Rightarrow> 'k::linorder"
  assumes "sorted (map f xs)"
  shows "dropWhile (\<lambda>x. f x \<le> k) xs = filter (\<lambda>x. k < f x) xs"
  using assms
proof (induction xs)
  case Nil
  then show ?case by simp
next
  case (Cons x xs)
  show ?case
  proof (cases "f x \<le> k")
    case True
    with Cons show ?thesis by simp
  next
    case False
    with Cons.prems have "\<forall>y \<in> set xs. k < f y"
      by auto
    with False show ?thesis by (simp add: filter_id_conv)
  qed
qed

text \<open>
  The loop of \<open>slice::binary_search_by\<close> of the Rust standard library, then the search itself:
  \<open>Ok i\<close> for a match at \<open>i\<close>, \<open>Err i\<close> for the insertion point.
\<close>

function bsearch_loop :: "('a \<Rightarrow> 'k::linorder) \<Rightarrow> 'k \<Rightarrow> 'a list \<Rightarrow> nat \<Rightarrow> nat \<Rightarrow> nat" where
  "bsearch_loop f k xs base sz =
     (if sz \<le> 1 then base
      else let half = sz div 2; mid = base + half
           in bsearch_loop f k xs (if f (xs ! mid) > k then base else mid) (sz - half))"
  by pat_completeness auto
termination
  by (relation "measure (\<lambda>(f, k, xs, base, sz). sz)") auto

declare bsearch_loop.simps [simp del]

definition binary_search_by_key :: "'k \<Rightarrow> ('a \<Rightarrow> 'k::linorder) \<Rightarrow> 'a list \<Rightarrow> nat + nat" where
  "binary_search_by_key k f xs =
     (if xs = [] then Err 0
      else let base = bsearch_loop f k xs 0 (length xs)
           in if f (xs ! base) = k then Ok base
              else Err (base + (if f (xs ! base) < k then 1 else 0)))"

text \<open>\<open>unwrap_or_else(|idx| idx)\<close>.\<close>

fun either_index :: "nat + nat \<Rightarrow> nat" where
  "either_index (Inl i) = i"
| "either_index (Inr i) = i"

lemma bsearch_loop_bounds:
  assumes "0 < sz"
  shows "base \<le> bsearch_loop f k xs base sz \<and> bsearch_loop f k xs base sz < base + sz"
  using assms
proof (induction f k xs base sz rule: bsearch_loop.induct)
  case (1 f k xs base sz)
  show ?case
  proof (cases "sz \<le> 1")
    case True
    then have "bsearch_loop f k xs base sz = base" by (subst bsearch_loop.simps) simp
    with "1.prems" show ?thesis by simp
  next
    case False
    let ?half = "sz div 2"
    let ?b = "if f (xs ! (base + ?half)) > k then base else base + ?half"
    have "?b \<le> bsearch_loop f k xs ?b (sz - ?half) \<and>
          bsearch_loop f k xs ?b (sz - ?half) < ?b + (sz - ?half)"
      using False by (intro "1.IH") auto
    moreover have "bsearch_loop f k xs base sz = bsearch_loop f k xs ?b (sz - ?half)"
      using False by (subst bsearch_loop.simps) (simp only: Let_def if_False)
    moreover have "?b \<le> base + ?half" and "base \<le> ?b" by simp_all
    ultimately show ?thesis using False by linarith
  qed
qed

text \<open>
  Invariant of the loop on an ordered slice: everything below the base is at most the key,
  everything from the end of the window on is above it.
\<close>

lemma bsearch_loop_window:
  assumes "sorted (map f xs)" and "0 < sz" and "base + sz \<le> length xs"
    and "\<forall>i. 0 < i \<longrightarrow> i \<le> base \<longrightarrow> f (xs ! i) \<le> k"
    and "\<forall>i. base + sz \<le> i \<longrightarrow> i < length xs \<longrightarrow> k < f (xs ! i)"
  shows "(\<forall>i. 0 < i \<longrightarrow> i \<le> bsearch_loop f k xs base sz \<longrightarrow> f (xs ! i) \<le> k) \<and>
         (\<forall>i. bsearch_loop f k xs base sz < i \<longrightarrow> i < length xs \<longrightarrow> k < f (xs ! i))"
  using assms
proof (induction f k xs base sz rule: bsearch_loop.induct)
  case (1 f k xs base sz)
  show ?case
  proof (cases "sz \<le> 1")
    case True
    then have "bsearch_loop f k xs base sz = base" by (subst bsearch_loop.simps) simp
    with "1.prems" True show ?thesis by auto
  next
    case False
    let ?half = "sz div 2"
    let ?mid = "base + ?half"
    let ?b = "if f (xs ! ?mid) > k then base else ?mid"
    have mid: "?mid < length xs" using False "1.prems"(3) by auto
    have mono: "f (xs ! i) \<le> f (xs ! j)" if "i \<le> j" "j < length xs" for i j
      using sorted_nth_mono [OF "1.prems"(1), of i j] that by simp
    have "(\<forall>i. 0 < i \<longrightarrow> i \<le> bsearch_loop f k xs ?b (sz - ?half) \<longrightarrow> f (xs ! i) \<le> k) \<and>
         (\<forall>i. bsearch_loop f k xs ?b (sz - ?half) < i \<longrightarrow> i < length xs \<longrightarrow> k < f (xs ! i))"
    proof (rule "1.IH" [OF _ refl refl])
      show "\<forall>i. 0 < i \<longrightarrow> i \<le> ?b \<longrightarrow> f (xs ! i) \<le> k"
        using "1.prems"(4) mono mid by (auto split: if_splits) (meson not_less order_trans)
      show "\<forall>i. ?b + (sz - ?half) \<le> i \<longrightarrow> i < length xs \<longrightarrow> k < f (xs ! i)"
      proof (cases "f (xs ! ?mid) > k")
        case True
        have "k < f (xs ! i)" if "base + (sz - ?half) \<le> i" "i < length xs" for i
        proof -
          have "?mid \<le> i" using that by linarith
          with that True show ?thesis using mono [of ?mid i] by auto
        qed
        with True show ?thesis by simp
      next
        case False
        with "1.prems"(5) show ?thesis by auto
      qed
    qed (use False "1.prems" in auto)
    moreover have "bsearch_loop f k xs base sz = bsearch_loop f k xs ?b (sz - ?half)"
      using False by (subst bsearch_loop.simps) (simp only: Let_def if_False)
    ultimately show ?thesis by (simp only:)
  qed
qed

text \<open>The documented contract of the search on an ordered slice.\<close>

lemma binary_search_by_key_spec:
  assumes "sorted (map f xs)"
  shows "case binary_search_by_key k f xs of
           Inr i \<Rightarrow> i < length xs \<and> f (xs ! i) = k
         | Inl i \<Rightarrow> i \<le> length xs \<and> (\<forall>j < i. f (xs ! j) < k) \<and>
                    (\<forall>j. i \<le> j \<longrightarrow> j < length xs \<longrightarrow> k < f (xs ! j))"
proof (cases "xs = []")
  case True
  then show ?thesis by (simp add: binary_search_by_key_def)
next
  case False
  let ?b = "bsearch_loop f k xs 0 (length xs)"
  have b: "?b < length xs"
    using bsearch_loop_bounds [of "length xs" 0 f k xs] False by simp
  have w: "\<forall>i. ?b < i \<longrightarrow> i < length xs \<longrightarrow> k < f (xs ! i)"
    using bsearch_loop_window [OF assms, of "length xs" 0 k] False by simp
  have mono: "f (xs ! i) \<le> f (xs ! j)" if "i \<le> j" "j < length xs" for i j
    using sorted_nth_mono [OF assms, of i j] that by simp
  consider "f (xs ! ?b) = k" | "f (xs ! ?b) < k" | "k < f (xs ! ?b)" by fastforce
  then show ?thesis
  proof cases
    case 1
    with False b show ?thesis by (simp add: binary_search_by_key_def)
  next
    case 2
    have "\<forall>j < Suc ?b. f (xs ! j) < k"
      using mono [OF _ b] 2 by (auto simp: less_Suc_eq_le intro: le_less_trans)
    with 2 False b w show ?thesis by (simp add: binary_search_by_key_def Let_def)
  next
    case 3
    have "?b = 0"
    proof (rule ccontr)
      assume "?b \<noteq> 0"
      then have "f (xs ! ?b) \<le> k"
        using bsearch_loop_window [OF assms, of "length xs" 0 k] False by simp
      with 3 show False by simp
    qed
    moreover have "\<forall>j < length xs. k < f (xs ! j)"
      using 3 mono [of ?b] \<open>?b = 0\<close> by (auto intro: less_le_trans)
    ultimately show ?thesis using 3 False by (auto simp: binary_search_by_key_def Let_def)
  qed
qed

section \<open>Command-driven components\<close>

text \<open>
  A component that serves one command at a time from a channel keeps an invariant in every
  state it can reach when its initial state has it and every command that may be issued keeps it.
  \<open>admissible s c\<close> says which commands may be issued in state \<open>s\<close>.
\<close>

fun admissible_run :: "('s \<Rightarrow> 'c \<Rightarrow> 's) \<Rightarrow> ('s \<Rightarrow> 'c \<Rightarrow> bool) \<Rightarrow> 's \<Rightarrow> 'c list \<Rightarrow> bool" where
  "admissible_run step admissible s [] = True"
| "admissible_run step admissible s (c # cs) =
     (admissible s c \<and> admissible_run step admissible (step s c) cs)"

lemma admissible_run_all [simp]: "admissible_run step (\<lambda>s c. True) s cs"
  by (induction cs arbitrary: s) auto

locale command_machine =
  fixes step :: "'s \<Rightarrow> 'c \<Rightarrow> 's"
    and init :: 's
    and inv :: "'s \<Rightarrow> bool"
    and admissible :: "'s \<Rightarrow> 'c \<Rightarrow> bool"
  assumes inv_init: "inv init"
    and inv_step: "inv s \<Longrightarrow> admissible s c \<Longrightarrow> inv (step s c)"
begin

lemma inv_run: "inv s \<Longrightarrow> admissible_run step admissible s cs \<Longrightarrow> inv (foldl step s cs)"
  by (induction cs arbitrary: s) (auto simp: inv_step)

lemma inv_reachable: "admissible_run step admissible init cs \<Longrightarrow> inv (foldl step init cs)"
  by (rule inv_run) (rule inv_init)

end

text \<open>
  A component that answers commands refines a specification when every answer is the one of the
  specification and the abstraction of the next state is the next state of the specification. Over
  a run, a client cannot tell the two apart.
\<close>

fun run_replies :: "('s \<Rightarrow> 'c \<Rightarrow> 'r \<times> 's) \<Rightarrow> 's \<Rightarrow> 'c list \<Rightarrow> 'r list" where
  "run_replies step s [] = []"
| "run_replies step s (c # cs) = (case step s c of (r, s') \<Rightarrow> r # run_replies step s' cs)"

text \<open>The general contract lets the specification's state say which commands are legal.\<close>

locale guarded_refinement =
  fixes cstep :: "'s \<Rightarrow> 'c \<Rightarrow> 'r \<times> 's"
    and astep :: "'a \<Rightarrow> 'c \<Rightarrow> 'r \<times> 'a"
    and abs :: "'s \<Rightarrow> 'a"
    and inv :: "'s \<Rightarrow> bool"
    and guard :: "'a \<Rightarrow> 'c \<Rightarrow> bool"
  assumes inv_guarded: "inv s \<Longrightarrow> guard (abs s) c \<Longrightarrow> inv (snd (cstep s c))"
    and refines_guarded:
      "inv s \<Longrightarrow> guard (abs s) c \<Longrightarrow> astep (abs s) c = (fst (cstep s c), abs (snd (cstep s c)))"
begin

lemma guarded_replies:
  "inv s \<Longrightarrow> admissible_run (\<lambda>a c. snd (astep a c)) guard (abs s) cs \<Longrightarrow>
     run_replies cstep s cs = run_replies astep (abs s) cs"
proof (induction cs arbitrary: s)
  case (Cons c cs)
  with inv_guarded [of s c] refines_guarded [of s c] show ?case by (cases "cstep s c") simp
qed simp

end

locale functional_refinement =
  fixes cstep :: "'s \<Rightarrow> 'c \<Rightarrow> 'r \<times> 's"
    and astep :: "'a \<Rightarrow> 'c \<Rightarrow> 'r \<times> 'a"
    and abs :: "'s \<Rightarrow> 'a"
    and inv :: "'s \<Rightarrow> bool"
    and legal :: "'c \<Rightarrow> bool"
  assumes inv_cstep: "inv s \<Longrightarrow> legal c \<Longrightarrow> inv (snd (cstep s c))"
    and refines: "inv s \<Longrightarrow> legal c \<Longrightarrow> astep (abs s) c = (fst (cstep s c), abs (snd (cstep s c)))"

sublocale functional_refinement \<subseteq> always: guarded_refinement cstep astep abs inv "\<lambda>_. legal"
  by standard (simp_all add: inv_cstep refines)

lemma admissible_run_stateless: "admissible_run step (\<lambda>_. legal) s cs \<longleftrightarrow> list_all legal cs"
  by (induction cs arbitrary: s) auto

context functional_refinement
begin

lemma replies_refine:
  "inv s \<Longrightarrow> list_all legal cs \<Longrightarrow> run_replies cstep s cs = run_replies astep (abs s) cs"
  by (rule always.guarded_replies) (simp_all add: admissible_run_stateless)

end

end
