(* ===== verification/Strings_Util.thy ===== *)
theory Strings_Util
  imports Prelude
begin

text \<open>
  \<open>common/src/helpers\<close>: identifier normalisation (\<open>utils.rs\<close>), stable identifiers (\<open>hash.rs\<close>)
  and the file header of the on-disk layout (\<open>format.rs\<close>), with the operations of Rust's
  \<open>str\<close> they use. The MD5 digest is a parameter.
\<close>

section \<open>Operations of \<open>str\<close>\<close>

text \<open>\<open>char::is_whitespace\<close>: the code points with Unicode property \<open>White_Space\<close>.\<close>

definition is_whitespace :: "nat \<Rightarrow> bool" where
  "is_whitespace c \<longleftrightarrow>
     9 \<le> c \<and> c \<le> 13 \<or> c = 32 \<or> c = 133 \<or> c = 160 \<or> c = 5760 \<or>
     8192 \<le> c \<and> c \<le> 8202 \<or> c = 8232 \<or> c = 8233 \<or> c = 8239 \<or> c = 8287 \<or> c = 12288"

definition trim :: "ustr \<Rightarrow> ustr" where
  "trim s = rev (dropWhile is_whitespace (rev (dropWhile is_whitespace s)))"

definition ascii_lower :: "nat \<Rightarrow> nat" where
  "ascii_lower c = (if 65 \<le> c \<and> c \<le> 90 then c + 32 else c)"

definition to_ascii_lowercase :: "ustr \<Rightarrow> ustr" where
  "to_ascii_lowercase s = map ascii_lower s"

text \<open>UTF-8: the bytes of a string, and \<open>str::len\<close>.\<close>

definition utf8_char :: "nat \<Rightarrow> bytes" where
  "utf8_char c =
     (if c < 128 then [of_nat c]
      else if c < 2048 then [of_nat (192 + c div 64), of_nat (128 + c mod 64)]
      else if c < 65536 then
        [of_nat (224 + c div 4096), of_nat (128 + c div 64 mod 64), of_nat (128 + c mod 64)]
      else
        [of_nat (240 + c div 262144), of_nat (128 + c div 4096 mod 64),
         of_nat (128 + c div 64 mod 64), of_nat (128 + c mod 64)])"

definition as_bytes :: "ustr \<Rightarrow> bytes" where
  "as_bytes s = concat (map utf8_char s)"

definition str_len :: "ustr \<Rightarrow> nat" where
  "str_len s = length (as_bytes s)"

lemma as_bytes_ascii: "\<forall>c \<in> set s. c < 128 \<Longrightarrow> as_bytes s = map of_nat s"
  by (induction s) (auto simp: as_bytes_def utf8_char_def)

lemma str_len_ge_length: "length s \<le> str_len s"
  by (induction s) (auto simp: str_len_def as_bytes_def utf8_char_def)

text \<open>\<open>to_string\<close> on unsigned integers.\<close>

fun decimal :: "nat \<Rightarrow> ustr" where
  "decimal n = (if n < 10 then [48 + n] else decimal (n div 10) @ [48 + n mod 10])"

declare decimal.simps [simp del]

section \<open>\<open>normalize_identifier\<close>\<close>

definition quoted_by :: "nat \<Rightarrow> ustr \<Rightarrow> bool" where
  "quoted_by q s \<longleftrightarrow> s \<noteq> [] \<and> hd s = q \<and> last s = q"

definition quoted :: "ustr \<Rightarrow> bool" where
  "quoted s \<longleftrightarrow> quoted_by 96 s \<or> quoted_by 34 s \<or> quoted_by 39 s"

text \<open>
  The loop strips one pair of delimiters at a time. A string of at least two bytes that starts
  and ends with a one-byte quote has at least two characters, so the slice drops the first and
  the last of them.
\<close>

function strip_quotes :: "ustr \<Rightarrow> ustr" where
  "strip_quotes s =
     (if 2 \<le> str_len s \<and> quoted s then strip_quotes (trim (butlast (tl s))) else s)"
  by pat_completeness auto

lemma length_trim: "length (trim s) \<le> length s"
proof -
  have "length (trim s) \<le> length (rev (dropWhile is_whitespace s))"
    using length_dropWhile_le [of is_whitespace "rev (dropWhile is_whitespace s)"]
    by (simp add: trim_def)
  also have "\<dots> \<le> length s" by (simp add: length_dropWhile_le)
  finally show ?thesis .
qed

termination strip_quotes
proof (relation "measure length")
  fix s :: ustr
  assume "2 \<le> str_len s \<and> quoted s"
  then have "s \<noteq> []" by (auto simp: quoted_def quoted_by_def)
  then have "length (butlast (tl s)) < length s" by (cases s) auto
  with length_trim [of "butlast (tl s)"]
  show "(trim (butlast (tl s)), s) \<in> measure length" by simp
qed simp

declare strip_quotes.simps [simp del]

definition normalize_identifier :: "ustr \<Rightarrow> ustr" where
  "normalize_identifier v = to_ascii_lowercase (strip_quotes (trim v))"

subsection \<open>Normal forms\<close>

definition trimmed :: "ustr \<Rightarrow> bool" where
  "trimmed s \<longleftrightarrow> s = [] \<or> \<not> is_whitespace (hd s) \<and> \<not> is_whitespace (last s)"

lemma hd_dropWhile_False: "dropWhile P xs \<noteq> [] \<Longrightarrow> \<not> P (hd (dropWhile P xs))"
  by (induction xs) auto

lemma last_dropWhile: "dropWhile P xs \<noteq> [] \<Longrightarrow> last (dropWhile P xs) = last xs"
  by (induction xs) auto

lemma trimmed_trim: "trimmed (trim s)"
proof (cases "trim s = []")
  case True
  then show ?thesis by (simp add: trimmed_def)
next
  case False
  let ?t = "dropWhile is_whitespace s"
  let ?u = "dropWhile is_whitespace (rev ?t)"
  from False have u: "?u \<noteq> []" by (simp add: trim_def)
  then have "?t \<noteq> []" by (metis dropWhile.simps(1) rev.simps(1))
  then have "\<not> is_whitespace (hd ?t)" by (rule hd_dropWhile_False)
  moreover have "hd (rev ?u) = hd ?t"
    using u \<open>?t \<noteq> []\<close> by (simp add: hd_rev last_dropWhile last_rev)
  moreover have "\<not> is_whitespace (last (rev ?u))"
    using hd_dropWhile_False [OF u] u by (simp add: last_rev)
  ultimately show ?thesis by (simp add: trimmed_def trim_def)
qed

lemma trim_trimmed: "trimmed s \<Longrightarrow> trim s = s"
proof (cases "s = []")
  case True
  then show ?thesis by (simp add: trim_def)
next
  case False
  assume "trimmed s"
  with False have "\<not> is_whitespace (hd s)" "\<not> is_whitespace (hd (rev s))"
    by (auto simp: trimmed_def hd_rev)
  with False have "dropWhile is_whitespace s = s" "dropWhile is_whitespace (rev s) = rev s"
    by (cases s, auto) (cases "rev s", auto)
  then show ?thesis by (simp add: trim_def)
qed

lemma strip_quotes_trimmed: "trimmed s \<Longrightarrow> trimmed (strip_quotes s)"
proof (induction s rule: strip_quotes.induct)
  case (1 s)
  then show ?case by (subst strip_quotes.simps) (simp add: trimmed_trim)
qed

lemma strip_quotes_done: "\<not> (2 \<le> str_len (strip_quotes s) \<and> quoted (strip_quotes s))"
proof (induction s rule: strip_quotes.induct)
  case (1 s)
  show ?case
  proof (cases "2 \<le> str_len s \<and> quoted s")
    case True
    then have "strip_quotes s = strip_quotes (trim (butlast (tl s)))"
      by (subst strip_quotes.simps) simp
    with 1 True show ?thesis by simp
  next
    case False
    then have "strip_quotes s = s" by (subst strip_quotes.simps) (simp only: if_False)
    with False show ?thesis by simp
  qed
qed

lemma is_whitespace_lower [simp]: "is_whitespace (ascii_lower c) = is_whitespace c"
  by (auto simp: ascii_lower_def is_whitespace_def)

lemma ascii_lower_idem [simp]: "ascii_lower (ascii_lower c) = ascii_lower c"
  by (auto simp: ascii_lower_def)

lemma to_ascii_lowercase_idem: "to_ascii_lowercase (to_ascii_lowercase s) = to_ascii_lowercase s"
  by (simp add: to_ascii_lowercase_def)

lemma trimmed_lower: "trimmed (to_ascii_lowercase s) = trimmed s"
  by (cases "s = []") (auto simp: trimmed_def to_ascii_lowercase_def hd_map last_map)

lemma quoted_lower: "quoted (to_ascii_lowercase s) = quoted s"
proof -
  have "ascii_lower c = q \<longleftrightarrow> c = q" if "q \<in> {96, 34, 39}" for c q
    using that by (auto simp: ascii_lower_def)
  then show ?thesis
    by (cases "s = []")
      (auto simp: quoted_def quoted_by_def to_ascii_lowercase_def hd_map last_map)
qed

lemma str_len_lower: "str_len (to_ascii_lowercase s) = str_len s"
  by (induction s)
    (auto simp: str_len_def as_bytes_def utf8_char_def to_ascii_lowercase_def ascii_lower_def)

text \<open>
  An identifier in normal form is a fixed point of \<open>normalize_identifier\<close>: normalising
  twice gives the same key as normalising once, so every table of the server that is keyed by
  normalised identifiers may normalise again without losing an entry.
\<close>

theorem normalize_identifier_idem:
  "normalize_identifier (normalize_identifier v) = normalize_identifier v"
proof -
  let ?s = "strip_quotes (trim v)"
  have t: "trimmed ?s" by (rule strip_quotes_trimmed [OF trimmed_trim])
  have "trim (to_ascii_lowercase ?s) = to_ascii_lowercase ?s"
    by (rule trim_trimmed) (simp add: trimmed_lower t)
  moreover have "strip_quotes (to_ascii_lowercase ?s) = to_ascii_lowercase ?s"
    by (subst strip_quotes.simps)
      (simp only: str_len_lower quoted_lower strip_quotes_done if_False)
  ultimately show ?thesis
    by (simp add: normalize_identifier_def to_ascii_lowercase_idem)
qed

section \<open>\<open>stable_id\<close>\<close>

text \<open>
  The parts are joined with a colon after each; \<open>md5_hex\<close> stands for the lower-case hexadecimal
  MD5 digest of the \<open>md5\<close> crate, of which the first sixteen digits are kept.
\<close>

definition stable_id :: "(bytes \<Rightarrow> ustr) \<Rightarrow> ustr list \<Rightarrow> ustr" where
  "stable_id md5_hex parts =
     take 16 (md5_hex (as_bytes (concat (map (\<lambda>part. part @ lit '':'') parts))))"

section \<open>File headers\<close>

datatype FileKind = Data | Catalog | Entity

fun extension :: "FileKind \<Rightarrow> string" where
  "extension Data = ''dtbl''"
| "extension Catalog = ''dbcat''"
| "extension Entity = ''ent''"

fun magic :: "FileKind \<Rightarrow> bytes" where
  "magic Data = map of_char ''DTBL''"
| "magic Catalog = map of_char ''DBCT''"
| "magic Entity = map of_char ''DBEN''"

definition file_name :: "FileKind \<Rightarrow> ustr \<Rightarrow> ustr" where
  "file_name kind stem = stem @ lit ''.'' @ lit (extension kind)"

definition FORMAT_VERSION :: u8 where
  "FORMAT_VERSION = 1"

definition HEADER_SIZE :: nat where
  "HEADER_SIZE = 5"

datatype HeaderError = TooShort | BadMagic | UnsupportedVersion u8

definition make_header :: "FileKind \<Rightarrow> bytes" where
  "make_header kind = magic kind @ [FORMAT_VERSION]"

definition verify_header :: "FileKind \<Rightarrow> bytes \<Rightarrow> HeaderError + u8" where
  "verify_header kind bs =
     (if length bs < HEADER_SIZE then Err TooShort
      else if take 4 bs \<noteq> magic kind then Err BadMagic
      else if bs ! 4 \<noteq> FORMAT_VERSION then Err (UnsupportedVersion (bs ! 4))
      else Ok (bs ! 4))"

lemma length_magic [simp]: "length (magic kind) = 4"
  by (cases kind) auto

lemma length_make_header [simp]: "length (make_header kind) = HEADER_SIZE"
  by (simp add: make_header_def HEADER_SIZE_def)

lemma magic_inject: "magic k = magic k' \<longleftrightarrow> k = k'"
  by (cases k; cases k') auto

text \<open>
  The header check accepts exactly the byte strings that start with the header of the same
  kind and the current version: a file written with \<open>make_header\<close> is accepted whatever follows,
  and no other file is.
\<close>

theorem verify_header_iff:
  "is_ok (verify_header kind bs) \<longleftrightarrow> (\<exists>rest. bs = make_header kind @ rest)"
proof
  assume "is_ok (verify_header kind bs)"
  then have len: "5 \<le> length bs" and m: "take 4 bs = magic kind" and v: "bs ! 4 = FORMAT_VERSION"
    by (auto simp: verify_header_def HEADER_SIZE_def split: if_splits)
  have "bs = take 4 bs @ bs ! 4 # drop 5 bs"
    using len by (metis Suc_le_eq append_take_drop_id Cons_nth_drop_Suc eval_nat_numeral(3))
  with m v show "\<exists>rest. bs = make_header kind @ rest"
    by (metis append.assoc append_Cons append_Nil make_header_def)
next
  assume "\<exists>rest. bs = make_header kind @ rest"
  then obtain rest where "bs = make_header kind @ rest" ..
  then show "is_ok (verify_header kind bs)"
    by (simp add: verify_header_def make_header_def HEADER_SIZE_def nth_append)
qed

lemma verify_header_make [simp]: "verify_header kind (make_header kind @ rest) = Ok FORMAT_VERSION"
  by (simp add: verify_header_def make_header_def HEADER_SIZE_def nth_append)

end
