(* ===== verification/Base64.thy ===== *)
theory Base64
  imports Strings_Util
begin

text \<open>
  \<open>common/src/helpers/base64.rs\<close>: the unpadded base64 encoder, the decode table and the decoder
  that also accepts padding and the URL-safe alphabet.
\<close>

section \<open>Encoder\<close>

definition b64_table :: "nat list" where
  "b64_table = map of_char ''ABCDEFGHIJKLMNOPQRSTUVWXYZabcdefghijklmnopqrstuvwxyz0123456789+/''"

definition b64_digit :: "u32 \<Rightarrow> nat \<Rightarrow> nat" where
  "b64_digit n k = b64_table ! unat (drop_bit k n AND 0x3f)"

definition pack3 :: "byte \<Rightarrow> byte \<Rightarrow> byte \<Rightarrow> u32" where
  "pack3 a b c = push_bit 16 (ucast a) OR push_bit 8 (ucast b) OR ucast c"

text \<open>The loop consumes three bytes a turn; the last one or two bytes give two or three digits.\<close>

fun b64_encode_bytes :: "bytes \<Rightarrow> ustr" where
  "b64_encode_bytes (a # b # c # rest) =
     (let n = pack3 a b c
      in [b64_digit n 18, b64_digit n 12, b64_digit n 6, b64_digit n 0] @ b64_encode_bytes rest)"
| "b64_encode_bytes [a, b] =
     (let n = push_bit 16 (ucast a) OR push_bit 8 (ucast b)
      in [b64_digit n 18, b64_digit n 12, b64_digit n 6])"
| "b64_encode_bytes [a] =
     (let n = push_bit 16 (ucast a) in [b64_digit n 18, b64_digit n 12])"
| "b64_encode_bytes [] = []"

section \<open>Decoder\<close>

definition INVALID_BASE64 :: u8 where
  "INVALID_BASE64 = 0xff"

text \<open>The decode table, filled by the two loops and the four single stores of the source.\<close>

definition build_decode_table :: "u8 list" where
  "build_decode_table =
     (let table = replicate 256 INVALID_BASE64;
          letters = fold (\<lambda>i t. t[65 + i := of_nat i, 97 + i := of_nat (26 + i)]) [0..<26] table;
          digits = fold (\<lambda>i t. t[48 + i := of_nat (52 + i)]) [0..<10] letters
      in digits[43 := 62, 45 := 62, 47 := 63, 95 := 63])"

definition decode_char :: "byte \<Rightarrow> u8 option" where
  "decode_char c =
     (let v = build_decode_table ! unat c in if v = INVALID_BASE64 then None else Some v)"

definition out_byte :: "u32 \<Rightarrow> nat \<Rightarrow> byte" where
  "out_byte n k = ucast (drop_bit k n AND 0xff)"

fun b64_decode_groups :: "bytes \<Rightarrow> bytes option" where
  "b64_decode_groups (w # x # y # z # rest) =
     (case (decode_char w, decode_char x, decode_char y, decode_char z) of
        (Some a, Some b, Some c, Some d) \<Rightarrow>
          (let n = push_bit 18 (ucast a) OR push_bit 12 (ucast b) OR push_bit 6 (ucast c) OR ucast d
           in map_option (\<lambda>out. out_byte n 16 # out_byte n 8 # out_byte n 0 # out)
                (b64_decode_groups rest))
      | _ \<Rightarrow> None)"
| "b64_decode_groups [w, x, y] =
     (case (decode_char w, decode_char x, decode_char y) of
        (Some a, Some b, Some c) \<Rightarrow>
          (let n = push_bit 18 (ucast a) OR push_bit 12 (ucast b) OR push_bit 6 (ucast c)
           in Some [out_byte n 16, out_byte n 8])
      | _ \<Rightarrow> None)"
| "b64_decode_groups [w, x] =
     (case (decode_char w, decode_char x) of
        (Some a, Some b) \<Rightarrow>
          (let n = push_bit 18 (ucast a) OR push_bit 12 (ucast b) in Some [out_byte n 16])
      | _ \<Rightarrow> None)"
| "b64_decode_groups [w] = None"
| "b64_decode_groups [] = Some []"

definition b64_decode_impl :: "ustr \<Rightarrow> bytes option" where
  "b64_decode_impl s =
     (if s = [] then Some []
      else let data = as_bytes s;
               body = rev (dropWhile (\<lambda>b. b = 61) (rev data));
               pad_count = length data - length body
           in if pad_count > 2 then None
              else if length body mod 4 = 1 then None
              else b64_decode_groups body)"

definition b64_decode :: "ustr \<Rightarrow> bytes" where
  "b64_decode s = (case b64_decode_impl s of None \<Rightarrow> [] | Some out \<Rightarrow> out)"

section \<open>Round trip\<close>

lemma b64_table_eq:
  "b64_table = map (\<lambda>i. if i < 26 then 65 + i else if i < 52 then 71 + i
      else if i < 62 then i - 4 else if i = 62 then 43 else 47) [0..<64]"
  by (simp add: b64_table_def upt_rec)

lemma nth_letters:
  assumes "length t = 256" and "n \<le> 26"
  shows "length (fold (\<lambda>i t. t[65 + i := of_nat i, 97 + i := of_nat (26 + i)]) [0..<n] t) = 256"
    and "fold (\<lambda>i t. t[65 + i := of_nat i, 97 + i := of_nat (26 + i)]) [0..<n] t ! j =
      (if 65 \<le> j \<and> j < 65 + n then of_nat (j - 65)
       else if 97 \<le> j \<and> j < 97 + n then of_nat (j - 71) else t ! j :: u8)"
  using assms(2) by (induction n) (auto simp: assms(1) nth_list_update)

lemma nth_digits:
  assumes "length t = 256" and "n \<le> 10"
  shows "length (fold (\<lambda>i t. t[48 + i := of_nat (52 + i)]) [0..<n] t) = 256"
    and "fold (\<lambda>i t. t[48 + i := of_nat (52 + i)]) [0..<n] t ! j =
      (if 48 \<le> j \<and> j < 48 + n then of_nat (j + 4) else t ! j :: u8)"
  using assms(2) by (induction n) (auto simp: assms(1) nth_list_update)

lemma nth_build_decode_table:
  "j < 256 \<Longrightarrow> build_decode_table ! j =
     (if j = 95 then 63 else if j = 47 then 63 else if j = 45 then 62 else if j = 43 then 62
      else if 48 \<le> j \<and> j < 48 + 10 then of_nat (j + 4)
      else if 65 \<le> j \<and> j < 65 + 26 then of_nat (j - 65)
      else if 97 \<le> j \<and> j < 97 + 26 then of_nat (j - 71) else INVALID_BASE64)"
proof -
  let ?t = "replicate 256 INVALID_BASE64"
  let ?l = "fold (\<lambda>i t. t[65 + i := of_nat i, 97 + i := of_nat (26 + i)]) [0..<26] ?t"
  let ?d = "fold (\<lambda>i t. t[48 + i := of_nat (52 + i)]) [0..<10] ?l"
  assume j: "j < 256"
  have t: "length ?t = 256" by (rule length_replicate)
  note l = nth_letters [OF t order_refl]
  note d = nth_digits [OF l(1) order_refl]
  have "build_decode_table ! j = ?d[43 := 62, 45 := 62, 47 := 63, 95 := 63] ! j"
    by (simp only: build_decode_table_def Let_def)
  also have "\<dots> = (if j = 95 then 63 else if j = 47 then 63 else if j = 45 then 62
      else if j = 43 then 62 else ?d ! j)"
    using j by (simp only: nth_list_update length_list_update d(1)) (simp only: eq_commute [of _ j])
  finally show ?thesis by (simp only: d(2) l(2) nth_replicate [OF j])
qed

lemma b64_table_char:
  assumes "i < 64"
  shows "b64_table ! i < 128" and "b64_table ! i \<noteq> 61"
    and "decode_char (of_nat (b64_table ! i)) = Some (of_nat i)"
proof -
  have entry: "b64_table ! i = (if i < 26 then 65 + i else if i < 52 then 71 + i
      else if i < 62 then i - 4 else if i = 62 then 43 else 47)"
    using assms by (simp only: b64_table_eq nth_map length_upt nth_upt diff_zero add_0)
  then show "b64_table ! i < 128" and "b64_table ! i \<noteq> 61" using assms by (auto split: if_splits)
  have small: "of_nat i \<noteq> (INVALID_BASE64 :: u8)"
  proof
    assume "of_nat i = (INVALID_BASE64 :: u8)"
    then have "unat (of_nat i :: u8) = 255" by (simp add: INVALID_BASE64_def)
    then show False using assms by (simp add: unat_of_nat)
  qed
  have "unat (of_nat (b64_table ! i) :: u8) = b64_table ! i"
    using \<open>b64_table ! i < 128\<close> by (simp add: unat_of_nat)
  moreover have "build_decode_table ! (b64_table ! i) = of_nat i"
  proof -
    consider "i < 26" | "26 \<le> i" "i < 52" | "52 \<le> i" "i < 62" | "i = 62" | "i = 63"
      using assms by linarith
    then show ?thesis
    proof cases
      case 3
      then have "b64_table ! i = i - 4" "48 \<le> i - 4" "i - 4 < 58" by (simp_all add: entry)
      then show ?thesis using 3 by (simp add: nth_build_decode_table)
    next
      case 4
      with entry have "b64_table ! i = 43" by simp
      with 4 show ?thesis by (simp add: nth_build_decode_table)
    next
      case 5
      with entry have "b64_table ! i = 47" by simp
      with 5 show ?thesis by (simp add: nth_build_decode_table)
    qed (simp_all add: entry nth_build_decode_table)
  qed
  ultimately show "decode_char (of_nat (b64_table ! i)) = Some (of_nat i)"
    using small by (simp add: decode_char_def)
qed

lemma digit_index_less: "unat (drop_bit k n AND 0x3f :: u32) < 64"
proof -
  have "drop_bit k n AND 0x3f \<le> (0x3f :: u32)" by (rule word_and_le1)
  then show ?thesis by (simp add: word_le_nat_alt)
qed

lemma b64_digit_less: "b64_digit n k < 128"
  and b64_digit_not_pad: "b64_digit n k \<noteq> 61"
  by (simp_all add: b64_digit_def b64_table_char digit_index_less)

lemma decode_char_digit:
  "decode_char (of_nat (b64_digit n k)) = Some (ucast (drop_bit k n AND 0x3f))"
  by (simp add: b64_digit_def b64_table_char(3) [OF digit_index_less] del: word_of_nat_eq_iff)

text \<open>The two bit masks, and the bits of the words the coders build.\<close>

lemma mask_words: "(0x3f :: u32) = mask 6" "(0xff :: u32) = mask 8"
  by (simp_all add: mask_eq_exp_minus_1)

lemma bit_out_byte: "bit (out_byte n k) i \<longleftrightarrow> i < 8 \<and> bit n (k + i)"
  by (auto simp: out_byte_def mask_words bit_simps)

definition sextet :: "u32 \<Rightarrow> nat \<Rightarrow> u32" where
  "sextet n k = push_bit k (ucast (ucast (drop_bit k n AND 0x3f) :: u8))"

lemma bit_sextet: "i < 32 \<Longrightarrow> bit (sextet n k) i \<longleftrightarrow> k \<le> i \<and> i < k + 6 \<and> bit n i"
  by (auto simp: sextet_def mask_words bit_simps)

lemma out_byte_cong: "(\<And>i. i < 8 \<Longrightarrow> bit m (k + i) = bit n (k + i)) \<Longrightarrow> out_byte m k = out_byte n k"
  by (rule bit_word_eqI) (auto simp: bit_out_byte)

lemma out_byte_pack3:
  "out_byte (pack3 a b c) 16 = a" "out_byte (pack3 a b c) 8 = b" "out_byte (pack3 a b c) 0 = c"
  by (rule bit_word_eqI; auto simp: bit_out_byte pack3_def bit_simps dest: bit_imp_le_length)+

lemma out_byte_regroup4:
  "out_byte (sextet n 18 OR sextet n 12 OR sextet n 6 OR sextet n 0) 16 = out_byte n 16"
  "out_byte (sextet n 18 OR sextet n 12 OR sextet n 6 OR sextet n 0) 8 = out_byte n 8"
  "out_byte (sextet n 18 OR sextet n 12 OR sextet n 6 OR sextet n 0) 0 = out_byte n 0"
  by (rule out_byte_cong; auto simp: bit_or_iff bit_sextet)+

lemma out_byte_regroup3:
  "out_byte (sextet n 18 OR sextet n 12 OR sextet n 6) 16 = out_byte n 16"
  "out_byte (sextet n 18 OR sextet n 12 OR sextet n 6) 8 = out_byte n 8"
  by (rule out_byte_cong; auto simp: bit_or_iff bit_sextet)+

lemma out_byte_regroup2: "out_byte (sextet n 18 OR sextet n 12) 16 = out_byte n 16"
  by (rule out_byte_cong) (auto simp: bit_or_iff bit_sextet)

lemma sextet_0: "ucast (ucast (drop_bit 0 n AND 0x3f :: u32) :: u8) = sextet n 0"
  by (simp add: sextet_def)

lemma b64_encode_ascii: "\<forall>c \<in> set (b64_encode_bytes bs). c < 128 \<and> c \<noteq> 61"
  by (induction bs rule: b64_encode_bytes.induct)
    (auto simp: Let_def b64_digit_less b64_digit_not_pad)

lemma b64_encode_short:
  "b64_encode_bytes [a, b] =
     [b64_digit (pack3 a b 0) 18, b64_digit (pack3 a b 0) 12, b64_digit (pack3 a b 0) 6]"
  "b64_encode_bytes [a] = [b64_digit (pack3 a 0 0) 18, b64_digit (pack3 a 0 0) 12]"
  by (simp_all add: Let_def pack3_def)

lemma b64_decode_groups_encode:
  "b64_decode_groups (map of_nat (b64_encode_bytes bs)) = Some bs"
proof (induction bs rule: b64_encode_bytes.induct)
  case (1 a b c rest)
  then show ?case
    by (simp add: Let_def decode_char_digit sextet_0 flip: sextet_def del: drop_bit_0)
      (simp add: out_byte_regroup4 out_byte_pack3)
next
  case (2 a b)
  then show ?case
    by (simp add: Let_def decode_char_digit b64_encode_short flip: sextet_def
          del: b64_encode_bytes.simps)
      (simp add: out_byte_regroup3 out_byte_pack3)
next
  case (3 a)
  then show ?case
    by (simp add: Let_def decode_char_digit b64_encode_short flip: sextet_def
          del: b64_encode_bytes.simps)
      (simp add: out_byte_regroup2 out_byte_pack3)
next
  case 4
  then show ?case by simp
qed

lemma length_b64_encode: "length (b64_encode_bytes bs) mod 4 \<noteq> 1"
  by (induction bs rule: b64_encode_bytes.induct) (auto simp: Let_def)

lemma b64_encode_Nil_iff: "b64_encode_bytes bs = [] \<longleftrightarrow> bs = []"
  by (cases bs rule: b64_encode_bytes.cases) (auto simp: Let_def)

lemma b64_roundtrip: "b64_decode (b64_encode_bytes bs) = bs"
proof -
  let ?e = "b64_encode_bytes bs"
  have data: "as_bytes ?e = map of_nat ?e"
    using b64_encode_ascii by (intro as_bytes_ascii) auto
  have "(61 :: byte) \<notin> set (map of_nat ?e)"
  proof
    assume "(61 :: byte) \<in> set (map of_nat ?e)"
    then obtain c where "c \<in> set ?e" and "(61 :: byte) = of_nat c" by auto
    with b64_encode_ascii have "c < 128" "c \<noteq> 61" "unat (of_nat c :: byte) = 61" by auto
    then show False by (simp add: unat_of_nat)
  qed
  then have body: "dropWhile (\<lambda>b. b = 61) (rev (map of_nat ?e)) = rev (map of_nat ?e :: bytes)"
    unfolding dropWhile_eq_self_iff by (metis hd_in_set set_rev)
  have "b64_decode_impl ?e = Some bs"
    using length_b64_encode [of bs]
    by (simp add: b64_decode_impl_def Let_def b64_encode_Nil_iff b64_decode_groups_encode data body
        del: rev_map)
  then show ?thesis by (simp add: b64_decode_def)
qed

lemma length_b64_encode_bytes: "length (b64_encode_bytes bs) = (4 * length bs + 2) div 3"
  by (induction bs rule: b64_encode_bytes.induct) (auto simp: Let_def)

text \<open>
  Base64 round trip: decoding the text that \<open>b64_encode_bytes\<close> writes gives the bytes back,
  for every byte string; the text is unpadded and has one digit per six bits, rounded up.
\<close>

theorem b64_decode_encode:
  "b64_decode (b64_encode_bytes bs) = bs \<and>
   length (b64_encode_bytes bs) = (4 * length bs + 2) div 3"
  by (simp add: b64_roundtrip length_b64_encode_bytes)

end
