(* ===== verification/TxRecord.thy ===== *)
theory TxRecord
  imports Base64
begin

text \<open>
  \<open>serverlib/src/engine/database/transaction\<close>: transaction records, the cached resolution of
  their payloads through a chain of transforms, and the base64/hex wire frames
  (\<open>kind.rs\<close>, \<open>record.rs\<close>). The bincode serializer is a parameter.
\<close>

section \<open>Records\<close>

datatype TransactionKind =
    Ignore | WriteBegin | WriteCommit | WriteAbort | Insert | Update | Delete | Truncate
  | TableLifecycle | IndexLifecycle | SchemaChange | MetadataChange | SqlDefinitionChange
  | SecurityChange

datatype PayloadTransformError =
    UnsupportedFormat | InvalidCompressedPayload | InvalidEncryptedPayload | DecryptFailed
  | EncryptionNotConfigured | IntegrityCheckFailed | InternalTransformError string

record TransactionPayloadContext =
  ctx_stream_id :: "ustr option"
  ctx_database_id :: "ustr option"
  ctx_table_id :: "ustr option"
  encryption_key_ref :: "ustr option"
  encryption_key_version :: "u32 option"

definition default_context :: TransactionPayloadContext where
  "default_context =
     \<lparr>ctx_stream_id = None, ctx_database_id = None, ctx_table_id = None,
      encryption_key_ref = None, encryption_key_version = None\<rparr>"

definition with_at_rest_encryption ::
    "ustr \<Rightarrow> u32 \<Rightarrow> TransactionPayloadContext \<Rightarrow> TransactionPayloadContext" where
  "with_at_rest_encryption key_ref key_version c =
     c\<lparr>encryption_key_ref := Some key_ref, encryption_key_version := Some key_version\<rparr>"

definition at_rest_encryption_enabled :: "TransactionPayloadContext \<Rightarrow> bool" where
  "at_rest_encryption_enabled c \<longleftrightarrow> encryption_key_ref c \<noteq> None"

record TransactionPayloadShadow =
  shadow_payload :: "bytes option"
  shadow_context :: "TransactionPayloadContext option"
  is_resolved :: bool

record TransactionRecord =
  tx_id :: u64
  groupid :: "u64 option"
  refid :: "u64 option"
  timestamp_epoch_ms :: u64
  actor :: ustr
  tx_kind :: TransactionKind
  raw_payload :: "bytes option"
  payload_shadow :: "TransactionPayloadShadow option"

definition new_record ::
    "u64 \<Rightarrow> u64 option \<Rightarrow> u64 option \<Rightarrow> u64 \<Rightarrow> ustr \<Rightarrow> TransactionKind \<Rightarrow> bytes option \<Rightarrow>
     TransactionRecord" where
  "new_record i g r ts who k p =
     \<lparr>tx_id = i, groupid = g, refid = r, timestamp_epoch_ms = ts, actor = who, tx_kind = k,
      raw_payload = p, payload_shadow = None\<rparr>"

definition with_payload ::
    "u64 \<Rightarrow> u64 option \<Rightarrow> u64 option \<Rightarrow> u64 \<Rightarrow> ustr \<Rightarrow> TransactionKind \<Rightarrow> bytes \<Rightarrow> TransactionRecord" where
  "with_payload i g r ts who k p = new_record i g r ts who k (Some p)"

definition without_payload ::
    "u64 \<Rightarrow> u64 option \<Rightarrow> u64 option \<Rightarrow> u64 \<Rightarrow> ustr \<Rightarrow> TransactionKind \<Rightarrow> TransactionRecord" where
  "without_payload i g r ts who k = new_record i g r ts who k None"

lemma new_record_sel [simp]:
  "tx_id (new_record i g r ts who k p) = i" "groupid (new_record i g r ts who k p) = g"
  "refid (new_record i g r ts who k p) = r" "timestamp_epoch_ms (new_record i g r ts who k p) = ts"
  "actor (new_record i g r ts who k p) = who" "tx_kind (new_record i g r ts who k p) = k"
  "raw_payload (new_record i g r ts who k p) = p" "payload_shadow (new_record i g r ts who k p) = None"
  by (simp_all add: new_record_def)

section \<open>Payload access\<close>

definition resolved_payload :: "TransactionRecord \<Rightarrow> bytes option" where
  "resolved_payload r =
     (case payload_shadow r of
        None \<Rightarrow> None
      | Some shadow \<Rightarrow> if is_resolved shadow then shadow_payload shadow else None)"

definition payload_logical :: "TransactionRecord \<Rightarrow> bytes option" where
  "payload_logical r =
     (case resolved_payload r of Some p \<Rightarrow> Some p | None \<Rightarrow> raw_payload r)"

text \<open>\<open>PartialEq\<close> compares the logical payload, not the stored one.\<close>

definition record_eq :: "TransactionRecord \<Rightarrow> TransactionRecord \<Rightarrow> bool" where
  "record_eq a b \<longleftrightarrow>
     tx_id a = tx_id b \<and> groupid a = groupid b \<and> refid a = refid b \<and>
     timestamp_epoch_ms a = timestamp_epoch_ms b \<and> actor a = actor b \<and> tx_kind a = tx_kind b \<and>
     payload_logical a = payload_logical b"

lemma record_eq_refl [simp]: "record_eq r r"
  by (simp add: record_eq_def)

lemma record_eq_sym: "record_eq a b \<Longrightarrow> record_eq b a"
  by (simp add: record_eq_def)

lemma record_eq_trans: "record_eq a b \<Longrightarrow> record_eq b c \<Longrightarrow> record_eq a c"
  by (simp add: record_eq_def)

lemma record_eq_id: "record_eq a b \<Longrightarrow> tx_id a = tx_id b"
  by (simp add: record_eq_def)

type_synonym resolver =
  "bytes option \<Rightarrow> TransactionPayloadContext \<Rightarrow> PayloadTransformError + bytes option"

text \<open>
  The payload is resolved once per context: the shadow remembers the context it was resolved for.
  An error of the resolver leaves the record unchanged.
\<close>

definition resolve_payload_with_context ::
    "resolver \<Rightarrow> TransactionPayloadContext \<Rightarrow> TransactionRecord \<Rightarrow>
     (PayloadTransformError + bytes option) \<times> TransactionRecord" where
  "resolve_payload_with_context resolver context r =
     (let cache_hit = (case payload_shadow r of
                         None \<Rightarrow> False
                       | Some shadow \<Rightarrow> is_resolved shadow \<and> shadow_context shadow = Some context)
      in if cache_hit then (Ok (Option.bind (payload_shadow r) shadow_payload), r)
         else case resolver (raw_payload r) context of
                Inl e \<Rightarrow> (Err e, r)
              | Inr resolved \<Rightarrow>
                  (Ok resolved,
                   r\<lparr>payload_shadow := Some \<lparr>shadow_payload = resolved,
                       shadow_context = Some context, is_resolved = True\<rparr>\<rparr>))"

definition set_payload ::
    "bytes option \<Rightarrow> TransactionPayloadContext option \<Rightarrow> TransactionRecord \<Rightarrow> TransactionRecord" where
  "set_payload p context r =
     (let r' = r\<lparr>raw_payload := p\<rparr>
      in case context of
           Some c \<Rightarrow>
             if p \<noteq> None \<and> at_rest_encryption_enabled c
             then r'\<lparr>payload_shadow := Some \<lparr>shadow_payload = None, shadow_context = Some c,
                        is_resolved = False\<rparr>\<rparr>
             else r'\<lparr>payload_shadow := None\<rparr>
         | None \<Rightarrow> r'\<lparr>payload_shadow := None\<rparr>)"

text \<open>\<open>payload_mut\<close>: the canonical payload becomes the resolved one, the shadow is dropped.\<close>

definition payload_mut :: "TransactionRecord \<Rightarrow> TransactionRecord" where
  "payload_mut r =
     (let r' = (case payload_shadow r of
                  Some shadow \<Rightarrow>
                    if is_resolved shadow \<and> shadow_payload shadow \<noteq> None
                    then r\<lparr>raw_payload := shadow_payload shadow\<rparr> else r
                | None \<Rightarrow> r)
      in r'\<lparr>payload_shadow := None\<rparr>)"

definition clear_payload :: "TransactionRecord \<Rightarrow> TransactionRecord" where
  "clear_payload r = r\<lparr>raw_payload := None, payload_shadow := None\<rparr>"

lemma payload_logical_set [simp]: "payload_logical (set_payload p c r) = p"
  by (auto simp: set_payload_def payload_logical_def resolved_payload_def Let_def
      split: option.splits)

lemma set_payload_sel [simp]:
  "tx_id (set_payload p c r) = tx_id r" "groupid (set_payload p c r) = groupid r"
  "refid (set_payload p c r) = refid r" "tx_kind (set_payload p c r) = tx_kind r"
  "timestamp_epoch_ms (set_payload p c r) = timestamp_epoch_ms r"
  "actor (set_payload p c r) = actor r" "raw_payload (set_payload p c r) = p"
  by (auto simp: set_payload_def Let_def split: option.splits)

text \<open>
  Preparing a payload for mutation keeps what a reader sees: the record \<open>payload_mut\<close> leaves
  behind has the same logical payload as before, now stored raw and with no shadow, so it compares
  equal to the original record.
\<close>

theorem payload_mut_logical:
  "record_eq (payload_mut r) r \<and> raw_payload (payload_mut r) = payload_logical r \<and>
   payload_shadow (payload_mut r) = None"
  by (auto simp: payload_mut_def payload_logical_def resolved_payload_def record_eq_def Let_def
      split: option.splits)

section \<open>Transform chains\<close>

type_synonym transform =
  "bytes \<Rightarrow> TransactionPayloadContext \<Rightarrow> PayloadTransformError + bytes option"

text \<open>A transform that returns \<open>None\<close> leaves the bytes as they are; the first error ends the chain.\<close>

fun run_transforms ::
    "transform list \<Rightarrow> bytes \<Rightarrow> TransactionPayloadContext \<Rightarrow> PayloadTransformError + bytes" where
  "run_transforms [] current context = Ok current"
| "run_transforms (t # ts) current context =
     try_bind (t current context)
       (\<lambda>transformed. run_transforms ts
          (case transformed of Some p \<Rightarrow> p | None \<Rightarrow> current) context)"

definition chained_resolve_payload :: "transform list \<Rightarrow> resolver" where
  "chained_resolve_payload ts raw context =
     (case raw of
        None \<Rightarrow> Ok None
      | Some p \<Rightarrow> try_bind (run_transforms ts p context) (\<lambda>out. Ok (Some out)))"

text \<open>The writer runs the same loop over transforms that also see the record.\<close>

type_synonym write_transform = "TransactionRecord \<Rightarrow> transform"

definition write_payload_with_context ::
    "write_transform list \<Rightarrow> TransactionRecord \<Rightarrow> resolver" where
  "write_payload_with_context ts r = chained_resolve_payload (map (\<lambda>t. t r) ts)"

definition plain_resolve_payload :: resolver where
  "plain_resolve_payload raw context = Ok raw"

lemma run_transforms_append:
  "run_transforms (xs @ ys) p c = try_bind (run_transforms xs p c) (\<lambda>q. run_transforms ys q c)"
proof (induction xs arbitrary: p)
  case Nil
  then show ?case by simp
next
  case (Cons t xs)
  then show ?case by (cases "t p c") auto
qed

section \<open>Wire frames\<close>

datatype WalFrameError =
    DeserializeFrame | SerializeFrame | InvalidFrameEncoding | InvalidFrameUtf8 | InvalidFrameHex

type_synonym wal_frame = "ustr \<times> TransactionRecord"

text \<open>
  \<open>ser\<close> and \<open>de\<close> are bincode on \<open>(String, TransactionRecord)\<close>; serde skips the shadow of a
  record, so what comes back has none.
\<close>

definition frame_codec_ok :: "(wal_frame \<Rightarrow> bytes option) \<Rightarrow> (bytes \<Rightarrow> wal_frame option) \<Rightarrow> bool" where
  "frame_codec_ok ser de \<longleftrightarrow>
     (\<forall>s r bs. ser (s, r) = Some bs \<longrightarrow> de bs = Some (s, r\<lparr>payload_shadow := None\<rparr>))"

definition encode_wal_frame ::
    "(wal_frame \<Rightarrow> bytes option) \<Rightarrow> wal_frame \<Rightarrow> WalFrameError + ustr" where
  "encode_wal_frame ser frame =
     (case ser frame of None \<Rightarrow> Err SerializeFrame | Some bs \<Rightarrow> Ok (b64_encode_bytes bs))"

definition decode_wal_frame_bytes ::
    "(bytes \<Rightarrow> wal_frame option) \<Rightarrow> bytes \<Rightarrow> WalFrameError + wal_frame" where
  "decode_wal_frame_bytes de bs =
     (case de bs of None \<Rightarrow> Err DeserializeFrame | Some frame \<Rightarrow> Ok frame)"

text \<open>
  \<open>u8::from_str_radix(chunk, 16)\<close> on a chunk of two bytes: hexadecimal digits of either case, and
  a leading plus sign is accepted.
\<close>

definition hex_digit :: "byte \<Rightarrow> byte option" where
  "hex_digit c =
     (if 48 \<le> c \<and> c \<le> 57 then Some (c - 48)
      else if 97 \<le> c \<and> c \<le> 102 then Some (c - 87)
      else if 65 \<le> c \<and> c \<le> 70 then Some (c - 55)
      else None)"

definition from_str_radix_16 :: "byte \<Rightarrow> byte \<Rightarrow> byte option" where
  "from_str_radix_16 a b =
     (if a = 43 then hex_digit b
      else case (hex_digit a, hex_digit b) of
             (Some x, Some y) \<Rightarrow> Some (16 * x + y)
           | _ \<Rightarrow> None)"

text \<open>Two bytes are UTF-8 when both are ASCII or they form one two-byte character.\<close>

definition utf8_pair :: "byte \<Rightarrow> byte \<Rightarrow> bool" where
  "utf8_pair a b \<longleftrightarrow> a < 128 \<and> b < 128 \<or> 194 \<le> a \<and> a \<le> 223 \<and> 128 \<le> b \<and> b \<le> 191"

fun decode_hex_pairs :: "bytes \<Rightarrow> WalFrameError + bytes" where
  "decode_hex_pairs (a # b # rest) =
     (if \<not> utf8_pair a b then Err InvalidFrameUtf8
      else case from_str_radix_16 a b of
             None \<Rightarrow> Err InvalidFrameHex
           | Some v \<Rightarrow> try_bind (decode_hex_pairs rest) (\<lambda>out. Ok (v # out)))"
| "decode_hex_pairs _ = Ok []"

definition decode_wal_frame ::
    "(bytes \<Rightarrow> wal_frame option) \<Rightarrow> ustr \<Rightarrow> WalFrameError + wal_frame" where
  "decode_wal_frame de encoded =
     (let base64_bytes = b64_decode encoded;
          legacy =
            (if odd (str_len encoded) then Err InvalidFrameEncoding
             else try_bind (decode_hex_pairs (as_bytes encoded)) (decode_wal_frame_bytes de))
      in if base64_bytes \<noteq> []
         then case decode_wal_frame_bytes de base64_bytes of
                Inr frame \<Rightarrow> Ok frame
              | Inl e \<Rightarrow> legacy
         else legacy)"

text \<open>
  A frame sent to a peer is read back: decoding the text of \<open>encode_wal_frame\<close> gives the
  stream identifier and the record, whose payload cache is not sent. The serializer is only
  assumed to be inverted by the deserializer.
\<close>

theorem decode_encode_wal_frame:
  assumes "frame_codec_ok ser de" and "encode_wal_frame ser (s, r) = Ok text_frame"
  shows "decode_wal_frame de text_frame = Ok (s, r\<lparr>payload_shadow := None\<rparr>)"
proof -
  from assms(2) obtain bs where bs: "ser (s, r) = Some bs" and t: "text_frame = b64_encode_bytes bs"
    by (auto simp: encode_wal_frame_def split: option.splits)
  from assms(1) bs have de: "de bs = Some (s, r\<lparr>payload_shadow := None\<rparr>)"
    by (simp add: frame_codec_ok_def)
  show ?thesis
  proof (cases "bs = []")
    case True
    with t de show ?thesis
      by (simp add: decode_wal_frame_def b64_decode_def b64_decode_impl_def str_len_def as_bytes_def
          decode_wal_frame_bytes_def)
  next
    case False
    with t de show ?thesis
      by (simp add: decode_wal_frame_def b64_roundtrip decode_wal_frame_bytes_def)
  qed
qed

theorem decode_encode_wal_frame_witness:
  "decode_wal_frame
     (\<lambda>bs. if bs = [104, 105] then Some (lit ''s'', new_record 7 None None 0 (lit ''a'') Insert None) else None)
     (lit ''aGk'') = Ok (lit ''s'', new_record 7 None None 0 (lit ''a'') Insert None)"
proof -
  let ?r = "new_record 7 None None 0 (lit ''a'') Insert None"
  let ?ser = "\<lambda>(s, r :: TransactionRecord). if s = lit ''s'' \<and> r\<lparr>payload_shadow := None\<rparr> = ?r
                then Some [104, 105] else None"
  have "b64_encode_bytes [104, 105] = lit ''aGk''" by code_simp
  then have "encode_wal_frame ?ser (lit ''s'', ?r) = Ok (lit ''aGk'')"
    by (simp add: encode_wal_frame_def new_record_def)
  from decode_encode_wal_frame [OF _ this, of
      "\<lambda>bs. if bs = [104, 105] then Some (lit ''s'', ?r) else None"]
  show ?thesis by (simp add: frame_codec_ok_def new_record_def)
qed

end
