(* ===== verification/Envelope.thy ===== *)
theory Envelope
  imports TxRecord
begin

text \<open>
  \<open>serverlib/src/engine/database/row_payload.rs\<close>, first half: the envelope of a row payload that
  is encrypted at rest, its recognition among plain payloads, and the transforms that encrypt,
  decrypt and pass it through. Bincode, AES-256-GCM, SHA-256 and the nonce source are parameters,
  the fields of \<open>crypto_env\<close>.
\<close>

section \<open>Envelopes\<close>

record EncryptedRowPayloadEnvelope =
  env_key_version :: u32
  env_nonce :: bytes
  env_auth_tag :: bytes
  env_ciphertext :: bytes

record LegacyEncryptedRowPayloadEnvelope =
  leg_magic :: bytes
  leg_version :: u8
  leg_key_version :: u32
  leg_nonce :: bytes
  leg_auth_tag :: bytes
  leg_ciphertext :: bytes

definition ENCRYPTED_ROW_PAYLOAD_MAGIC :: bytes where
  "ENCRYPTED_ROW_PAYLOAD_MAGIC = map of_char ''dbrw''"

definition ENCRYPTED_ROW_PAYLOAD_ENVELOPE_VERSION :: u8 where
  "ENCRYPTED_ROW_PAYLOAD_ENVELOPE_VERSION = 1"

definition NONCE_SIZE :: nat where "NONCE_SIZE = 12"
definition AUTH_TAG_SIZE :: nat where "AUTH_TAG_SIZE = 16"

text \<open>
  Third-party code: \<open>ser_envelope\<close>, \<open>de_envelope\<close>, \<open>de_legacy_envelope\<close> are bincode on the two
  structs, \<open>sha256\<close> and \<open>aes_seal key nonce aad plaintext\<close>, \<open>aes_open key nonce aad ciphertext tag\<close>
  are openssl's, \<open>draw_nonce r\<close> is what the random generator delivers when record \<open>r\<close> is encrypted (one
  nonce for each record: a record that is encrypted again, when a file is rewritten, gets the same one
  here, and no statement depends on that).
\<close>

record crypto_env =
  ser_envelope :: "EncryptedRowPayloadEnvelope \<Rightarrow> bytes option"
  de_envelope :: "bytes \<Rightarrow> EncryptedRowPayloadEnvelope option"
  de_legacy_envelope :: "bytes \<Rightarrow> LegacyEncryptedRowPayloadEnvelope option"
  sha256 :: "bytes \<Rightarrow> bytes"
  aes_seal :: "bytes \<Rightarrow> bytes \<Rightarrow> bytes \<Rightarrow> bytes \<Rightarrow> (bytes \<times> bytes) option"
  aes_open :: "bytes \<Rightarrow> bytes \<Rightarrow> bytes \<Rightarrow> bytes \<Rightarrow> bytes \<Rightarrow> bytes option"
  draw_nonce :: "TransactionRecord \<Rightarrow> bytes option"

definition looks_like_valid_encrypted_payload_envelope :: "EncryptedRowPayloadEnvelope \<Rightarrow> bool" where
  "looks_like_valid_encrypted_payload_envelope e \<longleftrightarrow>
     env_key_version e > 0 \<and> length (env_nonce e) = NONCE_SIZE \<and>
     length (env_auth_tag e) = AUTH_TAG_SIZE \<and> env_ciphertext e \<noteq> []"

text \<open>
  The only error is an unsupported version of a legacy envelope, whose message names the version;
  it is modelled by that version.
\<close>

definition decode_encrypted_row_payload_envelope ::
    "('a crypto_env_scheme) \<Rightarrow> bytes \<Rightarrow> u8 + EncryptedRowPayloadEnvelope option" where
  "decode_encrypted_row_payload_envelope E p =
     (let legacy =
        (case de_legacy_envelope E p of
           None \<Rightarrow> Ok None
         | Some l \<Rightarrow>
             if leg_magic l \<noteq> ENCRYPTED_ROW_PAYLOAD_MAGIC then Ok None
             else if leg_version l \<noteq> ENCRYPTED_ROW_PAYLOAD_ENVELOPE_VERSION then Err (leg_version l)
             else let e = \<lparr>env_key_version = leg_key_version l, env_nonce = leg_nonce l,
                           env_auth_tag = leg_auth_tag l, env_ciphertext = leg_ciphertext l\<rparr>
                  in if looks_like_valid_encrypted_payload_envelope e then Ok (Some e) else Ok None)
      in case de_envelope E p of
           Some e \<Rightarrow> if looks_like_valid_encrypted_payload_envelope e then Ok (Some e) else legacy
         | None \<Rightarrow> legacy)"

definition looks_like_encrypted_row_payload :: "('a crypto_env_scheme) \<Rightarrow> bytes \<Rightarrow> bool" where
  "looks_like_encrypted_row_payload E p \<longleftrightarrow>
     (case decode_encrypted_row_payload_envelope E p of Inr (Some _) \<Rightarrow> True | _ \<Rightarrow> False)"

definition encode_encrypted_row_payload_envelope ::
    "('a crypto_env_scheme) \<Rightarrow> u32 \<Rightarrow> bytes \<Rightarrow> bytes \<Rightarrow> bytes \<Rightarrow> bytes option" where
  "encode_encrypted_row_payload_envelope E key_version nonce auth_tag ciphertext =
     ser_envelope E \<lparr>env_key_version = key_version, env_nonce = nonce, env_auth_tag = auth_tag,
                     env_ciphertext = ciphertext\<rparr>"

section \<open>Transforms\<close>

datatype EncryptedRowPayloadTransformPolicy = PreserveOpaque | RejectEncrypted

definition encrypted_row_payload_transform ::
    "EncryptedRowPayloadTransformPolicy \<Rightarrow> ('a crypto_env_scheme) \<Rightarrow> transform" where
  "encrypted_row_payload_transform policy E p c =
     (case decode_encrypted_row_payload_envelope E p of
        Inr (Some _) \<Rightarrow> (case policy of PreserveOpaque \<Rightarrow> Ok None | RejectEncrypted \<Rightarrow> Err DecryptFailed)
      | Inr None \<Rightarrow> Ok None
      | Inl _ \<Rightarrow> Err UnsupportedFormat)"

definition encrypted_row_payload_write_transform ::
    "EncryptedRowPayloadTransformPolicy \<Rightarrow> ('a crypto_env_scheme) \<Rightarrow> write_transform" where
  "encrypted_row_payload_write_transform policy E r p c =
     (case decode_encrypted_row_payload_envelope E p of
        Inr (Some _) \<Rightarrow>
          (case policy of PreserveOpaque \<Rightarrow> Ok None | RejectEncrypted \<Rightarrow> Err InvalidEncryptedPayload)
      | Inr None \<Rightarrow> Ok None
      | Inl _ \<Rightarrow> Err UnsupportedFormat)"

definition resolve_key_bytes ::
    "('a crypto_env_scheme) \<Rightarrow> TransactionPayloadContext \<Rightarrow> PayloadTransformError + (bytes \<times> u32)" where
  "resolve_key_bytes E c =
     (case encryption_key_ref c of
        None \<Rightarrow> Err EncryptionNotConfigured
      | Some key_ref \<Rightarrow>
          (let key_version = (case encryption_key_version c of None \<Rightarrow> 0 | Some v \<Rightarrow> v)
           in if key_version = 0 then Err EncryptionNotConfigured
              else Ok (sha256 E (as_bytes (lit ''distdb-at-rest|'' @ key_ref @ lit ''|'' @
                                           decimal (unat key_version))), key_version)))"

definition opt_str :: "ustr option \<Rightarrow> ustr" where
  "opt_str s = (case s of None \<Rightarrow> [] | Some v \<Rightarrow> v)"

definition associated_data :: "TransactionPayloadContext \<Rightarrow> bytes" where
  "associated_data c =
     as_bytes (lit ''db='' @ opt_str (ctx_database_id c) @ lit '';table='' @
               opt_str (ctx_table_id c) @ lit '';stream='' @ opt_str (ctx_stream_id c))"

definition encrypt_row_payload ::
    "('a crypto_env_scheme) \<Rightarrow> TransactionRecord \<Rightarrow> TransactionPayloadContext \<Rightarrow> bytes \<Rightarrow>
     PayloadTransformError + bytes" where
  "encrypt_row_payload E r c plaintext =
     try_bind (resolve_key_bytes E c)
       (\<lambda>(key_bytes, key_version).
          case draw_nonce E r of
            None \<Rightarrow> Err (InternalTransformError ''failed to generate nonce'')
          | Some nonce \<Rightarrow>
              (case aes_seal E key_bytes nonce (associated_data c) plaintext of
                 None \<Rightarrow> Err (InternalTransformError ''payload encrypt failed'')
               | Some (ciphertext, auth_tag) \<Rightarrow>
                   (case encode_encrypted_row_payload_envelope E key_version nonce auth_tag ciphertext of
                      None \<Rightarrow> Err (InternalTransformError ''envelope serialization failed'')
                    | Some bs \<Rightarrow> Ok bs)))"

definition decrypt_row_payload ::
    "('a crypto_env_scheme) \<Rightarrow> TransactionPayloadContext \<Rightarrow> EncryptedRowPayloadEnvelope \<Rightarrow>
     PayloadTransformError + bytes" where
  "decrypt_row_payload E c e =
     try_bind (resolve_key_bytes E c)
       (\<lambda>(key_bytes, key_version).
          if env_key_version e \<noteq> key_version then Err DecryptFailed
          else case aes_open E key_bytes (env_nonce e) (associated_data c) (env_ciphertext e)
                      (env_auth_tag e) of
                 None \<Rightarrow> Err DecryptFailed
               | Some plaintext \<Rightarrow> Ok plaintext)"

definition row_payload_encryption_write_transform :: "('a crypto_env_scheme) \<Rightarrow> write_transform" where
  "row_payload_encryption_write_transform E r p c =
     (if tx_kind r \<notin> {Insert, Update} then Ok None
      else if looks_like_encrypted_row_payload E p then Ok None
      else case encryption_key_ref c of
             None \<Rightarrow> Ok None
           | Some _ \<Rightarrow>
               if (case encryption_key_version c of None \<Rightarrow> 0 | Some v \<Rightarrow> v) = 0
               then Err EncryptionNotConfigured
               else try_bind (encrypt_row_payload E r c p) (\<lambda>out. Ok (Some out)))"

definition row_payload_decryption_transform :: "('a crypto_env_scheme) \<Rightarrow> transform" where
  "row_payload_decryption_transform E p c =
     (case encryption_key_ref c of
        None \<Rightarrow> Ok None
      | Some key_ref \<Rightarrow>
          if (case encryption_key_version c of None \<Rightarrow> 0 | Some v \<Rightarrow> v) = 0 \<or> key_ref = []
          then Err EncryptionNotConfigured
          else case decode_encrypted_row_payload_envelope E p of
                 Inr (Some e) \<Rightarrow> try_bind (decrypt_row_payload E c e) (\<lambda>out. Ok (Some out))
               | Inr None \<Rightarrow> Ok None
               | Inl _ \<Rightarrow> Err UnsupportedFormat)"

section \<open>Encryption round trip\<close>

text \<open>
  \<open>common/src/helpers/bincode_compat.rs\<close>: \<open>deserialize\<close> reads at most this many bytes, \<open>serialize\<close> has no
  limit.
\<close>

definition MAX_DECODE_BYTES :: nat where
  "MAX_DECODE_BYTES = 256 * 1024 * 1024"

text \<open>
  What the code relies on in the parameters: bincode inverts itself on envelopes within its decode
  limit, a nonce has the size that was asked for, and opening a sealed message under the same key, nonce and associated
  data gives the message, with a tag of the fixed size and a ciphertext as long as the message.
\<close>

definition crypto_env_ok :: "('a crypto_env_scheme) \<Rightarrow> bool" where
  "crypto_env_ok E \<longleftrightarrow>
     (\<forall>e bs. ser_envelope E e = Some bs \<and> length bs \<le> MAX_DECODE_BYTES \<longrightarrow> de_envelope E bs = Some e) \<and>
     (\<forall>r n. draw_nonce E r = Some n \<longrightarrow> length n = NONCE_SIZE) \<and>
     (\<forall>k n a p ct tag. aes_seal E k n a p = Some (ct, tag) \<longrightarrow>
        aes_open E k n a ct tag = Some p \<and> length ct = length p \<and> length tag = AUTH_TAG_SIZE)"

lemma encrypt_row_payload_envelope:
  assumes "crypto_env_ok E" and "p \<noteq> []" and "encrypt_row_payload E r c p = Ok out"
    and "length out \<le> MAX_DECODE_BYTES"
  shows "\<exists>e. decode_encrypted_row_payload_envelope E out = Ok (Some e) \<and> decrypt_row_payload E c e = Ok p"
proof -
  obtain key v nonce ct tag where
        key: "resolve_key_bytes E c = Ok (key, v)" and n: "draw_nonce E r = Some nonce"
    and seal: "aes_seal E key nonce (associated_data c) p = Some (ct, tag)"
    and out: "ser_envelope E \<lparr>env_key_version = v, env_nonce = nonce, env_auth_tag = tag,
                env_ciphertext = ct\<rparr> = Some out"
  proof (cases "resolve_key_bytes E c")
    case (Inr kv)
    with assms(3) that show ?thesis
      by (cases kv; cases "draw_nonce E r"; simp add: encrypt_row_payload_def
          encode_encrypted_row_payload_envelope_def split: option.splits)
        (auto split: option.splits prod.splits)
  qed (use assms(3) in \<open>simp add: encrypt_row_payload_def\<close>)
  let ?e = "\<lparr>env_key_version = v, env_nonce = nonce, env_auth_tag = tag, env_ciphertext = ct\<rparr>"
  have v: "v \<noteq> 0"
    using key by (auto simp: resolve_key_bytes_def Let_def split: option.splits if_splits)
  have de: "de_envelope E out = Some ?e" and open_p: "aes_open E key nonce (associated_data c) ct tag = Some p"
    and len: "length nonce = NONCE_SIZE" "length ct = length p" "length tag = AUTH_TAG_SIZE"
    using assms(1,4) n seal out unfolding crypto_env_ok_def by blast+
  have "ct \<noteq> []" using len(2) assms(2) by (metis length_0_conv)
  with len v have "looks_like_valid_encrypted_payload_envelope ?e"
    by (simp add: looks_like_valid_encrypted_payload_envelope_def word_gt_0)
  with de have "decode_encrypted_row_payload_envelope E out = Ok (Some ?e)"
    by (simp add: decode_encrypted_row_payload_envelope_def Let_def)
  moreover have "decrypt_row_payload E c ?e = Ok p"
    using key open_p by (simp add: decrypt_row_payload_def)
  ultimately show ?thesis by blast
qed

end
