(* ===== verification/WalFrame.thy ===== *)
theory WalFrame
  imports Envelope "HOL-Library.Sublist"
begin

text \<open>
  \<open>serverlib/src/engine/wal.rs\<close>, the storage format: the payload pipelines of reads and writes
  (encryption, opaque envelopes, zlib compression), length-prefixed record frames, and the two
  replay loops, over a byte slice and over a buffered reader. Bincode on records, zlib, MD5 and
  the two settings of the file format are parameters, the further fields of \<open>wal_env\<close>.
\<close>

record wal_env = crypto_env +
  ser_record :: "TransactionRecord \<Rightarrow> bytes option"
  de_record :: "bytes \<Rightarrow> TransactionRecord option"
  zlib_encode :: "bytes \<Rightarrow> string + bytes"
  zlib_decode :: "bytes \<Rightarrow> bytes option"
  wal_max_frame_size_bytes :: nat
  wal_sync_on_append :: bool
  md5_hex :: "bytes \<Rightarrow> ustr"

section \<open>Payload pipelines\<close>

definition looks_like_zlib_payload :: "bytes \<Rightarrow> bool" where
  "looks_like_zlib_payload p \<longleftrightarrow>
     \<not> (length p < 2 \<or> p ! 0 \<noteq> 0x78) \<and>
     (push_bit 8 (ucast (p ! 0)) OR ucast (p ! 1) :: u16) mod 31 = 0"

definition maybe_decode_compressed_payload_bytes :: "wal_env \<Rightarrow> bytes \<Rightarrow> bytes option result" where
  "maybe_decode_compressed_payload_bytes E p =
     (if looks_like_zlib_payload p
      then case zlib_decode E p of
             Some decoded \<Rightarrow> Ok (Some decoded)
           | None \<Rightarrow> Err ''failed to decompress WAL payload''
      else Ok None)"

definition wal_compression_payload_transform :: "wal_env \<Rightarrow> transform" where
  "wal_compression_payload_transform E p c =
     (case maybe_decode_compressed_payload_bytes E p of
        Inr decoded \<Rightarrow> Ok decoded
      | Inl m \<Rightarrow>
          if m = ''failed to decompress WAL payload'' then Err InvalidCompressedPayload
          else if m = ''decompressed WAL payload length mismatch'' then Err IntegrityCheckFailed
          else Err (InternalTransformError m))"

definition should_skip_payload_compression :: "wal_env \<Rightarrow> TransactionRecord \<Rightarrow> bytes \<Rightarrow> bool" where
  "should_skip_payload_compression E r p \<longleftrightarrow>
     tx_kind r \<in> {Insert, Update, Delete} \<and> looks_like_encrypted_row_payload E p"

definition wal_compression_payload_write_transform :: "wal_env \<Rightarrow> write_transform" where
  "wal_compression_payload_write_transform E r p c =
     (if should_skip_payload_compression E r p then Ok None
      else case zlib_encode E p of
             Inl m \<Rightarrow> Err (InternalTransformError m)
           | Inr compressed \<Rightarrow> Ok (Some compressed))"

datatype cow = Borrowed bytes | Owned bytes

fun cow_bytes :: "cow \<Rightarrow> bytes" where
  "cow_bytes (Borrowed p) = p"
| "cow_bytes (Owned p) = p"

definition resolve_wal_storage_payload ::
    "wal_env \<Rightarrow> bytes option \<Rightarrow> TransactionPayloadContext \<Rightarrow> PayloadTransformError + cow option" where
  "resolve_wal_storage_payload E raw c =
     (case raw of
        None \<Rightarrow> Ok None
      | Some p \<Rightarrow>
          if c = default_context \<and> \<not> looks_like_zlib_payload p then Ok (Some (Borrowed p))
          else try_bind
                 (chained_resolve_payload
                    [wal_compression_payload_transform E, row_payload_decryption_transform E,
                     encrypted_row_payload_transform PreserveOpaque E] (Some p) c)
                 (\<lambda>resolved. Ok (map_option (\<lambda>q. if q = p then Borrowed p else Owned q) resolved)))"

definition write_wal_storage_payload ::
    "wal_env \<Rightarrow> TransactionRecord \<Rightarrow> bytes option \<Rightarrow> TransactionPayloadContext \<Rightarrow>
     PayloadTransformError + cow option" where
  "write_wal_storage_payload E r raw c =
     (case raw of
        None \<Rightarrow> Ok None
      | Some p \<Rightarrow>
          try_bind
            (write_payload_with_context
               [row_payload_encryption_write_transform E,
                encrypted_row_payload_write_transform PreserveOpaque E,
                wal_compression_payload_write_transform E] r (Some p) c)
            (\<lambda>out. Ok (map_option (\<lambda>q. if q = p then Borrowed p else Owned q) out)))"

fun into_owned_payload :: "cow option \<Rightarrow> bytes option" where
  "into_owned_payload (Some (Owned p)) = Some p"
| "into_owned_payload _ = None"

definition record_for_storage_with_payload ::
    "TransactionRecord \<Rightarrow> bytes option \<Rightarrow> TransactionRecord" where
  "record_for_storage_with_payload r p =
     new_record (tx_id r) (groupid r) (refid r) (timestamp_epoch_ms r) (actor r) (tx_kind r) p"

fun map_payload_transform_error :: "PayloadTransformError \<Rightarrow> err" where
  "map_payload_transform_error InvalidCompressedPayload = ''failed to decompress WAL payload''"
| "map_payload_transform_error IntegrityCheckFailed = ''decompressed WAL payload length mismatch''"
| "map_payload_transform_error UnsupportedFormat = ''unsupported WAL payload format''"
| "map_payload_transform_error _ = ''failed to deserialize WAL record''"

fun map_payload_write_transform_error :: "PayloadTransformError \<Rightarrow> err" where
  "map_payload_write_transform_error (InternalTransformError m) =
     (if m = ''failed to compress WAL payload'' then ''failed to compress WAL payload''
      else if m = ''failed to finish WAL payload compression''
      then ''failed to finish WAL payload compression''
      else ''failed to serialize WAL record'')"
| "map_payload_write_transform_error UnsupportedFormat = ''unsupported WAL payload format''"
| "map_payload_write_transform_error IntegrityCheckFailed =
     ''decompressed WAL payload length mismatch''"
| "map_payload_write_transform_error InvalidCompressedPayload = ''failed to compress WAL payload''"
| "map_payload_write_transform_error _ = ''failed to serialize WAL record''"

fun map_err :: "('e \<Rightarrow> 'f) \<Rightarrow> 'e + 'a \<Rightarrow> 'f + 'a" where
  "map_err f (Inl e) = Inl (f e)"
| "map_err f (Inr v) = Inr v"

lemma map_err_Ok_iff [simp]: "map_err f r = Ok v \<longleftrightarrow> r = Ok v"
  by (cases r) auto

fun ok_or :: "'e \<Rightarrow> 'a option \<Rightarrow> 'e + 'a" where
  "ok_or e None = Inl e"
| "ok_or e (Some v) = Inr v"

lemma ok_or_Ok_iff [simp]: "ok_or e r = Ok v \<longleftrightarrow> r = Some v"
  by (cases r) auto

section \<open>Records in storage\<close>

definition encode_record_for_storage_with_context ::
    "wal_env \<Rightarrow> TransactionPayloadContext \<Rightarrow> TransactionRecord \<Rightarrow> bytes result" where
  "encode_record_for_storage_with_context E c r =
     try_bind (map_err map_payload_write_transform_error
                 (write_wal_storage_payload E r (raw_payload r) c))
       (\<lambda>stored. case into_owned_payload stored of
          Some p \<Rightarrow>
            ok_or ''failed to serialize WAL record''
              (ser_record E (record_for_storage_with_payload r (Some p)))
        | None \<Rightarrow> ok_or ''failed to serialize WAL record'' (ser_record E r))"

definition decode_record_from_storage_with_context ::
    "wal_env \<Rightarrow> TransactionPayloadContext \<Rightarrow> bytes \<Rightarrow> TransactionRecord result" where
  "decode_record_from_storage_with_context E c encoded =
     try_bind (ok_or ''failed to deserialize WAL record'' (de_record E encoded))
       (\<lambda>r. try_bind (map_err map_payload_transform_error
                        (resolve_wal_storage_payload E (raw_payload r) c))
          (\<lambda>resolved. case into_owned_payload resolved of
             Some p \<Rightarrow> Ok (set_payload (Some p) (Some c) r)
           | None \<Rightarrow> Ok r))"

definition frame_record_with_context ::
    "wal_env \<Rightarrow> TransactionPayloadContext \<Rightarrow> TransactionRecord \<Rightarrow> bytes result" where
  "frame_record_with_context E c r =
     try_bind (encode_record_for_storage_with_context E c r)
       (\<lambda>encoded. Ok (to_le 8 (length encoded) @ encoded))"

section \<open>Replay loops\<close>

text \<open>
  Over a byte slice, by position. The branches that stop on an overflowing end and on a truncated
  frame are one: an end beyond \<open>2^64\<close> lies beyond every slice. On the 64-bit targets of the server
  no length exceeds \<open>usize::MAX\<close>.
\<close>

function decode_records_from_bytes ::
    "wal_env \<Rightarrow> TransactionPayloadContext \<Rightarrow> bytes \<Rightarrow> nat \<Rightarrow> TransactionRecord list" where
  "decode_records_from_bytes E c bs pos =
     (if pos + 8 \<le> length bs
      then let len = from_le (take 8 (drop pos bs)); body = pos + 8; fin = body + len
           in if wal_max_frame_size_bytes E < len then []
              else if length bs < fin then []
              else case decode_record_from_storage_with_context E c (take len (drop body bs)) of
                     Inr r \<Rightarrow> r # decode_records_from_bytes E c bs fin
                   | Inl e \<Rightarrow> []
      else [])"
  by pat_completeness auto
termination
  by (relation "measure (\<lambda>(E, c, bs, pos). length bs - pos)") auto

declare decode_records_from_bytes.simps [simp del]

text \<open>Over a reader, by the bytes still to come before the end of the file or a read error.\<close>

function decode_records_from_reader ::
    "wal_env \<Rightarrow> TransactionPayloadContext \<Rightarrow> bytes \<Rightarrow> TransactionRecord list" where
  "decode_records_from_reader E c rest =
     (if length rest < 8 then []
      else let len = from_le (take 8 rest); body = drop 8 rest
           in if wal_max_frame_size_bytes E < len then []
              else if length body < len then []
              else case decode_record_from_storage_with_context E c (take len body) of
                     Inr r \<Rightarrow> r # decode_records_from_reader E c (drop len body)
                   | Inl e \<Rightarrow> [])"
  by pat_completeness auto
termination
  by (relation "measure (\<lambda>(E, c, rest). length rest)") auto

declare decode_records_from_reader.simps [simp del]

definition load_records_from_stream :: "wal_env \<Rightarrow> bytes \<Rightarrow> TransactionRecord list" where
  "load_records_from_stream E bs =
     (case verify_header Data bs of
        Inl e \<Rightarrow> []
      | Inr v \<Rightarrow> decode_records_from_bytes E default_context bs HEADER_SIZE)"

text \<open>A missing file is \<open>None\<close>; the header is read first, then the frames.\<close>

definition load_records_from_path :: "wal_env \<Rightarrow> bytes option \<Rightarrow> TransactionRecord list" where
  "load_records_from_path E file =
     (case file of
        None \<Rightarrow> []
      | Some bs \<Rightarrow>
          if length bs < HEADER_SIZE then []
          else case verify_header Data (take HEADER_SIZE bs) of
                 Inl e \<Rightarrow> []
               | Inr v \<Rightarrow> decode_records_from_reader E default_context (drop HEADER_SIZE bs))"

section \<open>The two loops agree\<close>

lemma decode_bytes_eq_reader:
  "decode_records_from_bytes E c bs pos = decode_records_from_reader E c (drop pos bs)"
proof (induction E c bs pos rule: decode_records_from_bytes.induct)
  case (1 E c bs pos)
  let ?len = "from_le (take 8 (drop pos bs))"
  have "decode_records_from_bytes E c bs pos =
     (if pos + 8 \<le> length bs
      then if wal_max_frame_size_bytes E < ?len then []
           else if length bs < pos + 8 + ?len then []
           else case decode_record_from_storage_with_context E c (take ?len (drop (pos + 8) bs)) of
                  Inr r \<Rightarrow> r # decode_records_from_reader E c (drop (pos + 8 + ?len) bs)
                | Inl e \<Rightarrow> []
      else [])"
    using "1.IH" by (subst decode_records_from_bytes.simps) (auto simp: Let_def split: sum.splits)
  also have "\<dots> = decode_records_from_reader E c (drop pos bs)"
    by (subst (2) decode_records_from_reader.simps)
      (auto simp: Let_def add.commute add.left_commute not_less not_le split: sum.splits)
  finally show ?case .
qed

lemma verify_header_take: "verify_header k (take HEADER_SIZE bs) = verify_header k bs"
  by (auto simp: verify_header_def HEADER_SIZE_def min_def)

lemma load_path_eq_stream: "load_records_from_path E (Some bs) = load_records_from_stream E bs"
  by (auto simp: load_records_from_path_def load_records_from_stream_def verify_header_take
      decode_bytes_eq_reader split: sum.splits) (auto simp: verify_header_def)

text \<open>
  The two replay implementations agree: loading a write-ahead log through the buffered reader
  gives the same records as decoding the whole file as a byte slice, for every file content, also
  truncated or corrupt ones.
\<close>

theorem load_records_from_path_eq_stream:
  "load_records_from_path E (Some bs) = load_records_from_stream E bs"
  by (rule load_path_eq_stream)

section \<open>Storage round trips\<close>

text \<open>
  What the code relies on in the parameters: bincode inverts itself on records within its decode
  limit, up to the shadow, which is not serialised, and inflating a deflated payload gives it back, where a zlib stream
  starts with its two header bytes.
\<close>

definition wal_env_ok :: "wal_env \<Rightarrow> bool" where
  "wal_env_ok E \<longleftrightarrow>
     (\<forall>r bs. ser_record E r = Some bs \<and> length bs \<le> MAX_DECODE_BYTES \<longrightarrow>
        de_record E bs = Some (r\<lparr>payload_shadow := None\<rparr>)) \<and>
     (\<forall>p z. zlib_encode E p = Inr z \<longrightarrow> zlib_decode E z = Some p \<and> looks_like_zlib_payload z)"

lemma de_ser_record [wal_simps]:
  "wal_env_ok E \<Longrightarrow> ser_record E r = Some bs \<Longrightarrow> length bs \<le> MAX_DECODE_BYTES \<Longrightarrow> de_record E bs = Some (r\<lparr>payload_shadow := None\<rparr>)"
  by (simp add: wal_env_ok_def)

lemma zlib_stream [wal_simps]:
  assumes "wal_env_ok E" and "zlib_encode E p = Inr z"
  shows "zlib_decode E z = Some p" and "looks_like_zlib_payload z"
  using assms by (auto simp: wal_env_ok_def)

lemma not_enabled_default [simp]: "\<not> at_rest_encryption_enabled default_context"
  by (simp add: at_rest_encryption_enabled_def default_context_def)

lemma key_ref_default [simp]: "encryption_key_ref default_context = None"
  by (simp add: default_context_def)

text \<open>Inflating what was deflated, then passing the opaque stage, gives the payload back.\<close>

lemma resolve_deflated:
  assumes "wal_env_ok E" and "zlib_encode E p = Inr z"
    and "\<And>v. decode_encrypted_row_payload_envelope E p \<noteq> Inl v"
  shows "resolve_wal_storage_payload E (Some z) default_context =
           Ok (Some (if p = z then Borrowed z else Owned p))"
  using assms(3) zlib_stream [OF assms(1,2)]
  by (cases "decode_encrypted_row_payload_envelope E p")
    (auto simp: resolve_wal_storage_payload_def chained_resolve_payload_def
      wal_compression_payload_transform_def maybe_decode_compressed_payload_bytes_def
      row_payload_decryption_transform_def encrypted_row_payload_transform_def split: option.splits)

lemma write_plain_payload:
  assumes plain: "row_payload_encryption_write_transform E r p c = Ok None"
    and w: "write_wal_storage_payload E r (Some p) c = Ok stored"
  shows "(\<forall>v. decode_encrypted_row_payload_envelope E p \<noteq> Inl v) \<and>
    (should_skip_payload_compression E r p \<and> stored = Some (Borrowed p) \<or>
     \<not> should_skip_payload_compression E r p \<and>
       (\<exists>z. zlib_encode E p = Inr z \<and> stored = Some (if z = p then Borrowed p else Owned z)))"
proof (cases "decode_encrypted_row_payload_envelope E p")
  case (Inl v)
  with assms show ?thesis
    by (simp add: write_wal_storage_payload_def write_payload_with_context_def
        chained_resolve_payload_def encrypted_row_payload_write_transform_def split: if_splits)
next
  case (Inr e)
  then have "encrypted_row_payload_write_transform PreserveOpaque E r p c = Ok None"
    by (auto simp: encrypted_row_payload_write_transform_def split: option.splits)
  with plain w Inr show ?thesis
    by (cases "zlib_encode E p")
      (auto simp: write_wal_storage_payload_def write_payload_with_context_def
        chained_resolve_payload_def wal_compression_payload_write_transform_def split: if_splits)
qed

lemma no_key_no_encryption:
  "encryption_key_ref c = None \<Longrightarrow> row_payload_encryption_write_transform E r p c = Ok None"
  by (simp add: row_payload_encryption_write_transform_def)

lemma record_for_storage_restored:
  "set_payload (Some p) (Some default_context)
     ((record_for_storage_with_payload r (Some z))\<lparr>payload_shadow := None\<rparr>) =
   r\<lparr>raw_payload := Some p, payload_shadow := None\<rparr>"
  by (simp add: set_payload_def record_for_storage_with_payload_def new_record_def)

lemma raw_record_for_storage [simp]:
  "raw_payload (record_for_storage_with_payload r p) = p"
  by (simp add: record_for_storage_with_payload_def new_record_def)

lemma decode_encode_plain:
  assumes ok: "wal_env_ok E"
    and key: "\<And>p. raw_payload r = Some p \<Longrightarrow> row_payload_encryption_write_transform E r p c = Ok None"
    and enc: "encode_record_for_storage_with_context E c r = Ok bs" and len: "length bs \<le> MAX_DECODE_BYTES"
    and opaque: "\<And>p. raw_payload r = Some p \<Longrightarrow> should_skip_payload_compression E r p \<Longrightarrow>
                   \<not> looks_like_zlib_payload p"
  shows "decode_record_from_storage_with_context E default_context bs = Ok (r\<lparr>payload_shadow := None\<rparr>)"
proof (cases "raw_payload r")
  case None
  with enc have "ser_record E r = Some bs"
    by (simp add: encode_record_for_storage_with_context_def write_wal_storage_payload_def)
  with ok len None show ?thesis
    by (simp add: decode_record_from_storage_with_context_def de_ser_record
        resolve_wal_storage_payload_def)
next
  case (Some p)
  from enc Some obtain stored where w: "write_wal_storage_payload E r (Some p) c = Ok stored"
    by (cases "write_wal_storage_payload E r (Some p) c")
      (auto simp: encode_record_for_storage_with_context_def)
  note plain = write_plain_payload [OF key [OF Some] w]
  show ?thesis
  proof (cases "should_skip_payload_compression E r p")
    case True
    with plain have "stored = Some (Borrowed p)" by simp
    with enc w Some have "ser_record E r = Some bs"
      by (simp add: encode_record_for_storage_with_context_def)
    with ok len Some opaque [OF Some True] show ?thesis
      by (simp add: decode_record_from_storage_with_context_def de_ser_record
          resolve_wal_storage_payload_def)
  next
    case False
    with plain obtain z where z: "zlib_encode E p = Inr z"
      and st: "stored = Some (if z = p then Borrowed p else Owned z)" by auto
    have res: "resolve_wal_storage_payload E (Some z) default_context =
        Ok (Some (if p = z then Borrowed z else Owned p))"
      using plain by (intro resolve_deflated [OF ok z]) blast
    show ?thesis
    proof (cases "z = p")
      case True
      with enc w Some st have "ser_record E r = Some bs"
        by (simp add: encode_record_for_storage_with_context_def)
      with ok len Some res True show ?thesis
        by (simp add: decode_record_from_storage_with_context_def de_ser_record)
    next
      case False
      with enc w Some st have "ser_record E (record_for_storage_with_payload r (Some z)) = Some bs"
        by (simp add: encode_record_for_storage_with_context_def)
      with ok len res False Some show ?thesis
        by (simp add: decode_record_from_storage_with_context_def de_ser_record
            record_for_storage_restored)
    qed
  qed
qed

text \<open>
  C26. Plain storage round trip: with no encryption key in the context, decoding the stored form
  of a record under the default context gives the record back, without its in-memory shadow. The
  exclusions are a stored form longer than the decode limit of bincode, 256 MiB, and a payload that
  is stored uncompressed because it already is an encrypted envelope and that starts like a zlib
  stream.
\<close>

theorem storage_roundtrip_plain:
  assumes "wal_env_ok E" and "encryption_key_ref c = None"
    and "encode_record_for_storage_with_context E c r = Ok bs" and "length bs \<le> MAX_DECODE_BYTES"
    and "\<forall>p. raw_payload r = Some p \<and> should_skip_payload_compression E r p \<longrightarrow>
               \<not> looks_like_zlib_payload p"
  shows "decode_record_from_storage_with_context E default_context bs = Ok (r\<lparr>payload_shadow := None\<rparr>)"
  using assms by (intro decode_encode_plain) (auto simp: no_key_no_encryption)

lemma write_encrypted_payload:
  assumes ok: "crypto_env_ok E" and p: "p \<noteq> []"
    and t: "row_payload_encryption_write_transform E r p c = Ok (Some q)"
    and w: "write_wal_storage_payload E r (Some p) c = Ok stored" and len: "length q \<le> MAX_DECODE_BYTES"
  shows "encrypt_row_payload E r c p = Ok q" "\<not> looks_like_encrypted_row_payload E p" "stored = Some (Owned q)"
    and "looks_like_encrypted_row_payload E q"
proof -
  show q: "encrypt_row_payload E r c p = Ok q" and nl: "\<not> looks_like_encrypted_row_payload E p"
    using t by (cases "encrypt_row_payload E r c p";
        auto simp: row_payload_encryption_write_transform_def split: if_splits option.splits)+
  have kind: "tx_kind r \<in> {Insert, Update}"
    using t by (auto simp: row_payload_encryption_write_transform_def split: if_splits)
  obtain e where e: "decode_encrypted_row_payload_envelope E q = Ok (Some e)"
    using encrypt_row_payload_envelope [OF ok p q len] by blast
  then show look: "looks_like_encrypted_row_payload E q" by (simp add: looks_like_encrypted_row_payload_def)
  with kind have "should_skip_payload_compression E r q" by (auto simp: should_skip_payload_compression_def)
  moreover have "q \<noteq> p" using look nl by auto
  ultimately show "stored = Some (Owned q)"
    using w t e
    by (simp add: write_wal_storage_payload_def write_payload_with_context_def
        chained_resolve_payload_def encrypted_row_payload_write_transform_def
        wal_compression_payload_write_transform_def)
qed

lemma resolve_encrypted_payload:
  assumes ok: "crypto_env_ok E" and p: "p \<noteq> []"
    and key: "encryption_key_ref c = Some k" "k \<noteq> []"
    and plain: "decode_encrypted_row_payload_envelope E p = Ok None"
    and q: "encrypt_row_payload E r c p = Ok q" "\<not> looks_like_zlib_payload q" "length q \<le> MAX_DECODE_BYTES"
  shows "resolve_wal_storage_payload E (Some q) c = Ok (Some (Owned p))"
proof -
  obtain e where e: "decode_encrypted_row_payload_envelope E q = Ok (Some e)"
      "decrypt_row_payload E c e = Ok p"
    using encrypt_row_payload_envelope [OF ok p q(1,3)] by blast
  have "p \<noteq> q" using plain e by auto
  moreover have "c \<noteq> default_context" using key by auto
  moreover have "(case encryption_key_version c of None \<Rightarrow> 0 | Some v \<Rightarrow> v) \<noteq> 0"
    using q(1) key by (auto simp: encrypt_row_payload_def resolve_key_bytes_def Let_def split: if_splits)
  ultimately show ?thesis
    using key e q plain
    by (simp add: resolve_wal_storage_payload_def chained_resolve_payload_def
        wal_compression_payload_transform_def maybe_decode_compressed_payload_bytes_def
        row_payload_decryption_transform_def encrypted_row_payload_transform_def)
qed

lemma decode_encode_encrypted:
  assumes ok: "wal_env_ok E" "crypto_env_ok E" and p: "raw_payload r = Some p" "p \<noteq> []"
    and t: "row_payload_encryption_write_transform E r p c = Ok (Some q)"
    and q: "length q \<le> MAX_DECODE_BYTES" "\<not> looks_like_zlib_payload q"
    and enc: "encode_record_for_storage_with_context E c r = Ok bs" and len: "length bs \<le> MAX_DECODE_BYTES"
  shows "decode_record_from_storage_with_context E default_context bs =
    Ok (r\<lparr>raw_payload := Some q, payload_shadow := None\<rparr>)"
proof -
  from p enc obtain stored where w: "write_wal_storage_payload E r (Some p) c = Ok stored"
    by (cases "write_wal_storage_payload E r (Some p) c")
      (auto simp: encode_record_for_storage_with_context_def)
  have "ser_record E (record_for_storage_with_payload r (Some q)) = Some bs"
    using p enc w write_encrypted_payload(3) [OF ok(2) p(2) t w q(1)]
    by (simp add: encode_record_for_storage_with_context_def)
  then show ?thesis
    using q by (simp add: decode_record_from_storage_with_context_def de_ser_record [OF ok(1) _ len]
        resolve_wal_storage_payload_def)
      (simp add: record_for_storage_with_payload_def new_record_def)
qed

text \<open>
  C27. Encrypted storage round trip: a row payload written under a context with a key is on disk
  only as an envelope. Replay under the default context keeps the envelope as it is, and a read
  under the key's context gives the payload back, provided that the record and the envelope are
  within the decode limit, that the payload is not empty and is not itself read as an envelope, and
  that the envelope does not start like a zlib stream.
\<close>

theorem storage_roundtrip_encrypted:
  assumes "wal_env_ok E" and "crypto_env_ok E"
    and "encryption_key_ref c = Some k" and "k \<noteq> []"
    and "encryption_key_version c = Some v" and "v \<noteq> 0"
    and "tx_kind r \<in> {Insert, Update}" and "raw_payload r = Some p" and "p \<noteq> []"
    and "decode_encrypted_row_payload_envelope E p = Ok None"
    and "encode_record_for_storage_with_context E c r = Ok bs" and "length bs \<le> MAX_DECODE_BYTES"
    and "\<forall>q. encrypt_row_payload E r c p = Ok q \<longrightarrow>
           length q \<le> MAX_DECODE_BYTES \<and> \<not> looks_like_zlib_payload q"
  shows "\<exists>q. encrypt_row_payload E r c p = Ok q \<and>
             decode_record_from_storage_with_context E default_context bs =
               Ok (r\<lparr>raw_payload := Some q, payload_shadow := None\<rparr>) \<and>
             looks_like_encrypted_row_payload E q \<and>
             resolve_wal_storage_payload E (Some q) c = Ok (Some (Owned p))"
proof -
  have t: "row_payload_encryption_write_transform E r p c =
      try_bind (encrypt_row_payload E r c p) (\<lambda>out. Ok (Some out))"
    using assms(3,5-7,10)
    by (auto simp: row_payload_encryption_write_transform_def looks_like_encrypted_row_payload_def)
  from assms(8,11) obtain stored where w: "write_wal_storage_payload E r (Some p) c = Ok stored"
    by (cases "write_wal_storage_payload E r (Some p) c")
      (auto simp: encode_record_for_storage_with_context_def)
  obtain q where q: "encrypt_row_payload E r c p = Ok q"
    using w t by (cases "encrypt_row_payload E r c p")
      (auto simp: write_wal_storage_payload_def write_payload_with_context_def chained_resolve_payload_def)
  with t have t: "row_payload_encryption_write_transform E r p c = Ok (Some q)" by simp
  from q assms(13) have lim: "length q \<le> MAX_DECODE_BYTES" "\<not> looks_like_zlib_payload q" by auto
  show ?thesis
    using q decode_encode_encrypted [OF assms(1,2,8,9) t lim assms(11,12)]
      write_encrypted_payload(4) [OF assms(2,9) t w lim(1)]
      resolve_encrypted_payload [OF assms(2,9,3,4,10) q lim(2,1)] by blast
qed

section \<open>Frames\<close>

lemma length_le8: "n < 2 ^ 64 \<Longrightarrow> from_le (to_le 8 n) = n"
  by (simp add: from_le_to_le)

lemma reader_frame:
  assumes "length enc < 2 ^ 64" and "length enc \<le> wal_max_frame_size_bytes E"
    and "decode_record_from_storage_with_context E c enc = Ok r"
  shows "decode_records_from_reader E c (to_le 8 (length enc) @ enc @ rest) =
           r # decode_records_from_reader E c rest"
  using assms by (subst decode_records_from_reader.simps) (simp add: Let_def length_le8)

definition persisted :: "wal_env \<Rightarrow> TransactionRecord \<Rightarrow> bytes \<Rightarrow> bool" where
  "persisted E r frame \<longleftrightarrow>
     (\<exists>enc. frame = to_le 8 (length enc) @ enc \<and> length enc < 2 ^ 64 \<and>
        length enc \<le> wal_max_frame_size_bytes E \<and>
        decode_record_from_storage_with_context E default_context enc = Ok r)"

lemma reader_persisted:
  assumes "list_all2 (persisted E) rs fs"
  shows "decode_records_from_reader E default_context (concat fs @ tail) =
           rs @ decode_records_from_reader E default_context tail"
  using assms by (induction rule: list_all2_induct) (auto simp: persisted_def reader_frame)

lemma reader_short: "length bs < 8 \<Longrightarrow> decode_records_from_reader E c bs = []"
  by (simp add: decode_records_from_reader.simps)

lemma reader_take_prefix:
  "prefix (decode_records_from_reader E c (take n bs)) (decode_records_from_reader E c bs)"
proof (induction E c bs arbitrary: n rule: decode_records_from_reader.induct)
  case (1 E c bs)
  let ?len = "from_le (take 8 bs)"
  show ?case
  proof (cases "length (take n bs) < 8 \<or> wal_max_frame_size_bytes E < ?len \<or> length (take n bs) < 8 + ?len")
    case True
    then have "decode_records_from_reader E c (take n bs) = []"
      by (subst decode_records_from_reader.simps) (auto simp: Let_def min_def)
    then show ?thesis by simp
  next
    case False
    then have t: "take 8 (take n bs) = take 8 bs"
        "take ?len (drop 8 (take n bs)) = take ?len (drop 8 bs)"
        "drop ?len (drop 8 (take n bs)) = take (n - (8 + ?len)) (drop ?len (drop 8 bs))"
      and len: "\<not> length bs < 8" "\<not> length (drop 8 bs) < ?len" "\<not> length (drop 8 (take n bs)) < ?len"
      by (auto simp: min_def drop_take not_less add.commute split: if_splits)
    have unf: "decode_records_from_reader E c xs =
        (case decode_record_from_storage_with_context E c (take ?len (drop 8 bs)) of
           Inr r \<Rightarrow> r # decode_records_from_reader E c (drop ?len (drop 8 xs)) | Inl e \<Rightarrow> [])"
      if "xs = bs \<or> xs = take n bs" for xs
    proof -
      have "take 8 xs = take 8 bs" "take ?len (drop 8 xs) = take ?len (drop 8 bs)"
        "\<not> length xs < 8" "\<not> length (drop 8 xs) < ?len"
        using that False len t(1,2) by auto
      then show ?thesis
        using False by (subst decode_records_from_reader.simps) (simp only: Let_def if_False de_Morgan_disj)
    qed
    show ?thesis
    proof (cases "decode_record_from_storage_with_context E c (take ?len (drop 8 bs))")
      case (Inr r)
      from "1.IH" [OF len(1) refl refl _ len(2) Inr] False show ?thesis
        by (subst (1 2) unf) (simp_all only: t(3) Inr sum.case de_Morgan_disj Cons_prefix_Cons simp_thms)
    qed (simp add: unf)
  qed
qed

lemma load_header: "load_records_from_path E (Some (make_header Data @ bs)) =
    decode_records_from_reader E default_context bs"
  using verify_header_make [of Data "[]"] by (simp add: load_records_from_path_def)

lemma load_take_prefix:
  "prefix (load_records_from_path E (Some (take n bs))) (load_records_from_path E (Some bs))"
proof (cases "n < HEADER_SIZE")
  case False
  then have "take HEADER_SIZE (take n bs) = take HEADER_SIZE bs" by (simp add: min_def)
  then show ?thesis
    using False reader_take_prefix [of E default_context "n - HEADER_SIZE" "drop HEADER_SIZE bs"]
    by (auto simp: load_records_from_path_def drop_take verify_header_def HEADER_SIZE_def
        split: sum.splits if_splits)
qed (auto simp: load_records_from_path_def)

lemma load_cut_file:
  assumes "list_all2 (persisted E) rs fs"
    and "HEADER_SIZE + length (concat (take k fs)) \<le> n"
  obtains j where "min k (length rs) \<le> j" "j \<le> length rs"
    "load_records_from_path E (Some (take n (make_header Data @ concat fs))) = take j rs"
proof -
  let ?file = "make_header Data @ concat fs"
  have "concat fs = concat (take k fs) @ concat (drop k fs)"
    by (metis append_take_drop_id concat_append)
  with assms(2) have cut: "take n ?file = make_header Data @ concat (take k fs) @
      take (n - HEADER_SIZE - length (concat (take k fs))) (concat (drop k fs))"
    by simp
  have "list_all2 (persisted E) (take k rs) (take k fs)"
    using assms(1) by (rule list_all2_takeI)
  then have "prefix (take k rs) (load_records_from_path E (Some (take n ?file)))"
    by (simp only: cut load_header reader_persisted prefix_def) blast
  then have low: "min k (length rs) \<le> length (load_records_from_path E (Some (take n ?file)))"
    using prefix_length_le by fastforce
  have "load_records_from_path E (Some ?file) = rs"
    using reader_persisted [OF assms(1), of "[]"] by (simp add: load_header reader_short)
  with load_take_prefix [of E n ?file]
  have "prefix (load_records_from_path E (Some (take n ?file))) rs" by simp
  then show thesis
    using that [OF low] by (auto simp: prefix_def)
qed

text \<open>
  C6. Crash tolerance: let a log file hold the frames of records \<open>rs\<close> behind its header, and let
  the file be cut at any byte \<open>n\<close> at or after the end of the \<open>k\<close>-th frame. Loading it gives an
  initial part of \<open>rs\<close> that has at least the first \<open>k\<close> records: a torn tail never costs a record
  that was completely written, and never makes up one.
\<close>

theorem load_after_torn_write:
  assumes "list_all2 (persisted E) rs fs"
    and "HEADER_SIZE + length (concat (take k fs)) \<le> n"
  shows "prefix (take k rs) (load_records_from_path E (Some (take n (make_header Data @ concat fs)))) \<and>
         prefix (load_records_from_path E (Some (take n (make_header Data @ concat fs)))) rs"
proof -
  obtain j where "min k (length rs) \<le> j" "j \<le> length rs"
    "load_records_from_path E (Some (take n (make_header Data @ concat fs))) = take j rs"
    using load_cut_file [OF assms] .
  moreover from this have "take k rs = take (min k (length rs)) (take j rs)" by (simp add: min_def)
  ultimately show ?thesis by (metis take_is_prefix)
qed

section \<open>A concrete environment\<close>

text \<open>
  Instances of the parameters for the witnesses: records are coded by their position in a table,
  envelopes field by field, the cipher leaves the text as it is and the compressor only writes the
  stream header.
\<close>

fun index_of :: "'a \<Rightarrow> 'a list \<Rightarrow> nat option" where
  "index_of x [] = None"
| "index_of x (y # ys) = (if x = y then Some 0 else map_option Suc (index_of x ys))"

lemma index_of_Some: "index_of x ys = Some i \<Longrightarrow> i < length ys \<and> ys ! i = x"
  by (induction ys arbitrary: i) (auto split: if_splits)

definition table_env :: "TransactionRecord list \<Rightarrow> wal_env" where
  "table_env rs =
     \<lparr>ser_envelope = (\<lambda>e.
        if length (env_nonce e) = 12 \<and> length (env_auth_tag e) = 16
        then Some (to_le 4 (unat (env_key_version e)) @ env_nonce e @ env_auth_tag e @ env_ciphertext e)
        else None),
      de_envelope = (\<lambda>bs.
        if 32 \<le> length bs
        then Some \<lparr>env_key_version = of_nat (from_le (take 4 bs)), env_nonce = take 12 (drop 4 bs),
                   env_auth_tag = take 16 (drop 16 bs), env_ciphertext = drop 32 bs\<rparr>
        else None),
      de_legacy_envelope = (\<lambda>bs. None),
      sha256 = (\<lambda>bs. take 32 (bs @ replicate 32 0)),
      aes_seal = (\<lambda>k n a p. Some (p, replicate 16 0)),
      aes_open = (\<lambda>k n a ct tag. Some ct),
      draw_nonce = (\<lambda>r. Some (replicate 12 7)),
      ser_record = (\<lambda>r. case index_of (r\<lparr>payload_shadow := None\<rparr>) rs of
        Some i \<Rightarrow> if i < 256 then Some [of_nat i] else None | None \<Rightarrow> None),
      de_record = (\<lambda>bs. case bs of
        [b] \<Rightarrow> if unat b < length rs then Some (rs ! unat b) else None | _ \<Rightarrow> None),
      zlib_encode = (\<lambda>p. Inr (0x78 # 0x9c # p)),
      zlib_decode = (\<lambda>z. case z of a # b # p \<Rightarrow> Some p | _ \<Rightarrow> None),
      wal_max_frame_size_bytes = 1000,
      wal_sync_on_append = True,
      md5_hex = (\<lambda>bs. [])\<rparr>"

lemma table_env_settings [simp]:
  "wal_sync_on_append (table_env rs)" "wal_max_frame_size_bytes (table_env rs) = 1000"
  by (simp_all add: table_env_def)

lemma table_env_ok: "wal_env_ok (table_env rs)"
proof -
  have "(push_bit 8 (ucast (0x78 :: byte)) OR ucast (0x9c :: byte) :: u16) mod 31 = 0"
    by code_simp
  then have "looks_like_zlib_payload (0x78 # 0x9c # p)" for p
    by (simp add: looks_like_zlib_payload_def)
  then show ?thesis
    by (auto simp: wal_env_ok_def table_env_def unat_of_nat dest: index_of_Some split: option.splits if_splits)
qed

lemma table_crypto_ok: "crypto_env_ok (table_env rs)"
proof -
  have "of_nat (from_le (to_le 4 (unat v))) = v" for v :: u32
    using unsigned_less [of v, where 'a = nat] by (simp add: from_le_to_le)
  then show ?thesis
    by (auto simp: crypto_env_ok_def table_env_def NONCE_SIZE_def AUTH_TAG_SIZE_def split: if_splits)
qed

definition demo_record :: "u64 \<Rightarrow> bytes \<Rightarrow> TransactionRecord" where
  "demo_record i p = new_record i None None 0 (lit ''t'') Insert (Some p)"


definition demo_table :: "TransactionRecord list" where
  "demo_table = [demo_record 1 [0x78, 0x9c, 1, 2, 3],
     demo_record 2 (to_le 4 5 @ replicate 12 7 @ replicate 16 0 @ [4, 5]),
     demo_record 2 [0x78, 0x9c, 9],
     without_payload 0 None None 5 (lit ''t'') Truncate]"

definition demo_key_context :: TransactionPayloadContext where
  "demo_key_context = default_context\<lparr>encryption_key_ref := Some (lit ''k''),
     encryption_key_version := Some 5\<rparr>"

lemma raw_demo_record [simp]: "raw_payload (demo_record i p) = Some p"
  by (simp add: demo_record_def new_record_def)

lemma demo_envelope:
  "decode_encrypted_row_payload_envelope (table_env T) [1, 2, 3] = Ok None"
  "decode_encrypted_row_payload_envelope (table_env T) [4, 5] = Ok None"
  "decode_encrypted_row_payload_envelope (table_env T) [9] = Ok None"
  by (simp_all add: decode_encrypted_row_payload_envelope_def table_env_def Let_def)

lemmas demo_encode_simps = encode_record_for_storage_with_context_def write_wal_storage_payload_def
  write_payload_with_context_def chained_resolve_payload_def
  row_payload_encryption_write_transform_def encrypted_row_payload_write_transform_def
  demo_envelope wal_compression_payload_write_transform_def looks_like_encrypted_row_payload_def
  should_skip_payload_compression_def demo_record_def new_record_def

lemmas demo_table_simps = table_env_def demo_table_def demo_record_def new_record_def
  without_payload_def record_for_storage_with_payload_def

lemma demo_plain_encoded:
  "encode_record_for_storage_with_context (table_env demo_table) default_context
     (demo_record 1 [1, 2, 3]) = Ok [0]"
  by (simp add: demo_encode_simps) (simp add: demo_table_simps)

lemma demo_plain_encoded_2:
  "encode_record_for_storage_with_context (table_env demo_table) default_context
     (demo_record 2 [9]) = Ok [2]"
  by (simp add: demo_encode_simps) (simp add: demo_table_simps to_le_numeral)

lemma demo_truncate_encoded:
  "encode_record_for_storage_with_context (table_env demo_table) default_context
     (without_payload 0 None None 5 (lit ''t'') Truncate) = Ok [3]"
  by (simp add: demo_encode_simps without_payload_def) (simp add: demo_table_simps)

lemma demo_plain_not_skipped:
  "\<not> should_skip_payload_compression (table_env T) (demo_record 1 [1, 2, 3]) [1, 2, 3]"
  by (simp add: should_skip_payload_compression_def looks_like_encrypted_row_payload_def
      demo_envelope)

lemma demo_encrypted:
  "encrypt_row_payload (table_env T) (demo_record 2 [4, 5]) demo_key_context [4, 5] =
     Ok (to_le 4 5 @ replicate 12 7 @ replicate 16 0 @ [4, 5])"
  by (simp add: encrypt_row_payload_def table_env_def resolve_key_bytes_def demo_key_context_def
      encode_encrypted_row_payload_envelope_def)

lemma demo_not_zlib: "\<not> looks_like_zlib_payload (to_le 4 5 @ xs)"
  by (simp add: looks_like_zlib_payload_def to_le_numeral)

lemma demo_encrypted_decoded:
  "decode_encrypted_row_payload_envelope (table_env T)
     (to_le 4 5 @ replicate 12 7 @ replicate 16 0 @ [4, 5]) =
   Ok (Some \<lparr>env_key_version = 5, env_nonce = replicate 12 7, env_auth_tag = replicate 16 0,
              env_ciphertext = [4, 5]\<rparr>)"
  by (simp add: decode_encrypted_row_payload_envelope_def table_env_def Let_def from_le_to_le
      looks_like_valid_encrypted_payload_envelope_def NONCE_SIZE_def AUTH_TAG_SIZE_def)

lemma demo_encrypted_encoded:
  "encode_record_for_storage_with_context (table_env demo_table) demo_key_context
     (demo_record 2 [4, 5]) = Ok [1]"
proof -
  let ?q = "to_le 4 5 @ replicate 12 7 @ replicate 16 0 @ [4, 5] :: bytes"
  have "row_payload_encryption_write_transform (table_env demo_table) (demo_record 2 [4, 5]) [4, 5]
      demo_key_context = Ok (Some ?q)"
    using demo_encrypted [of demo_table]
    by (simp add: row_payload_encryption_write_transform_def looks_like_encrypted_row_payload_def
        demo_envelope demo_key_context_def demo_record_def new_record_def)
  moreover have "encrypted_row_payload_write_transform PreserveOpaque (table_env demo_table) (demo_record 2 [4, 5]) ?q
      demo_key_context = Ok None"
    by (simp only: encrypted_row_payload_write_transform_def demo_encrypted_decoded) simp
  moreover have "wal_compression_payload_write_transform (table_env demo_table) (demo_record 2 [4, 5]) ?q
      demo_key_context = Ok None"
    by (simp only: wal_compression_payload_write_transform_def should_skip_payload_compression_def
      looks_like_encrypted_row_payload_def demo_encrypted_decoded) (simp add: demo_record_def new_record_def)
  moreover have "?q \<noteq> [4, 5]" by (simp add: to_le_numeral)
  ultimately have "write_wal_storage_payload (table_env demo_table) (demo_record 2 [4, 5]) (Some [4, 5])
      demo_key_context = Ok (Some (Owned ?q))"
    by (simp add: write_wal_storage_payload_def write_payload_with_context_def
        chained_resolve_payload_def)
  then show ?thesis
    by (simp add: encode_record_for_storage_with_context_def demo_record_def new_record_def)
      (simp add: table_env_def demo_table_def demo_record_def new_record_def
        record_for_storage_with_payload_def)
qed

theorem storage_roundtrip_plain_witness:
  "decode_record_from_storage_with_context (table_env demo_table) default_context [0] =
     Ok (demo_record 1 [1, 2, 3])"
  using storage_roundtrip_plain [OF table_env_ok key_ref_default demo_plain_encoded]
    demo_plain_not_skipped by (simp add: demo_record_def new_record_def MAX_DECODE_BYTES_def)

theorem storage_roundtrip_encrypted_witness:
  "\<exists>q. decode_record_from_storage_with_context (table_env demo_table) default_context [1] =
         Ok (demo_record 2 q) \<and>
       looks_like_encrypted_row_payload (table_env demo_table) q \<and>
       resolve_wal_storage_payload (table_env demo_table) (Some q) demo_key_context =
         Ok (Some (Owned [4, 5]))"
  using storage_roundtrip_encrypted [OF table_env_ok table_crypto_ok, of demo_key_context "lit ''k''" 5
      "demo_record 2 [4, 5]" "[4, 5]" demo_table "[1]"] demo_encrypted [of demo_table] demo_not_zlib demo_encrypted_encoded
    demo_envelope(2) [of demo_table]
  by (simp add: demo_record_def new_record_def demo_key_context_def lit_def MAX_DECODE_BYTES_def)

lemma demo_persisted:
  "persisted (table_env demo_table) (demo_record 1 [1, 2, 3]) (to_le 8 1 @ [0])"
proof -
  have "decode_record_from_storage_with_context (table_env demo_table) default_context [0] =
      Ok ((demo_record 1 [1, 2, 3])\<lparr>payload_shadow := None\<rparr>)"
    by (rule decode_encode_plain [OF table_env_ok _ demo_plain_encoded])
      (simp_all add: demo_plain_not_skipped no_key_no_encryption MAX_DECODE_BYTES_def)
  then show ?thesis
    unfolding persisted_def
    by (intro exI [of _ "[0]"]) (simp add: table_env_def demo_record_def new_record_def)
qed

theorem load_after_torn_write_witness:
  "prefix [demo_record 1 [1, 2, 3]]
     (load_records_from_path (table_env demo_table)
        (Some (take 20 (make_header Data @ (to_le 8 1 @ [0]) @ (to_le 8 1 @ [0])))))"
  using demo_persisted load_after_torn_write [of "table_env demo_table"
      "[demo_record 1 [1, 2, 3], demo_record 1 [1, 2, 3]]" "[to_le 8 1 @ [0], to_le 8 1 @ [0]]" 1 20]
  by (simp add: HEADER_SIZE_def)

end
