(* ===== verification/WalEntries.thy ===== *)
theory WalEntries
  imports WalFrame "HOL-Library.Multiset"
begin

text \<open>
  \<open>serverlib/src/engine/wal.rs\<close>, the record vector of one stream: ordered and out-of-order append,
  duplicate detection, reads after an identifier, write high water, compaction and realignment,
  as functions on the list of records. The worker and the manager are built on them.
\<close>

type_synonym entries = "TransactionRecord list"

section \<open>Append\<close>

definition is_ordered :: "entries \<Rightarrow> TransactionRecord \<Rightarrow> bool" where
  "is_ordered es r = (if es = [] then True else tx_id r > tx_id (last es))"

definition base_pos :: "entries \<Rightarrow> TransactionRecord \<Rightarrow> nat" where
  "base_pos es r = either_index (binary_search_by_key (tx_id r) tx_id es)"

function exact_record_duplicate_at_or_after ::
    "entries \<Rightarrow> TransactionRecord \<Rightarrow> nat \<Rightarrow> bool" where
  "exact_record_duplicate_at_or_after es r idx =
     (if idx < length es \<and> tx_id (es ! idx) = tx_id r
      then if record_eq (es ! idx) r then True
           else exact_record_duplicate_at_or_after es r (idx + 1)
      else False)"
  by pat_completeness auto
termination
  by (relation "measure (\<lambda>(es, r, idx). length es - idx)") auto

function insert_pos :: "entries \<Rightarrow> TransactionRecord \<Rightarrow> nat \<Rightarrow> nat" where
  "insert_pos es r idx =
     (if idx < length es \<and> tx_id (es ! idx) \<le> tx_id r then insert_pos es r (idx + 1) else idx)"
  by pat_completeness auto
termination
  by (relation "measure (\<lambda>(es, r, idx). length es - idx)") auto

declare exact_record_duplicate_at_or_after.simps [simp del] insert_pos.simps [simp del]

text \<open>\<open>Vec::insert\<close>.\<close>

definition vec_insert :: "nat \<Rightarrow> 'a \<Rightarrow> 'a list \<Rightarrow> 'a list" where
  "vec_insert i x xs = take i xs @ x # drop i xs"

definition merge_record :: "entries \<Rightarrow> TransactionRecord \<Rightarrow> entries" where
  "merge_record es r = vec_insert (insert_pos es r (base_pos es r)) r es"

text \<open>The effect of one append on the vector, when persisting it succeeds.\<close>

definition append_entries :: "entries \<Rightarrow> TransactionRecord \<Rightarrow> entries" where
  "append_entries es r =
     (if is_ordered es r then es @ [r]
      else if exact_record_duplicate_at_or_after es r (base_pos es r) then es
      else merge_record es r)"

text \<open>
  The two paths of a batch: the test whether the whole batch continues the stream, which carries
  the last identifier seen, and the record-by-record merge with its two flags, \<open>merged_out_of_order\<close>
  and \<open>staged_dirty\<close>.
\<close>

fun batch_ordered :: "u64 option \<Rightarrow> TransactionRecord list \<Rightarrow> bool" where
  "batch_ordered previous_id [] = True"
| "batch_ordered previous_id (r # rs) =
     ((case previous_id of None \<Rightarrow> True | Some last_id \<Rightarrow> tx_id r > last_id) \<and>
      batch_ordered (Some (tx_id r)) rs)"

definition last_id :: "entries \<Rightarrow> u64 option" where
  "last_id es = (if es = [] then None else Some (tx_id (last es)))"

definition batch_merge_step :: "entries \<times> bool \<times> bool \<Rightarrow> TransactionRecord \<Rightarrow> entries \<times> bool \<times> bool" where
  "batch_merge_step = (\<lambda>(working, merged_out_of_order, staged_dirty) r.
     if is_ordered working r then (working @ [r], merged_out_of_order, True)
     else if exact_record_duplicate_at_or_after working r (base_pos working r)
     then (working, merged_out_of_order, staged_dirty)
     else (merge_record working r, True, True))"

section \<open>Reads\<close>

definition first_record_index_after_id :: "entries \<Rightarrow> u64 \<Rightarrow> nat" where
  "first_record_index_after_id es from = partition_point (\<lambda>e. tx_id e \<le> from) es"

definition since_entries :: "entries \<Rightarrow> u64 option \<Rightarrow> entries" where
  "since_entries es from =
     (case from of
        Some min_id \<Rightarrow> drop (first_record_index_after_id es min_id) es
      | None \<Rightarrow> es)"

definition for_each_since_entries ::
    "entries \<Rightarrow> u64 option \<Rightarrow> (TransactionRecord \<Rightarrow> 's \<Rightarrow> 's) \<Rightarrow> 's \<Rightarrow> 's" where
  "for_each_since_entries es from func s =
     (let start_idx = (case from of Some min_id \<Rightarrow> first_record_index_after_id es min_id | None \<Rightarrow> 0)
      in fold func (drop start_idx es) s)"

fun kind_matched :: "TransactionKind list \<Rightarrow> TransactionKind \<Rightarrow> bool" where
  "kind_matched [kind] k = (k = kind)"
| "kind_matched [kind1, kind2] k = (k = kind1 \<or> k = kind2)"
| "kind_matched kinds k = (k \<in> set kinds)"

definition since_kinds_entries :: "entries \<Rightarrow> u64 option \<Rightarrow> TransactionKind list \<Rightarrow> entries" where
  "since_kinds_entries es from kinds =
     (if kinds = [] then []
      else filter (\<lambda>e. (case from of Some min_id \<Rightarrow> tx_id e > min_id | None \<Rightarrow> True) \<and>
                       kind_matched kinds (tx_kind e)) es)"

text \<open>The default method of the trait \<open>TransactionLog\<close>, which the manager overrides.\<close>

definition since_kinds_default :: "entries \<Rightarrow> u64 option \<Rightarrow> TransactionKind list \<Rightarrow> entries" where
  "since_kinds_default es from kinds =
     (if kinds = [] then []
      else for_each_since_entries es from
             (\<lambda>r records. if tx_kind r \<in> set kinds then records @ [r] else records) [])"

definition write_timestamp_if_data_write :: "TransactionRecord \<Rightarrow> u64 option" where
  "write_timestamp_if_data_write r =
     (if tx_kind r \<in> {Insert, Update, Delete} then Some (timestamp_epoch_ms r) else None)"

text \<open>\<open>Iterator::max\<close>.\<close>

fun max_option :: "'a::linorder list \<Rightarrow> 'a option" where
  "max_option [] = None"
| "max_option (x # xs) = Some (fold max xs x)"

definition latest_write_timestamp :: "entries \<Rightarrow> u64 option" where
  "latest_write_timestamp es = max_option (List.map_filter write_timestamp_if_data_write es)"

section \<open>Compaction and realignment\<close>

definition is_metadata_kind :: "TransactionKind \<Rightarrow> bool" where
  "is_metadata_kind k \<longleftrightarrow> k \<in> {MetadataChange, SecurityChange}"

fun scan_latest ::
    "TransactionRecord list \<Rightarrow> TransactionRecord option \<Rightarrow> TransactionRecord option \<Rightarrow>
     TransactionRecord option \<times> TransactionRecord option" where
  "scan_latest [] schema metadata = (schema, metadata)"
| "scan_latest (r # rs) schema metadata =
     (let schema' = (if schema = None \<and> tx_kind r = SchemaChange then Some r else schema);
          metadata' = (if metadata = None \<and> is_metadata_kind (tx_kind r) then Some r else metadata)
      in if schema' \<noteq> None \<and> metadata' \<noteq> None then (schema', metadata')
         else scan_latest rs schema' metadata')"

definition retained_ids :: "entries \<Rightarrow> u64 set" where
  "retained_ids es =
     (let (schema, metadata) = scan_latest (rev es) None None
      in set (case schema of Some r \<Rightarrow> [tx_id r] | None \<Rightarrow> []) \<union>
         set (case metadata of Some r \<Rightarrow> [tx_id r] | None \<Rightarrow> []))"

definition renumber :: "entries \<Rightarrow> entries" where
  "renumber es = map (\<lambda>(position, r). r\<lparr>tx_id := of_nat position\<rparr>) (enumerate 0 es)"

definition drop_dangling_ref :: "u64 set \<Rightarrow> TransactionRecord \<Rightarrow> TransactionRecord" where
  "drop_dangling_ref keep r =
     (case refid r of
        Some ref \<Rightarrow> if ref \<notin> keep then r\<lparr>refid := None\<rparr> else r
      | None \<Rightarrow> r)"

definition compact_entries_to_latest_schema_and_metadata :: "entries \<Rightarrow> ustr \<Rightarrow> u64 \<Rightarrow> entries" where
  "compact_entries_to_latest_schema_and_metadata es who timestamp =
     (let keep = retained_ids es;
          marked = map (\<lambda>r. if tx_id r \<notin> keep
                            then clear_payload (r\<lparr>tx_kind := Ignore, refid := None\<rparr>) else r) es;
          rebuilt = filter (\<lambda>r. tx_kind r \<noteq> Ignore) marked;
          refs = map (drop_dangling_ref keep) rebuilt
      in renumber (refs @ [without_payload 0 None None timestamp who Truncate]))"

definition id_remap :: "entries \<Rightarrow> (u64 \<rightharpoonup> u64)" where
  "id_remap es = fold (\<lambda>(position, r) m. m(tx_id r \<mapsto> of_nat position)) (enumerate 0 es) Map.empty"

definition positional :: "entries \<Rightarrow> bool" where
  "positional es \<longleftrightarrow> list_all (\<lambda>(position, r). tx_id r = of_nat position) (enumerate 0 es)"

definition realign_record :: "(u64 \<rightharpoonup> u64) \<Rightarrow> nat \<Rightarrow> TransactionRecord \<Rightarrow> TransactionRecord" where
  "realign_record remap position r =
     r\<lparr>tx_id := of_nat position, refid := Option.bind (refid r) remap,
       groupid := Option.bind (groupid r) remap\<rparr>"

definition realign_rebuild :: "entries \<Rightarrow> entries" where
  "realign_rebuild es =
     (let live = filter (\<lambda>r. tx_kind r \<noteq> Ignore) es
      in map (\<lambda>(position, r). realign_record (id_remap live) position r) (enumerate 0 live))"

text \<open>The refusal to drop every record of a non-empty stream.\<close>

definition realign_refused :: "entries \<Rightarrow> bool" where
  "realign_refused es \<longleftrightarrow> filter (\<lambda>r. tx_kind r \<noteq> Ignore) es = [] \<and> es \<noteq> []"


section \<open>Append keeps the stream ordered\<close>

abbreviation ordered :: "entries \<Rightarrow> bool" where
  "ordered es \<equiv> sorted (map tx_id es)"

lemma insert_pos_eq: "insert_pos es r idx = idx + length (takeWhile (\<lambda>e. tx_id e \<le> tx_id r) (drop idx es))"
proof (induction es r idx rule: insert_pos.induct)
  case (1 es r idx)
  show ?case
  proof (cases "idx < length es \<and> tx_id (es ! idx) \<le> tx_id r")
    case True
    moreover from True have "drop idx es = es ! idx # drop (idx + 1) es"
      by (simp add: Cons_nth_drop_Suc)
    ultimately show ?thesis using "1.IH" by (subst insert_pos.simps) simp
  next
    case False
    then have "takeWhile (\<lambda>e. tx_id e \<le> tx_id r) (drop idx es) = []"
      by (cases "idx < length es") (auto simp: takeWhile_eq_Nil_iff hd_drop_conv_nth)
    moreover from False have "insert_pos es r idx = idx"
      by (subst insert_pos.simps) (simp only: if_False)
    ultimately show ?thesis by simp
  qed
qed

lemma base_pos_bound:
  assumes "ordered es"
  shows "base_pos es r \<le> length es" and "\<forall>j < base_pos es r. tx_id (es ! j) \<le> tx_id r"
proof -
  note spec = binary_search_by_key_spec [OF assms, of "tx_id r"]
  have mono: "tx_id (es ! i) \<le> tx_id (es ! j)" if "i \<le> j" "j < length es" for i j
    using sorted_nth_mono [OF assms, of i j] that by simp
  show "base_pos es r \<le> length es"
    using spec by (cases "binary_search_by_key (tx_id r) tx_id es") (auto simp: base_pos_def)
  show "\<forall>j < base_pos es r. tx_id (es ! j) \<le> tx_id r"
  proof (cases "binary_search_by_key (tx_id r) tx_id es")
    case (Inl i)
    with spec show ?thesis by (simp add: base_pos_def less_imp_le)
  next
    case (Inr i)
    with spec have "i < length es" "tx_id (es ! i) = tx_id r" by simp_all
    with mono [OF less_imp_le] Inr show ?thesis by (fastforce simp: base_pos_def)
  qed
qed

lemma merge_record_eq:
  assumes "ordered es"
  shows "merge_record es r =
    filter (\<lambda>e. tx_id e \<le> tx_id r) es @ r # filter (\<lambda>e. tx_id r < tx_id e) es"
proof -
  let ?P = "\<lambda>e. tx_id e \<le> tx_id r" and ?b = "base_pos es r"
  have all: "\<forall>x \<in> set (take ?b es). ?P x"
    using base_pos_bound(2) [OF assms, of r] by (metis in_set_conv_nth length_take min_less_iff_conj nth_take)
  then have "takeWhile ?P es = take ?b es @ takeWhile ?P (drop ?b es)"
    using takeWhile_append2 [of "take ?b es" ?P "drop ?b es"] by simp
  with base_pos_bound(1) [OF assms, of r]
  have pos: "insert_pos es r ?b = length (takeWhile ?P es)"
    by (simp add: insert_pos_eq)
  have drop: "drop (length (takeWhile ?P es)) es = filter (\<lambda>e. tx_id r < tx_id e) es"
    using dropWhile_sorted_filter [OF assms, of "tx_id r"] by (simp add: dropWhile_eq_drop)
  have "filter ?P (dropWhile ?P es) = []"
    unfolding dropWhile_sorted_filter [OF assms] by (auto simp: filter_empty_conv not_le)
  moreover have "filter ?P (takeWhile ?P es) = takeWhile ?P es"
    by (auto simp: filter_id_conv dest: set_takeWhileD)
  ultimately have "takeWhile ?P es = filter ?P es"
    using filter_append [of ?P "takeWhile ?P es" "dropWhile ?P es"] by simp
  moreover have "take (length (takeWhile ?P es)) es = takeWhile ?P es"
    by (metis append_eq_conv_conj takeWhile_dropWhile_id)
  ultimately show ?thesis
    using drop by (simp add: merge_record_def vec_insert_def pos)
qed

lemma ordered_append_filter:
  assumes "ordered es" and "is_ordered es r"
  shows "filter (\<lambda>e. tx_id e \<le> tx_id r) es = es" and "filter (\<lambda>e. tx_id r < tx_id e) es = []"
proof -
  have "tx_id e < tx_id r" if "e \<in> set es" for e
  proof -
    from that obtain i where "i < length es" "es ! i = e" by (auto simp: in_set_conv_nth)
    moreover from this have "tx_id (es ! i) \<le> tx_id (es ! (length es - 1))"
      using sorted_nth_mono [OF assms(1), of i "length es - 1"] by simp
    ultimately show ?thesis using assms(2) that by (auto simp: is_ordered_def last_conv_nth split: if_splits)
  qed
  then show "filter (\<lambda>e. tx_id e \<le> tx_id r) es = es" and "filter (\<lambda>e. tx_id r < tx_id e) es = []"
    by (auto simp: filter_id_conv filter_empty_conv less_imp_le not_less)
qed

lemma append_entries_eq:
  assumes "ordered es"
  shows "append_entries es r =
    (if \<not> is_ordered es r \<and> exact_record_duplicate_at_or_after es r (base_pos es r) then es
     else filter (\<lambda>e. tx_id e \<le> tx_id r) es @ r # filter (\<lambda>e. tx_id r < tx_id e) es)"
  using assms by (simp add: append_entries_def merge_record_eq ordered_append_filter)

lemma ordered_insert:
  assumes "ordered es"
  shows "ordered (filter (\<lambda>e. tx_id e \<le> tx_id r) es @ r # filter (\<lambda>e. tx_id r < tx_id e) es)"
  using assms by (auto simp: sorted_append sorted_filter)

lemma ordered_append_entries: "ordered es \<Longrightarrow> ordered (append_entries es r)"
  by (subst append_entries_eq) (auto simp: ordered_insert simp del: map_append list.map)

lemma ordered_foldl_append: "ordered es \<Longrightarrow> ordered (foldl append_entries es rs)"
  by (induction rs arbitrary: es) (simp_all add: ordered_append_entries)

section \<open>Duplicates\<close>

lemma duplicate_iff:
  "exact_record_duplicate_at_or_after es r idx \<longleftrightarrow>
     (\<exists>j. idx \<le> j \<and> j < length es \<and> record_eq (es ! j) r \<and>
          (\<forall>k. idx \<le> k \<longrightarrow> k \<le> j \<longrightarrow> tx_id (es ! k) = tx_id r))"
proof (induction es r idx rule: exact_record_duplicate_at_or_after.induct)
  case (1 es r idx)
  show ?case
  proof (cases "idx < length es \<and> tx_id (es ! idx) = tx_id r \<and> \<not> record_eq (es ! idx) r")
    case True
    then have "exact_record_duplicate_at_or_after es r idx =
        exact_record_duplicate_at_or_after es r (idx + 1)"
      by (subst exact_record_duplicate_at_or_after.simps) simp
    also have "\<dots> \<longleftrightarrow> (\<exists>j. idx + 1 \<le> j \<and> j < length es \<and> record_eq (es ! j) r \<and>
          (\<forall>k. idx + 1 \<le> k \<longrightarrow> k \<le> j \<longrightarrow> tx_id (es ! k) = tx_id r))" (is "_ \<longleftrightarrow> (\<exists>j. ?R j)")
      using "1.IH" True by blast
    finally have rec: "exact_record_duplicate_at_or_after es r idx \<longleftrightarrow> (\<exists>j. ?R j)" .
    have "?R j \<longleftrightarrow> idx \<le> j \<and> j < length es \<and> record_eq (es ! j) r \<and>
          (\<forall>k. idx \<le> k \<longrightarrow> k \<le> j \<longrightarrow> tx_id (es ! k) = tx_id r)" for j
    proof -
      have le: "idx \<le> k \<longleftrightarrow> k = idx \<or> idx + 1 \<le> k" for k by auto
      show ?thesis unfolding le using True by blast
    qed
    with rec show ?thesis by presburger
  next
    case False
    then have "exact_record_duplicate_at_or_after es r idx \<longleftrightarrow>
        idx < length es \<and> tx_id (es ! idx) = tx_id r"
      by (subst exact_record_duplicate_at_or_after.simps) auto
    moreover have "idx < length es \<and> tx_id (es ! idx) = tx_id r"
      if "idx \<le> j" "j < length es" "\<forall>k. idx \<le> k \<longrightarrow> k \<le> j \<longrightarrow> tx_id (es ! k) = tx_id r" for j
      using that by auto
    moreover have "k = idx" if "idx \<le> k" "k \<le> idx" for k using that by simp
    ultimately show ?thesis using False by (intro iffI) (blast intro: exI [of _ idx])+
  qed
qed

lemma duplicate_sound:
  "exact_record_duplicate_at_or_after es r idx \<Longrightarrow> \<exists>e \<in> set es. record_eq e r"
  by (auto simp: duplicate_iff)

text \<open>A record that stands behind all records of its identifier is found.\<close>

lemma duplicate_of_last:
  assumes "ordered es" and "p < length es" and "record_eq (es ! p) r"
    and "\<forall>j. p < j \<longrightarrow> j < length es \<longrightarrow> tx_id r < tx_id (es ! j)"
  shows "exact_record_duplicate_at_or_after es r (base_pos es r)"
proof -
  note spec = binary_search_by_key_spec [OF assms(1), of "tx_id r"]
  have id: "tx_id (es ! p) = tx_id r" using assms(3) by (rule record_eq_id)
  have mono: "tx_id (es ! i) \<le> tx_id (es ! j)" if "i \<le> j" "j < length es" for i j
    using sorted_nth_mono [OF assms(1), of i j] that by simp
  obtain i where i: "binary_search_by_key (tx_id r) tx_id es = Ok i"
  proof (cases "binary_search_by_key (tx_id r) tx_id es")
    case (Inl i)
    with spec have "\<forall>j < i. tx_id (es ! j) < tx_id r"
      and "\<forall>j. i \<le> j \<longrightarrow> j < length es \<longrightarrow> tx_id r < tx_id (es ! j)" by simp_all
    with assms(2) id show ?thesis by (cases "p < i") (auto simp: not_less)
  qed (use that in auto)
  with spec have "i < length es" "tx_id (es ! i) = tx_id r" by simp_all
  moreover from this assms(4) have "i \<le> p" by (metis less_irrefl not_le)
  moreover have "\<forall>k. i \<le> k \<longrightarrow> k \<le> p \<longrightarrow> tx_id (es ! k) = tx_id r"
  proof (intro allI impI)
    fix k
    assume "i \<le> k" "k \<le> p"
    then show "tx_id (es ! k) = tx_id r"
      using mono [of i k] mono [of k p] assms(2) id \<open>tx_id (es ! i) = tx_id r\<close> by simp
  qed
  ultimately show ?thesis using assms(2,3) i by (auto simp: duplicate_iff base_pos_def)
qed

lemma append_entries_again:
  assumes "ordered es"
  shows "append_entries (append_entries es r) r = append_entries es r"
proof (cases "\<not> is_ordered es r \<and> exact_record_duplicate_at_or_after es r (base_pos es r)")
  case True
  then show ?thesis by (simp add: append_entries_def)
next
  case False
  let ?lo = "filter (\<lambda>e. tx_id e \<le> tx_id r) es" and ?hi = "filter (\<lambda>e. tx_id r < tx_id e) es"
  have eq: "append_entries es r = ?lo @ r # ?hi"
    using append_entries_eq [OF assms, of r] by (simp only: False if_False)
  have ord: "ordered (?lo @ r # ?hi)" by (rule ordered_insert [OF assms])
  have "tx_id r < tx_id ((?lo @ r # ?hi) ! j)"
    if j: "length ?lo < j" "j < length (?lo @ r # ?hi)" for j
  proof -
    from j have "(?lo @ r # ?hi) ! j = ?hi ! (j - length ?lo - 1)" and "j - length ?lo - 1 < length ?hi"
      by (auto simp: nth_append nth_Cons')
    with nth_mem [of "j - length ?lo - 1" ?hi] show ?thesis by simp
  qed
  then have "exact_record_duplicate_at_or_after (?lo @ r # ?hi) r (base_pos (?lo @ r # ?hi) r)"
    by (intro duplicate_of_last [OF ord, of "length ?lo"]) auto
  moreover have "\<not> is_ordered (?lo @ r # ?hi) r"
  proof (cases "?hi = []")
    case False
    then have "last ?hi \<in> set ?hi" by (rule last_in_set)
    then have "tx_id r < tx_id (last ?hi)" by simp
    with False show ?thesis by (simp add: is_ordered_def not_less less_imp_le)
  qed (simp add: is_ordered_def)
  ultimately have "append_entries (?lo @ r # ?hi) r = ?lo @ r # ?hi" by (simp add: append_entries_def)
  then show ?thesis by (simp only: eq)
qed


section \<open>Batches\<close>

lemma is_ordered_last_id:
  "is_ordered es r \<longleftrightarrow> (case last_id es of None \<Rightarrow> True | Some i \<Rightarrow> tx_id r > i)"
  by (simp add: is_ordered_def last_id_def)

lemma last_id_snoc [simp]: "last_id (es @ [r]) = Some (tx_id r)"
  by (simp add: last_id_def)

lemma batch_ordered_append:
  "batch_ordered (last_id es) rs \<Longrightarrow> foldl append_entries es rs = es @ rs"
proof (induction rs arbitrary: es)
  case (Cons r rs)
  then have "is_ordered es r" and "batch_ordered (last_id (es @ [r])) rs"
    by (simp_all add: is_ordered_last_id)
  with Cons.IH [of "es @ [r]"] show ?case by (simp add: append_entries_def)
qed simp

lemma batch_merge_step_entries:
  "fst (batch_merge_step (es, m, d) r) = append_entries es r"
  by (simp add: batch_merge_step_def append_entries_def)

lemma batch_merge_entries:
  "fst (foldl batch_merge_step (es, m, d) rs) = foldl append_entries es rs"
proof (induction rs arbitrary: es m d)
  case (Cons r rs)
  obtain es' m' d' where "batch_merge_step (es, m, d) r = (es', m', d')" by (rule prod_cases3)
  with Cons.IH [of es' m' d'] batch_merge_step_entries [of es m d r] show ?case by simp
qed simp

lemma batch_merge_clean:
  "foldl batch_merge_step (es, m, d) rs = (es', m', d') \<Longrightarrow> \<not> d' \<Longrightarrow> es' = es \<and> \<not> d \<and> m' = m"
proof (induction rs arbitrary: es m d)
  case (Cons r rs)
  obtain es1 m1 d1 where s: "batch_merge_step (es, m, d) r = (es1, m1, d1)" by (rule prod_cases3)
  with Cons have "es' = es1" "\<not> d1" "m' = m1" by auto
  with s show ?case by (auto simp: batch_merge_step_def split: if_splits)
qed simp

text \<open>
  C28. Appending a batch is appending its records one by one: on the fast path, where the batch
  continues the stream and is attached as a whole, and on the merge path alike. If the merge
  reports that nothing was staged, the records were all duplicates and the stream is unchanged.
\<close>

theorem append_batch_entries_eq_fold:
  "(if batch_ordered (last_id es) rs then es @ rs else fst (foldl batch_merge_step (es, False, False) rs)) =
     foldl append_entries es rs \<and>
   (\<not> snd (snd (foldl batch_merge_step (es, False, False) rs)) \<longrightarrow> foldl append_entries es rs = es)"
proof -
  obtain es' m' d' where f: "foldl batch_merge_step (es, False, False) rs = (es', m', d')"
    by (rule prod_cases3)
  with batch_merge_entries [of es False False rs] have "foldl append_entries es rs = es'" by simp
  with f batch_merge_clean [OF f] batch_ordered_append [of es rs] show ?thesis by auto
qed

section \<open>Reads\<close>

lemma since_entries_filter:
  "ordered es \<Longrightarrow> since_entries es from =
     filter (\<lambda>e. case from of Some m \<Rightarrow> m < tx_id e | None \<Rightarrow> True) es"
  by (cases "from") (simp_all add: since_entries_def first_record_index_after_id_def
      drop_partition_point dropWhile_sorted_filter)

lemma for_each_since_eq: "for_each_since_entries es from func s = fold func (since_entries es from) s"
  by (cases "from") (simp_all add: for_each_since_entries_def since_entries_def)

lemma kind_matched_iff: "kind_matched kinds k \<longleftrightarrow> k \<in> set kinds"
  by (cases "(kinds, k)" rule: kind_matched.cases) auto

lemma fold_filter_push: "fold (\<lambda>r acc. if P r then acc @ [r] else acc) xs acc = acc @ filter P xs"
  by (induction xs arbitrary: acc) auto

text \<open>
  C29. Reads after an identifier: on an ordered stream \<open>since\<close>, which cuts the vector at a
  partition point, gives exactly the records with a larger identifier, in stream order; and the
  manager's own \<open>since_kinds\<close>, which scans the whole vector, agrees with the default method of the
  trait, which filters what \<open>for_each_since\<close> visits.
\<close>

theorem since_entries_exact:
  assumes "ordered es"
  shows "since_entries es (Some m) = filter (\<lambda>e. m < tx_id e) es \<and>
         since_kinds_entries es from kinds = since_kinds_default es from kinds"
  using since_entries_filter [OF assms]
  by (simp add: since_kinds_entries_def since_kinds_default_def for_each_since_eq fold_filter_push
      kind_matched_iff conj_commute)

section \<open>Write high water\<close>

lemma fold_max_Max: "fold max xs (x :: 'a :: linorder) = Max (insert x (set xs))"
  by (metis List.finite_set Max.set_eq_fold list.simps(15))

lemma max_option_greater:
  "(\<exists>m. max_option xs = Some m \<and> t < m) \<longleftrightarrow> (\<exists>x \<in> set xs. t < (x :: 'a :: linorder))"
  by (cases xs) (auto simp: fold_max_Max Max_gr_iff)

lemma max_option_None [simp]: "max_option xs = None \<longleftrightarrow> xs = []"
  by (cases xs) auto

definition is_data_write :: "TransactionRecord \<Rightarrow> bool" where
  "is_data_write r \<longleftrightarrow> tx_kind r \<in> {Insert, Update, Delete}"

lemma latest_write_greater:
  "(\<exists>m. latest_write_timestamp es = Some m \<and> t < m) \<longleftrightarrow>
     (\<exists>r \<in> set es. is_data_write r \<and> t < timestamp_epoch_ms r)"
  unfolding latest_write_timestamp_def max_option_greater
  by (auto simp: map_filter_def write_timestamp_if_data_write_def is_data_write_def split: if_splits)


section \<open>Ordered append, the claims\<close>

text \<open>
  C3. Appending keeps a stream ordered by transaction identifier, whatever the identifier of the
  new record: either the stream holds an equal record already and is left as it is, or the record ends
  up behind all records with an identifier at most its own and before all larger ones.
\<close>

theorem append_entries_correct:
  assumes "ordered es"
  shows "ordered (append_entries es r) \<and>
    (append_entries es r = es \<and> (\<exists>e \<in> set es. record_eq e r) \<or>
     append_entries es r =
       filter (\<lambda>e. tx_id e \<le> tx_id r) es @ r # filter (\<lambda>e. tx_id r < tx_id e) es)"
  using append_entries_eq [OF assms, of r] ordered_append_entries [OF assms, of r]
    duplicate_sound [of es r "base_pos es r"]
  by (simp split: if_splits)

text \<open>
  A repeated append is idempotent: after a record has been appended to an ordered stream,
  appending it once more changes nothing, also when other records share its identifier.
\<close>

theorem append_entries_idempotent:
  assumes "ordered es"
  shows "append_entries (append_entries es r) r = append_entries es r"
  using assms by (rule append_entries_again)

text \<open>
  The duplicate test sees only part of a group of records with one identifier: of two such
  records, the first is not recognised when it comes again, and is stored a second time.
\<close>

theorem append_entries_duplicate_missed:
  "let a = demo_record 7 [1]; b = demo_record 7 [2]
   in append_entries [a, b] a = [a, b, a]"
  by code_simp

section \<open>Compaction and realignment, the claims\<close>

lemma scan_latest_eq:
  "scan_latest rs schema metadata =
     ((case schema of None \<Rightarrow> find (\<lambda>r. tx_kind r = SchemaChange) rs | Some r \<Rightarrow> Some r),
      (case metadata of None \<Rightarrow> find (\<lambda>r. is_metadata_kind (tx_kind r)) rs | Some r \<Rightarrow> Some r))"
  by (induction rs schema metadata rule: scan_latest.induct) (auto simp: Let_def split: option.splits)

definition latest_schema :: "entries \<Rightarrow> TransactionRecord option" where
  "latest_schema es = find (\<lambda>r. tx_kind r = SchemaChange) (rev es)"

definition latest_metadata :: "entries \<Rightarrow> TransactionRecord option" where
  "latest_metadata es = find (\<lambda>r. is_metadata_kind (tx_kind r)) (rev es)"

lemma retained_ids_eq:
  "retained_ids es = {tx_id r | r. latest_schema es = Some r \<or> latest_metadata es = Some r}"
  by (auto simp: retained_ids_def scan_latest_eq latest_schema_def latest_metadata_def
      split: option.splits)

lemma find_SomeD: "find P xs = Some x \<Longrightarrow> x \<in> set xs \<and> P x"
  by (induction xs) (auto split: if_splits)

lemma latest_in_set:
  assumes "latest_schema es = Some r \<or> latest_metadata es = Some r"
  shows "r \<in> set es" and "tx_kind r \<noteq> Ignore"
  using assms by (auto simp: latest_schema_def latest_metadata_def is_metadata_kind_def
      dest!: find_SomeD)

lemma retained_iff:
  assumes "distinct (map tx_id es)" and "r \<in> set es"
  shows "tx_id r \<in> retained_ids es \<longleftrightarrow> latest_schema es = Some r \<or> latest_metadata es = Some r"
proof
  assume "tx_id r \<in> retained_ids es"
  then obtain q where q: "latest_schema es = Some q \<or> latest_metadata es = Some q"
    and "tx_id q = tx_id r" unfolding retained_ids_eq by force
  moreover from this have "q \<in> set es" using latest_in_set by blast
  ultimately have "q = r" using assms by (auto simp: distinct_map dest: inj_onD)
  with q show "latest_schema es = Some r \<or> latest_metadata es = Some r" by simp
qed (auto simp: retained_ids_eq)

lemma nth_renumber: "i < length es \<Longrightarrow> renumber es ! i = (es ! i)\<lparr>tx_id := of_nat i\<rparr>"
  by (simp add: renumber_def nth_enumerate_eq)

lemma length_renumber [simp]: "length (renumber es) = length es"
  by (simp add: renumber_def)

lemma positional_iff: "positional es \<longleftrightarrow> (\<forall>i < length es. tx_id (es ! i) = of_nat i)"
  by (auto simp: positional_def list_all_length nth_enumerate_eq)

lemma renumber_keeps:
  "map tx_kind (renumber es) = map tx_kind es" "map raw_payload (renumber es) = map raw_payload es"
  "positional (renumber es)"
  by (auto simp: positional_iff nth_renumber intro: nth_equalityI)

lemma drop_dangling_ref_keeps [simp]:
  "tx_kind (drop_dangling_ref keep r) = tx_kind r"
  "raw_payload (drop_dangling_ref keep r) = raw_payload r"
  by (simp_all add: drop_dangling_ref_def split: option.splits)

lemma compact_marked_filter:
  assumes "\<And>r. r \<in> set es \<Longrightarrow> tx_id r \<in> keep \<Longrightarrow> tx_kind r \<noteq> Ignore"
  shows "filter (\<lambda>r. tx_kind r \<noteq> Ignore)
      (map (\<lambda>r. if tx_id r \<notin> keep then clear_payload (r\<lparr>tx_kind := Ignore, refid := None\<rparr>) else r) es) =
    filter (\<lambda>r. tx_id r \<in> keep) es"
  using assms by (induction es) (auto simp: clear_payload_def)

text \<open>
  C30. Compaction of a stream with distinct identifiers keeps exactly its latest schema record and
  its latest metadata or security record, in stream order and with their payloads, followed by
  one truncation marker, and renumbers them by position.
\<close>

theorem compact_entries_correct:
  assumes "distinct (map tx_id es)"
  defines "kept \<equiv> filter (\<lambda>r. latest_schema es = Some r \<or> latest_metadata es = Some r) es"
  shows "map tx_kind (compact_entries_to_latest_schema_and_metadata es who ts) =
           map tx_kind kept @ [Truncate] \<and>
         map raw_payload (compact_entries_to_latest_schema_and_metadata es who ts) =
           map raw_payload kept @ [None] \<and>
         positional (compact_entries_to_latest_schema_and_metadata es who ts)"
proof -
  let ?keep = "retained_ids es"
  have "filter (\<lambda>r. tx_id r \<in> ?keep) es = kept"
    unfolding kept_def using retained_iff [OF assms(1)] by (intro filter_cong refl) simp
  moreover have "tx_kind r \<noteq> Ignore" if "r \<in> set es" "tx_id r \<in> ?keep" for r
    using that retained_iff [OF assms(1)] latest_in_set(2) by blast
  ultimately have eq: "compact_entries_to_latest_schema_and_metadata es who ts =
      renumber (map (drop_dangling_ref ?keep) kept @ [without_payload 0 None None ts who Truncate])"
    unfolding compact_entries_to_latest_schema_and_metadata_def Let_def
    using compact_marked_filter [of es ?keep] by simp
  show ?thesis
    unfolding eq renumber_keeps by (simp add: renumber_keeps(3) without_payload_def new_record_def)
qed

lemma id_remap_snoc:
  "id_remap (es @ [r]) = (id_remap es)(tx_id r \<mapsto> of_nat (length es))"
  by (simp add: id_remap_def enumerate_append_eq)

lemma id_remap_None: "d \<notin> tx_id ` set es \<Longrightarrow> id_remap es d = None"
proof (induction es rule: rev_induct)
  case Nil
  then show ?case by (simp add: id_remap_def)
qed (auto simp: id_remap_snoc)

lemma id_remap_nth:
  "distinct (map tx_id es) \<Longrightarrow> j < length es \<Longrightarrow> id_remap es (tx_id (es ! j)) = Some (of_nat j)"
proof (induction es rule: rev_induct)
  case (snoc r es)
  show ?case
  proof (cases "j < length es")
    case True
    then have "tx_id (es ! j) \<in> tx_id ` set es" by simp
    with snoc.prems(1) have "tx_id (es ! j) \<noteq> tx_id r" by auto
    with True snoc show ?thesis by (simp add: id_remap_snoc nth_append)
  next
    case False
    with snoc.prems(2) have "j = length es" by simp
    then show ?thesis by (simp add: id_remap_snoc)
  qed
qed simp

abbreviation live :: "entries \<Rightarrow> entries" where
  "live es \<equiv> filter (\<lambda>r. tx_kind r \<noteq> Ignore) es"

lemma realign_nth:
  "i < length (live es) \<Longrightarrow> realign_rebuild es ! i = realign_record (id_remap (live es)) i (live es ! i)"
  by (simp add: realign_rebuild_def Let_def nth_enumerate_eq)

lemma length_realign [simp]: "length (realign_rebuild es) = length (live es)"
  by (simp add: realign_rebuild_def Let_def)

lemma positional_realign: "positional (realign_rebuild es)"
  by (simp add: positional_iff realign_nth realign_record_def)

text \<open>
  C32. Realignment drops the records marked \<open>Ignore\<close>, numbers the others by their position and
  keeps everything else of them; a reference to a surviving record is a reference to that same
  record afterwards, and a reference to a dropped one is removed. Identifiers are distinct.
\<close>

theorem realign_preserves_references:
  assumes "distinct (map tx_id es)" and "i < length (live es)"
  shows "tx_id (realign_rebuild es ! i) = of_nat i \<and>
    raw_payload (realign_rebuild es ! i) = raw_payload (live es ! i) \<and>
    tx_kind (realign_rebuild es ! i) = tx_kind (live es ! i) \<and>
    (\<forall>j < length (live es). refid (live es ! i) = Some (tx_id (live es ! j)) \<longrightarrow>
       refid (realign_rebuild es ! i) = Some (tx_id (realign_rebuild es ! j))) \<and>
    (\<forall>d. refid (live es ! i) = Some d \<longrightarrow> d \<notin> tx_id ` set (live es) \<longrightarrow>
       refid (realign_rebuild es ! i) = None)"
proof -
  have "distinct (map tx_id (live es))" using assms(1) by (rule distinct_map_filter)
  with assms(2) show ?thesis
    by (auto simp: realign_nth realign_record_def id_remap_nth id_remap_None)
qed

text \<open>
  C33. Realignment rewrites group identifiers through the same table as references. A group
  identifier is not the identifier of a record, so a record of a write group comes out with no
  group, as if it had been written outside any transaction.
\<close>

theorem realign_erases_write_group:
  assumes "i < length (live es)" and "groupid (live es ! i) = Some g"
    and "g \<notin> tx_id ` set (live es)"
  shows "groupid (realign_rebuild es ! i) = None"
  using assms by (simp add: realign_nth realign_record_def id_remap_None)

section \<open>Concrete instances\<close>

definition demo_entries :: entries where
  "demo_entries =
     [(demo_record 10 [1])\<lparr>tx_kind := SchemaChange\<rparr>, (demo_record 20 [2])\<lparr>tx_kind := Ignore\<rparr>,
      (demo_record 30 [3])\<lparr>refid := Some 10, groupid := Some 999\<rparr>,
      (demo_record 40 [4])\<lparr>tx_kind := SchemaChange\<rparr>]"

lemma demo_entries_ok: "ordered demo_entries" "distinct (map tx_id demo_entries)"
  by (simp_all add: demo_entries_def demo_record_def new_record_def)

lemma demo_entries_live: "length (live demo_entries) = 3" "groupid (live demo_entries ! 1) = Some 999"
  "999 \<notin> tx_id ` set (live demo_entries)" "refid (live demo_entries ! 1) = Some (tx_id (live demo_entries ! 0))"
  by (simp_all add: demo_entries_def demo_record_def new_record_def)

theorem append_entries_correct_witness:
  "ordered (append_entries demo_entries (demo_record 25 [9]))"
  using append_entries_correct [OF demo_entries_ok(1)] by blast

theorem append_entries_idempotent_witness:
  "append_entries (append_entries demo_entries (demo_record 25 [9])) (demo_record 25 [9]) =
     append_entries demo_entries (demo_record 25 [9])"
  using append_entries_idempotent [OF demo_entries_ok(1)] by blast

theorem append_batch_entries_eq_fold_witness:
  "foldl append_entries demo_entries [demo_record 50 [5], demo_record 60 [6]] =
     demo_entries @ [demo_record 50 [5], demo_record 60 [6]]"
  using append_batch_entries_eq_fold [of demo_entries "[demo_record 50 [5], demo_record 60 [6]]"]
  by (simp add: last_id_def demo_entries_def demo_record_def new_record_def)

theorem since_entries_exact_witness:
  "since_entries demo_entries (Some 20) = drop 2 demo_entries"
  using since_entries_exact [OF demo_entries_ok(1), of 20 None "[]"]
  by (simp add: demo_entries_def demo_record_def new_record_def)

theorem compact_entries_correct_witness:
  "map raw_payload (compact_entries_to_latest_schema_and_metadata demo_entries (lit ''a'') 5) =
     [Some [4], None]"
  using compact_entries_correct [OF demo_entries_ok(2), of "lit ''a''" 5]
  by (simp add: demo_entries_def demo_record_def new_record_def latest_schema_def
      latest_metadata_def is_metadata_kind_def)

theorem realign_preserves_references_witness:
  "refid (realign_rebuild demo_entries ! 1) = Some 0"
proof -
  have "refid (realign_rebuild demo_entries ! 1) = Some (tx_id (realign_rebuild demo_entries ! 0))"
    using realign_preserves_references [OF demo_entries_ok(2), of 1] demo_entries_live(1,4) by force
  then show ?thesis
    using realign_preserves_references [OF demo_entries_ok(2), of 0] demo_entries_live(1) by simp
qed

theorem realign_erases_write_group_witness:
  "groupid (realign_rebuild demo_entries ! 1) = None"
  using realign_erases_write_group [OF _ demo_entries_live(2,3)] demo_entries_live(1) by simp

end
