(* ===== verification/WalWorker.thy ===== *)
theory WalWorker
  imports WalEntries
begin

text \<open>
  \<open>serverlib/src/engine/wal.rs\<close>, the worker of one stream: it owns the append handle, serves the
  commands \<open>Append\<close>, \<open>AppendBatch\<close> and \<open>CompactToLatestSchemaAndMetadata\<close>, persists to the file of
  the stream and updates the record vector. What the operating system does to a file is an argument,
  \<open>io_outcomes\<close>: whether an open or a sync succeeds, how many bytes a failing write leaves behind.
\<close>

section \<open>Files\<close>

text \<open>
  \<open>write_bytes\<close> replaces a file: it succeeds, or fails before the file is touched, or fails after
  the file was truncated and some bytes were written.
\<close>

datatype write_outcome = WriteOk | WriteOpenFails | WriteTorn nat

text \<open>Of a \<open>write_all\<close>, \<open>None\<close> is success and \<open>Some n\<close> a failure after \<open>n\<close> bytes.\<close>

record io_outcomes =
  io_inspect_ok :: bool
  io_init :: write_outcome
  io_spawn_open :: bool
  io_open1 :: bool
  io_write1 :: "nat option"
  io_sync1 :: bool
  io_open2 :: bool
  io_write2 :: "nat option"
  io_sync2 :: bool
  io_rewrite :: write_outcome
  io_rewrite_open :: bool
  io_rewrite_sync :: bool
  io_reopen :: bool
  io_remove :: bool
  io_load_open :: bool
  io_load_limit :: "nat option"

definition io_good :: io_outcomes where
  "io_good = \<lparr>io_inspect_ok = True, io_init = WriteOk, io_spawn_open = True, io_open1 = True,
     io_write1 = None, io_sync1 = True, io_open2 = True, io_write2 = None, io_sync2 = True,
     io_rewrite = WriteOk, io_rewrite_open = True, io_rewrite_sync = True, io_reopen = True,
     io_remove = True, io_load_open = True, io_load_limit = None\<rparr>"

type_synonym wal_file = "bytes option"

definition write_bytes :: "write_outcome \<Rightarrow> bytes \<Rightarrow> wal_file \<Rightarrow> bool \<times> wal_file" where
  "write_bytes outcome content f =
     (case outcome of
        WriteOk \<Rightarrow> (True, Some content)
      | WriteOpenFails \<Rightarrow> (False, f)
      | WriteTorn n \<Rightarrow> (False, Some (take n content)))"

definition ensure_wal_file :: "io_outcomes \<Rightarrow> wal_file \<Rightarrow> unit result \<times> wal_file" where
  "ensure_wal_file io f =
     (case f of
        Some existing \<Rightarrow>
          if \<not> io_inspect_ok io then (Err ''failed to inspect WAL file'', f)
          else (case verify_header Data existing of
                  Inl e \<Rightarrow> (Err ''invalid WAL file header/version'', f)
                | Inr v \<Rightarrow> (Ok (), f))
      | None \<Rightarrow>
          (case write_bytes (io_init io) (make_header Data) f of
             (True, f') \<Rightarrow> (Ok (), f')
           | (False, f') \<Rightarrow> (Err ''failed to initialize WAL file header'', f')))"

text \<open>Opening for append creates a missing file, empty.\<close>

definition file_bytes :: "wal_file \<Rightarrow> bytes" where
  "file_bytes f = (case f of None \<Rightarrow> [] | Some bs \<Rightarrow> bs)"

definition open_wal_append_file :: "bool \<Rightarrow> wal_file \<Rightarrow> bool \<times> wal_file" where
  "open_wal_append_file succeeds f = (if succeeds then (True, Some (file_bytes f)) else (False, f))"

definition append_wal_bytes ::
    "wal_env \<Rightarrow> io_outcomes \<Rightarrow> bool \<Rightarrow> wal_file \<Rightarrow> bytes \<Rightarrow> unit result \<times> bool \<times> wal_file" where
  "append_wal_bytes E io append_file f bs =
     (let (opened, f1) = (if append_file then (True, f) else open_wal_append_file (io_open1 io) f)
      in if \<not> opened then (Err ''failed to open WAL append file'', False, f1)
         else case io_write1 io of
                None \<Rightarrow>
                  if wal_sync_on_append E \<and> \<not> io_sync1 io
                  then (Err ''failed to sync WAL bytes to disk'', True, Some (file_bytes f1 @ bs))
                  else (Ok (), True, Some (file_bytes f1 @ bs))
              | Some n \<Rightarrow>
                  let torn = file_bytes f1 @ take n bs
                  in if \<not> io_open2 io then (Err ''failed to open WAL append file'', True, Some torn)
                     else case io_write2 io of
                            Some k \<Rightarrow> (Err ''failed to persist WAL bytes to disk'', True,
                                        Some (torn @ take k bs))
                          | None \<Rightarrow>
                              if wal_sync_on_append E \<and> \<not> io_sync2 io
                              then (Err ''failed to sync WAL bytes to disk'', True, Some (torn @ bs))
                              else (Ok (), True, Some (torn @ bs)))"

text \<open>The loop over the records of a batch or of a whole file.\<close>

fun frame_records ::
    "wal_env \<Rightarrow> TransactionPayloadContext \<Rightarrow> bytes \<Rightarrow> TransactionRecord list \<Rightarrow> bytes result" where
  "frame_records E c acc [] = Ok acc"
| "frame_records E c acc (r # rs) =
     try_bind (frame_record_with_context E c r) (\<lambda>frame. frame_records E c (acc @ frame) rs)"

definition rewrite_wal_file_with_context ::
    "wal_env \<Rightarrow> io_outcomes \<Rightarrow> TransactionPayloadContext \<Rightarrow> TransactionRecord list \<Rightarrow> wal_file \<Rightarrow>
     unit result \<times> wal_file" where
  "rewrite_wal_file_with_context E io c rs f =
     (case frame_records E c (make_header Data) rs of
        Inl e \<Rightarrow> (Err e, f)
      | Inr bs \<Rightarrow>
          (case write_bytes (io_rewrite io) bs f of
             (False, f') \<Rightarrow> (Err ''failed to rewrite compacted WAL file'', f')
           | (True, f') \<Rightarrow>
               if wal_sync_on_append E then
                 if \<not> io_rewrite_open io then (Err ''failed to reopen WAL file for sync'', f')
                 else if \<not> io_rewrite_sync io then (Err ''failed to sync rewritten WAL file'', f')
                 else (Ok (), f')
               else (Ok (), f')))"

definition rewrite_wal_file ::
    "wal_env \<Rightarrow> io_outcomes \<Rightarrow> TransactionRecord list \<Rightarrow> wal_file \<Rightarrow> unit result \<times> wal_file" where
  "rewrite_wal_file E io rs f = rewrite_wal_file_with_context E io default_context rs f"

section \<open>The worker\<close>

text \<open>
  The vector of the stream, whether the append handle is open, the file. \<open>durable\<close> below says
  whether the worker was started with a path.
\<close>

record wal_worker =
  wk_entries :: entries
  wk_append_file :: bool
  wk_file :: wal_file

definition spawn_worker :: "io_outcomes \<Rightarrow> bool \<Rightarrow> entries \<Rightarrow> wal_file \<Rightarrow> wal_worker" where
  "spawn_worker io durable es f =
     (if durable
      then let (res, f1) = ensure_wal_file io f; (opened, f2) = open_wal_append_file (io_spawn_open io) f1
           in \<lparr>wk_entries = es, wk_append_file = opened, wk_file = f2\<rparr>
      else \<lparr>wk_entries = es, wk_append_file = False, wk_file = f\<rparr>)"

text \<open>\<open>append_file = open_wal_append_file(path).ok()\<close> after a rewrite.\<close>

definition reopen :: "io_outcomes \<Rightarrow> wal_worker \<Rightarrow> wal_worker" where
  "reopen io w =
     (let (opened, f) = open_wal_append_file (io_reopen io) (wk_file w)
      in w\<lparr>wk_append_file := opened, wk_file := f\<rparr>)"

definition append_ordered ::
    "wal_env \<Rightarrow> io_outcomes \<Rightarrow> bool \<Rightarrow> TransactionPayloadContext \<Rightarrow> TransactionRecord \<Rightarrow> wal_worker \<Rightarrow>
     unit result \<times> wal_worker" where
  "append_ordered E io durable c r w =
     (if durable
      then case frame_record_with_context E c r of
             Inl e \<Rightarrow> (Err e, w)
           | Inr frame \<Rightarrow>
               (case append_wal_bytes E io (wk_append_file w) (wk_file w) frame of
                  (Inl e, h, f) \<Rightarrow>
                    (Err ''failed to persist WAL record to disk'', w\<lparr>wk_append_file := h, wk_file := f\<rparr>)
                | (Inr u, h, f) \<Rightarrow>
                    (Ok (), w\<lparr>wk_entries := wk_entries w @ [r], wk_append_file := h, wk_file := f\<rparr>))
      else (Ok (), w\<lparr>wk_entries := wk_entries w @ [r]\<rparr>))"

definition append_merged ::
    "wal_env \<Rightarrow> io_outcomes \<Rightarrow> bool \<Rightarrow> TransactionPayloadContext \<Rightarrow> TransactionRecord \<Rightarrow> wal_worker \<Rightarrow>
     unit result \<times> wal_worker" where
  "append_merged E io durable c r w =
     (let staged = merge_record (wk_entries w) r
      in if durable
         then case rewrite_wal_file_with_context E io c staged (wk_file w) of
                (Inl e, f) \<Rightarrow> (Err e, w\<lparr>wk_file := f\<rparr>)
              | (Inr u, f) \<Rightarrow> (Ok (), reopen io (w\<lparr>wk_entries := staged, wk_file := f\<rparr>))
         else (Ok (), w\<lparr>wk_entries := staged\<rparr>))"

definition handle_append ::
    "wal_env \<Rightarrow> io_outcomes \<Rightarrow> bool \<Rightarrow> TransactionPayloadContext \<Rightarrow> TransactionRecord \<Rightarrow> wal_worker \<Rightarrow>
     unit result \<times> wal_worker" where
  "handle_append E io durable c r w =
     (if is_ordered (wk_entries w) r then append_ordered E io durable c r w
      else if exact_record_duplicate_at_or_after (wk_entries w) r (base_pos (wk_entries w) r)
      then (Ok (), w)
      else append_merged E io durable c r w)"

definition batch_append_ordered ::
    "wal_env \<Rightarrow> io_outcomes \<Rightarrow> bool \<Rightarrow> TransactionPayloadContext \<Rightarrow> TransactionRecord list \<Rightarrow>
     wal_worker \<Rightarrow> unit result \<times> wal_worker" where
  "batch_append_ordered E io durable c rs w =
     (if durable
      then case frame_records E c [] rs of
             Inl e \<Rightarrow> (Err e, w)
           | Inr frames \<Rightarrow>
               (case append_wal_bytes E io (wk_append_file w) (wk_file w) frames of
                  (Inl e, h, f) \<Rightarrow>
                    (Err ''failed to persist WAL record batch to disk'',
                     w\<lparr>wk_append_file := h, wk_file := f\<rparr>)
                | (Inr u, h, f) \<Rightarrow>
                    (Ok (), w\<lparr>wk_entries := wk_entries w @ rs, wk_append_file := h, wk_file := f\<rparr>))
      else (Ok (), w\<lparr>wk_entries := wk_entries w @ rs\<rparr>))"

definition batch_append_merged ::
    "wal_env \<Rightarrow> io_outcomes \<Rightarrow> bool \<Rightarrow> TransactionPayloadContext \<Rightarrow> TransactionRecord list \<Rightarrow>
     wal_worker \<Rightarrow> unit result \<times> wal_worker" where
  "batch_append_merged E io durable c rs w =
     (let (staged, merged_out_of_order, staged_dirty) =
            foldl batch_merge_step (wk_entries w, False, False) rs
      in if durable
         then if staged_dirty
              then case rewrite_wal_file_with_context E io c staged (wk_file w) of
                     (Inl e, f) \<Rightarrow> (Err e, w\<lparr>wk_file := f\<rparr>)
                   | (Inr u, f) \<Rightarrow>
                       let w' = w\<lparr>wk_entries := staged, wk_file := f\<rparr>
                       in (Ok (), if merged_out_of_order then reopen io w' else w')
              else (Ok (), if merged_out_of_order then reopen io w else w)
         else (Ok (), w\<lparr>wk_entries := staged\<rparr>))"

definition handle_append_batch ::
    "wal_env \<Rightarrow> io_outcomes \<Rightarrow> bool \<Rightarrow> TransactionPayloadContext \<Rightarrow> TransactionRecord list \<Rightarrow>
     wal_worker \<Rightarrow> unit result \<times> wal_worker" where
  "handle_append_batch E io durable c rs w =
     (if rs = [] then (Ok (), w)
      else if batch_ordered (last_id (wk_entries w)) rs then batch_append_ordered E io durable c rs w
      else batch_append_merged E io durable c rs w)"

definition handle_compact ::
    "wal_env \<Rightarrow> io_outcomes \<Rightarrow> bool \<Rightarrow> ustr \<Rightarrow> u64 \<Rightarrow> wal_worker \<Rightarrow> unit result \<times> wal_worker" where
  "handle_compact E io durable who ts w =
     (let w1 = w\<lparr>wk_entries := compact_entries_to_latest_schema_and_metadata (wk_entries w) who ts\<rparr>
      in if durable
         then case rewrite_wal_file E io (wk_entries w1) (wk_file w1) of
                (Inl e, f) \<Rightarrow> (Err e, w1\<lparr>wk_file := f\<rparr>)
              | (Inr u, f) \<Rightarrow> (Ok (), reopen io (w1\<lparr>wk_file := f\<rparr>))
         else (Ok (), w1))"

section \<open>What is on disk\<close>

text \<open>
  A record and what replay makes of its stored form: the record without its shadow, or the same
  with an envelope in place of the payload. The envelope is the payload encrypted under one of the
  contexts \<open>C\<close> in use on the stream, and a read under that context gives the payload back.
\<close>

definition stored_as ::
    "wal_env \<Rightarrow> TransactionPayloadContext set \<Rightarrow> TransactionRecord \<Rightarrow> TransactionRecord \<Rightarrow> bool" where
  "stored_as E C r r' \<longleftrightarrow>
     r' = r\<lparr>payload_shadow := None\<rparr> \<or>
     (\<exists>c \<in> C. \<exists>p q. raw_payload r = Some p \<and> encrypt_row_payload E r c p = Ok q \<and>
        r' = r\<lparr>raw_payload := Some q, payload_shadow := None\<rparr> \<and>
        resolve_wal_storage_payload E (Some q) c = Ok (Some (Owned p)))"

lemma stored_as_id: "stored_as E C r r' \<Longrightarrow> tx_id r' = tx_id r"
  by (auto simp: stored_as_def)

definition durable_file ::
    "wal_env \<Rightarrow> TransactionPayloadContext set \<Rightarrow> entries \<Rightarrow> wal_file \<Rightarrow> bool" where
  "durable_file E C es f \<longleftrightarrow>
     (\<exists>rs fs. f = Some (make_header Data @ concat fs) \<and> list_all2 (persisted E) rs fs \<and>
        list_all2 (stored_as E C) es rs)"

text \<open>A record whose frame, if it can be made at all, is read back.\<close>

definition reads_back ::
    "wal_env \<Rightarrow> TransactionPayloadContext set \<Rightarrow> TransactionPayloadContext \<Rightarrow> TransactionRecord \<Rightarrow> bool" where
  "reads_back E C c r \<longleftrightarrow>
     (\<forall>bs. encode_record_for_storage_with_context E c r = Ok bs \<longrightarrow>
        (\<exists>r'. persisted E r' (to_le 8 (length bs) @ bs) \<and> stored_as E C r r'))"

text \<open>
  The records for which that is so: the encoded record and the envelope of a payload that gets
  encrypted are within what replay and bincode accept, nothing that is stored uncompressed starts
  like a zlib stream, and a payload that gets encrypted is not empty, is not itself read as an
  envelope and has a key with a name.
\<close>

definition storable :: "wal_env \<Rightarrow> TransactionPayloadContext \<Rightarrow> TransactionRecord \<Rightarrow> bool" where
  "storable E c r \<longleftrightarrow>
     (\<forall>bs. encode_record_for_storage_with_context E c r = Ok bs \<longrightarrow>
        length bs \<le> wal_max_frame_size_bytes E \<and> length bs \<le> MAX_DECODE_BYTES) \<and>
     (\<forall>p. raw_payload r = Some p \<longrightarrow>
        (should_skip_payload_compression E r p \<longrightarrow> \<not> looks_like_zlib_payload p) \<and>
        (\<forall>q. row_payload_encryption_write_transform E r p c = Ok (Some q) \<longrightarrow>
           p \<noteq> [] \<and> decode_encrypted_row_payload_envelope E p = Ok None \<and>
           encryption_key_ref c \<noteq> Some [] \<and>
           length q \<le> MAX_DECODE_BYTES \<and> \<not> looks_like_zlib_payload q))"

lemma storable_decodes:
  assumes ok: "wal_env_ok E" "crypto_env_ok E" and st: "storable E c r" and c: "c \<in> C"
    and enc: "encode_record_for_storage_with_context E c r = Ok bs"
  shows "\<exists>r'. decode_record_from_storage_with_context E default_context bs = Ok r' \<and> stored_as E C r r'"
proof (cases "\<exists>p q. raw_payload r = Some p \<and> row_payload_encryption_write_transform E r p c = Ok (Some q)")
  case True
  then obtain p q where p: "raw_payload r = Some p"
    and t: "row_payload_encryption_write_transform E r p c = Ok (Some q)" by blast
  with st have s: "p \<noteq> []" "decode_encrypted_row_payload_envelope E p = Ok None"
      "encryption_key_ref c \<noteq> Some []" "length q \<le> MAX_DECODE_BYTES" "\<not> looks_like_zlib_payload q"
    by (auto simp: storable_def)
  obtain k where k: "encryption_key_ref c = Some k"
    using t by (cases "encryption_key_ref c") (auto simp: row_payload_encryption_write_transform_def split: if_splits)
  with s have k': "k \<noteq> []" by simp
  have q: "encrypt_row_payload E r c p = Ok q"
    using t by (cases "encrypt_row_payload E r c p")
      (auto simp: row_payload_encryption_write_transform_def split: if_splits option.splits)
  have "length bs \<le> MAX_DECODE_BYTES" using st enc by (auto simp: storable_def)
  from decode_encode_encrypted [OF ok p s(1) t s(4,5) enc this] q p c
    resolve_encrypted_payload [OF ok(2) s(1) k k' s(2) q s(5,4)]
  show ?thesis by (auto simp: stored_as_def)
next
  case False
  have "row_payload_encryption_write_transform E r p c = Ok None" if p: "raw_payload r = Some p" for p
  proof (cases "row_payload_encryption_write_transform E r p c")
    case (Inl e)
    with enc p show ?thesis
      by (simp add: encode_record_for_storage_with_context_def write_wal_storage_payload_def
          write_payload_with_context_def chained_resolve_payload_def)
  next
    case (Inr t)
    with False p show ?thesis by (cases t) auto
  qed
  from decode_encode_plain [OF ok(1) this enc] st enc show ?thesis
    by (auto simp: storable_def stored_as_def)
qed

lemma storable_reads_back:
  assumes "wal_env_ok E" "crypto_env_ok E" "storable E c r" "c \<in> C"
  shows "reads_back E C c r"
proof -
  have "MAX_DECODE_BYTES < 2 ^ 64" by (simp add: MAX_DECODE_BYTES_def)
  then have "length bs < 2 ^ 64 \<and> length bs \<le> wal_max_frame_size_bytes E"
    if "encode_record_for_storage_with_context E c r = Ok bs" for bs
    using assms(3) that by (fastforce simp: storable_def)
  with storable_decodes [OF assms] show ?thesis
    unfolding reads_back_def persisted_def by blast
qed

lemma durable_file_load:
  assumes "durable_file E C es f"
  shows "list_all2 (stored_as E C) es (load_records_from_path E f)"
proof -
  obtain rs fs where f: "f = Some (make_header Data @ concat fs)" "list_all2 (persisted E) rs fs"
      "list_all2 (stored_as E C) es rs"
    using assms by (auto simp: durable_file_def)
  then show ?thesis
    using reader_persisted [OF f(2), of "[]"] by (simp add: load_header reader_short)
qed

lemma frame_records_concat:
  "frame_records E c acc rs = Ok out \<Longrightarrow>
     \<exists>fs. out = acc @ concat fs \<and> list_all2 (\<lambda>r f. frame_record_with_context E c r = Ok f) rs fs"
proof (induction rs arbitrary: acc)
  case (Cons r rs)
  then obtain f where f: "frame_record_with_context E c r = Ok f"
    and "frame_records E c (acc @ f) rs = Ok out"
    by (cases "frame_record_with_context E c r") auto
  with Cons.IH obtain fs where "out = (acc @ f) @ concat fs"
      "list_all2 (\<lambda>r f. frame_record_with_context E c r = Ok f) rs fs" by blast
  with f show ?case by (intro exI [of _ "f # fs"]) simp
qed simp

lemma reads_back_frame:
  assumes "reads_back E C c r" and "frame_record_with_context E c r = Ok f"
  shows "\<exists>r'. persisted E r' f \<and> stored_as E C r r'"
  using assms by (cases "encode_record_for_storage_with_context E c r")
    (auto simp: reads_back_def frame_record_with_context_def)

lemma reads_back_frames:
  assumes "\<forall>r \<in> set rs. reads_back E C c r"
    and "list_all2 (\<lambda>r f. frame_record_with_context E c r = Ok f) rs fs"
  shows "\<exists>rs'. list_all2 (persisted E) rs' fs \<and> list_all2 (stored_as E C) rs rs'"
  using assms(2,1)
proof (induction rule: list_all2_induct)
  case (Cons r rs f fs)
  then obtain rs' where "list_all2 (persisted E) rs' fs" "list_all2 (stored_as E C) rs rs'" by auto
  moreover obtain r' where "persisted E r' f" "stored_as E C r r'"
    using reads_back_frame [of E C c r f] Cons by auto
  ultimately show ?case by (intro exI [of _ "r' # rs'"]) simp
qed simp

lemma durable_file_extend:
  assumes "durable_file E C es f" and "frame_records E c [] rs = Ok out" and "\<forall>r \<in> set rs. reads_back E C c r"
  shows "durable_file E C (es @ rs) (Some (file_bytes f @ out))"
proof -
  obtain ps fs where f: "f = Some (make_header Data @ concat fs)" "list_all2 (persisted E) ps fs"
      "list_all2 (stored_as E C) es ps"
    using assms(1) by (auto simp: durable_file_def)
  obtain gs where gs: "out = concat gs" "list_all2 (\<lambda>r f. frame_record_with_context E c r = Ok f) rs gs"
    using frame_records_concat [OF assms(2)] by fastforce
  obtain qs where "list_all2 (persisted E) qs gs" "list_all2 (stored_as E C) rs qs"
    using reads_back_frames [OF assms(3) gs(2)] by blast
  with f gs show ?thesis
    unfolding durable_file_def
    by (intro exI [of _ "ps @ qs"] exI [of _ "fs @ gs"]) (simp add: file_bytes_def list_all2_appendI)
qed

lemma durable_file_rewrite:
  assumes "rewrite_wal_file_with_context E io c rs f = (Ok u, f')" and "\<forall>r \<in> set rs. reads_back E C c r"
  shows "durable_file E C rs f'"
proof -
  obtain out where out: "frame_records E c (make_header Data) rs = Ok out"
    using assms(1) by (cases "frame_records E c (make_header Data) rs")
      (auto simp: rewrite_wal_file_with_context_def)
  with assms(1) have f': "f' = Some out"
    by (cases "io_rewrite io")
      (simp_all add: rewrite_wal_file_with_context_def write_bytes_def split: if_splits)
  obtain gs where gs: "out = make_header Data @ concat gs"
      "list_all2 (\<lambda>r f. frame_record_with_context E c r = Ok f) rs gs"
    using frame_records_concat [OF out] by blast
  with reads_back_frames [OF assms(2) gs(2)] f' show ?thesis unfolding durable_file_def by blast
qed

lemma reopen_entries [simp]: "wk_entries (reopen io w) = wk_entries w"
  by (simp add: reopen_def open_wal_append_file_def)

lemma durable_file_reopen:
  assumes "durable_file E C es (wk_file w)"
  shows "durable_file E C es (wk_file (reopen io w))"
proof -
  from assms obtain bs where "wk_file w = Some bs" unfolding durable_file_def by blast
  then have "wk_file (reopen io w) = wk_file w"
    by (simp add: reopen_def open_wal_append_file_def file_bytes_def)
  with assms show ?thesis by simp
qed

section \<open>Acknowledged appends are durable\<close>

lemma append_wal_bytes_clean:
  assumes "append_wal_bytes E io h f bs = (Ok u, h', f')" and "io_write1 io = None"
  shows "f' = Some (file_bytes f @ bs)"
  using assms by (cases h; cases "io_open1 io")
    (auto simp: append_wal_bytes_def open_wal_append_file_def file_bytes_def split: if_splits)

lemma append_ordered_durable:
  assumes "append_ordered E io True c r w = (Ok u, w')" and "io_write1 io = None"
    and "durable_file E C (wk_entries w) (wk_file w)" and "reads_back E C c r"
  shows "durable_file E C (wk_entries w') (wk_file w') \<and> wk_entries w' = wk_entries w @ [r]"
proof -
  obtain frame where fr: "frame_record_with_context E c r = Ok frame"
    using assms(1) by (cases "frame_record_with_context E c r") (auto simp: append_ordered_def)
  obtain res h f where a: "append_wal_bytes E io (wk_append_file w) (wk_file w) frame = (res, h, f)"
    by (rule prod_cases3)
  with assms(1) fr obtain v where res: "res = Ok v"
    by (cases res) (auto simp: append_ordered_def)
  with a assms(1) fr have w': "w' = w\<lparr>wk_entries := wk_entries w @ [r], wk_append_file := h, wk_file := f\<rparr>"
    by (simp add: append_ordered_def)
  have "f = Some (file_bytes (wk_file w) @ frame)"
    using append_wal_bytes_clean [OF a [unfolded res] assms(2)] .
  moreover have "durable_file E C (wk_entries w @ [r]) (Some (file_bytes (wk_file w) @ frame))"
    using fr assms(4) by (intro durable_file_extend [OF assms(3), of c]) simp_all
  ultimately show ?thesis by (simp add: w')
qed

lemma append_merged_durable:
  assumes "append_merged E io True c r w = (Ok u, w')"
    and "\<forall>x \<in> set (merge_record (wk_entries w) r). reads_back E C c x"
  shows "durable_file E C (wk_entries w') (wk_file w') \<and> wk_entries w' = merge_record (wk_entries w) r"
proof -
  let ?staged = "merge_record (wk_entries w) r"
  obtain res f where rw: "rewrite_wal_file_with_context E io c ?staged (wk_file w) = (res, f)"
    by (rule prod.exhaust)
  with assms(1) obtain v where res: "res = Ok v" by (cases res) (auto simp: append_merged_def)
  with rw assms(1) have w': "w' = reopen io (w\<lparr>wk_entries := ?staged, wk_file := f\<rparr>)"
    by (simp add: append_merged_def)
  have "durable_file E C ?staged f" by (rule durable_file_rewrite [OF rw [unfolded res] assms(2)])
  then show ?thesis by (simp add: w' durable_file_reopen)
qed

lemma handle_append_durable:
  assumes "handle_append E io True c r w = (Ok u, w')" and "io_write1 io = None"
    and "durable_file E C (wk_entries w) (wk_file w)"
    and "\<forall>x \<in> set (append_entries (wk_entries w) r). reads_back E C c x"
  shows "durable_file E C (wk_entries w') (wk_file w') \<and> wk_entries w' = append_entries (wk_entries w) r"
proof (cases "is_ordered (wk_entries w) r")
  case True
  with assms append_ordered_durable [of E io c r w u w' C] show ?thesis
    by (auto simp: handle_append_def append_entries_def)
next
  case False
  with assms append_merged_durable [of E io c r w u w' C] show ?thesis
    by (auto simp: handle_append_def append_entries_def split: if_splits)
qed

lemma batch_append_ordered_durable:
  assumes "batch_append_ordered E io True c rs w = (Ok u, w')" and "io_write1 io = None"
    and "durable_file E C (wk_entries w) (wk_file w)" and "\<forall>r \<in> set rs. reads_back E C c r"
  shows "durable_file E C (wk_entries w') (wk_file w') \<and> wk_entries w' = wk_entries w @ rs"
proof -
  obtain frames where fr: "frame_records E c [] rs = Ok frames"
    using assms(1) by (cases "frame_records E c [] rs") (auto simp: batch_append_ordered_def)
  obtain res h f where a: "append_wal_bytes E io (wk_append_file w) (wk_file w) frames = (res, h, f)"
    by (rule prod_cases3)
  with assms(1) fr obtain v where res: "res = Ok v"
    by (cases res) (auto simp: batch_append_ordered_def)
  with a assms(1) fr have w': "w' = w\<lparr>wk_entries := wk_entries w @ rs, wk_append_file := h, wk_file := f\<rparr>"
    by (simp add: batch_append_ordered_def)
  have "f = Some (file_bytes (wk_file w) @ frames)"
    using append_wal_bytes_clean [OF a [unfolded res] assms(2)] .
  moreover have "durable_file E C (wk_entries w @ rs) (Some (file_bytes (wk_file w) @ frames))"
    using fr assms(4) by (intro durable_file_extend [OF assms(3)])
  ultimately show ?thesis by (simp add: w')
qed

lemma batch_append_merged_durable:
  assumes "batch_append_merged E io True c rs w = (Ok u, w')"
    and "durable_file E C (wk_entries w) (wk_file w)"
    and "\<forall>x \<in> set (foldl append_entries (wk_entries w) rs). reads_back E C c x"
  shows "durable_file E C (wk_entries w') (wk_file w') \<and>
         wk_entries w' = foldl append_entries (wk_entries w) rs"
proof -
  obtain staged m d where st: "foldl batch_merge_step (wk_entries w, False, False) rs = (staged, m, d)"
    by (rule prod_cases3)
  with batch_merge_entries [of "wk_entries w" False False rs]
  have staged: "staged = foldl append_entries (wk_entries w) rs" by simp
  show ?thesis
  proof (cases d)
    case True
    obtain res f where rw: "rewrite_wal_file_with_context E io c staged (wk_file w) = (res, f)"
      by (rule prod.exhaust)
    with assms(1) st True obtain v where res: "res = Ok v"
      by (cases res) (auto simp: batch_append_merged_def)
    have "durable_file E C staged f"
      using assms(3) by (intro durable_file_rewrite [OF rw [unfolded res]]) (simp add: staged)
    with rw res assms(1) st True staged show ?thesis
      by (cases m) (auto simp: batch_append_merged_def Let_def durable_file_reopen)
  next
    case False
    with batch_merge_clean [OF st] have "staged = wk_entries w" "\<not> m" by simp_all
    with assms(1,2) st False staged show ?thesis by (simp add: batch_append_merged_def)
  qed
qed

lemma handle_append_batch_durable:
  assumes "handle_append_batch E io True c rs w = (Ok u, w')" and "io_write1 io = None"
    and "durable_file E C (wk_entries w) (wk_file w)"
    and "\<forall>x \<in> set (foldl append_entries (wk_entries w) rs). reads_back E C c x"
  shows "durable_file E C (wk_entries w') (wk_file w') \<and>
         wk_entries w' = foldl append_entries (wk_entries w) rs"
proof (cases "batch_ordered (last_id (wk_entries w)) rs")
  case True
  then have "foldl append_entries (wk_entries w) rs = wk_entries w @ rs" by (rule batch_ordered_append)
  with True assms batch_append_ordered_durable [of E io c rs w u w' C] show ?thesis
    by (cases "rs = []") (auto simp: handle_append_batch_def)
next
  case False
  with assms batch_append_merged_durable [of E io c rs w u w' C] show ?thesis
    by (cases "rs = []") (auto simp: handle_append_batch_def)
qed

lemma handle_compact_durable:
  assumes "handle_compact E io True who ts w = (Ok u, w')"
    and "\<forall>x \<in> set (compact_entries_to_latest_schema_and_metadata (wk_entries w) who ts).
           reads_back E C default_context x"
  shows "durable_file E C (wk_entries w') (wk_file w') \<and>
         wk_entries w' = compact_entries_to_latest_schema_and_metadata (wk_entries w) who ts"
proof -
  let ?es = "compact_entries_to_latest_schema_and_metadata (wk_entries w) who ts"
  obtain res f where rw: "rewrite_wal_file_with_context E io default_context ?es (wk_file w) = (res, f)"
    by (rule prod.exhaust)
  with assms(1) obtain v where res: "res = Ok v"
    by (cases res) (auto simp: handle_compact_def rewrite_wal_file_def)
  with rw assms(1) have w': "w' = reopen io (w\<lparr>wk_entries := ?es, wk_file := f\<rparr>)"
    by (simp add: handle_compact_def rewrite_wal_file_def)
  have "durable_file E C ?es f" by (rule durable_file_rewrite [OF rw [unfolded res] assms(2)])
  then show ?thesis by (simp add: w' durable_file_reopen)
qed


text \<open>
  C4. Acknowledged means recoverable: let the worker of a durable stream, whose file holds the
  stream, acknowledge a record whose first write to the file succeeded. Then loading the file gives,
  record by record, the stream as it is in memory after the append. A record comes back as it was,
  or with its payload encrypted under a context that decrypts it. The records of the stream must be
  within the frame and decode limits; what is stored uncompressed must not start like a zlib stream;
  a payload that gets encrypted must not be empty nor be read as an envelope itself, and its key
  must have a name.
\<close>

theorem acknowledged_append_recovered:
  assumes "wal_env_ok E" and "crypto_env_ok E"
    and "handle_append E io True c r w = (Ok (), w')" and "io_write1 io = None"
    and "durable_file E C (wk_entries w) (wk_file w)" and "c \<in> C"
    and "\<forall>x \<in> set (append_entries (wk_entries w) r). storable E c x"
  shows "list_all2 (stored_as E C) (append_entries (wk_entries w) r)
           (load_records_from_path E (wk_file w'))"
proof -
  have "\<forall>x \<in> set (append_entries (wk_entries w) r). reads_back E C c x"
    using assms(7) storable_reads_back [OF assms(1,2) _ assms(6)] by blast
  from handle_append_durable [OF assms(3-5) this] durable_file_load [of E C "wk_entries w'" "wk_file w'"]
  show ?thesis by auto
qed

text \<open>
  C17. The same for batches, on the fast path and on the merge path, under the same conditions on
  the first write and on the records: an acknowledged batch is recovered as the stream with its
  records appended one by one.
\<close>

theorem acknowledged_batch_recovered:
  assumes "wal_env_ok E" and "crypto_env_ok E"
    and "handle_append_batch E io True c rs w = (Ok (), w')" and "io_write1 io = None"
    and "durable_file E C (wk_entries w) (wk_file w)" and "c \<in> C"
    and "\<forall>x \<in> set (foldl append_entries (wk_entries w) rs). storable E c x"
  shows "list_all2 (stored_as E C) (foldl append_entries (wk_entries w) rs)
           (load_records_from_path E (wk_file w'))"
proof -
  have "\<forall>x \<in> set (foldl append_entries (wk_entries w) rs). reads_back E C c x"
    using assms(7) storable_reads_back [OF assms(1,2) _ assms(6)] by blast
  from handle_append_batch_durable [OF assms(3-5) this]
    durable_file_load [of E C "wk_entries w'" "wk_file w'"]
  show ?thesis by auto
qed

section \<open>Rejected appends\<close>

lemma append_ordered_rejected: "append_ordered E io d c r w = (Err e, w') \<Longrightarrow> wk_entries w' = wk_entries w"
  by (auto simp: append_ordered_def split: sum.splits prod.splits if_splits)

lemma append_merged_rejected: "append_merged E io d c r w = (Err e, w') \<Longrightarrow> wk_entries w' = wk_entries w"
  by (auto simp: append_merged_def Let_def split: sum.splits prod.splits if_splits)

lemma batch_append_ordered_rejected:
  "batch_append_ordered E io d c rs w = (Err e, w') \<Longrightarrow> wk_entries w' = wk_entries w"
  by (auto simp: batch_append_ordered_def split: sum.splits prod.splits if_splits)

lemma batch_append_merged_rejected:
  "batch_append_merged E io d c rs w = (Err e, w') \<Longrightarrow> wk_entries w' = wk_entries w"
  by (auto simp: batch_append_merged_def Let_def split: sum.splits prod.splits if_splits)

text \<open>
  A rejected append or batch leaves the stream in memory as it was, whatever failed: framing,
  opening, writing, syncing or rewriting.
\<close>

theorem rejected_append_keeps_entries:
  assumes "handle_append E io d c r w = (Err e, w') \<or> handle_append_batch E io d c rs w = (Err e, w')"
  shows "wk_entries w' = wk_entries w"
  using assms append_ordered_rejected [of E io d c r w e w'] append_merged_rejected [of E io d c r w e w']
    batch_append_ordered_rejected [of E io d c rs w e w'] batch_append_merged_rejected [of E io d c rs w e w']
  by (auto simp: handle_append_def handle_append_batch_def split: if_splits)

section \<open>Failures of the storage protocol\<close>

text \<open>
  C34. The worker does not check the size that replay accepts: behind a frame that is too large,
  which the worker writes and acknowledges like any other, replay finds nothing any more, neither
  that record nor any later one.
\<close>

theorem oversized_frame_hides_later_records:
  assumes "list_all2 (persisted E) rs fs"
    and "wal_max_frame_size_bytes E < length enc" and "length enc < 2 ^ 64"
  shows "load_records_from_path E
           (Some (make_header Data @ concat fs @ (to_le 8 (length enc) @ enc) @ tail)) = rs"
proof -
  have "decode_records_from_reader E default_context (to_le 8 (length enc) @ enc @ tail) = []"
    using assms(2,3) by (subst decode_records_from_reader.simps) (simp add: length_le8)
  then show ?thesis using reader_persisted [OF assms(1)] by (simp add: load_header)
qed

text \<open>
  C39. The retry of a write that failed in the middle is not recoverable. Let the first write of an
  ordered record stop after \<open>n\<close> bytes, inside the encoded record, and let the second attempt
  succeed: it appends the whole frame behind the torn one. The record is acknowledged and is in the
  stream in memory. Unless the spliced bytes happen to decode, a reload gives the records from
  before it only, whatever is appended later.
\<close>

theorem retried_append_lost:
  assumes "list_all2 (persisted E) rs fs" and "wk_file w = Some (make_header Data @ concat fs)"
    and "is_ordered (wk_entries w) r"
    and "encode_record_for_storage_with_context E c r = Ok enc" and "length enc < 2 ^ 64"
    and "wk_append_file w \<or> io_open1 io" and "io_write1 io = Some n" and "8 \<le> n" and "n < 8 + length enc"
    and "io_open2 io" and "io_write2 io = None" and "io_sync2 io"
    and "decode_record_from_storage_with_context E default_context
           (take (n - 8) enc @ take (length enc - (n - 8)) (to_le 8 (length enc) @ enc)) = Err e"
  shows "\<exists>w' bs. handle_append E io True c r w = (Ok (), w') \<and> wk_entries w' = wk_entries w @ [r] \<and>
           wk_file w' = Some bs \<and> load_records_from_path E (Some (bs @ tail)) = rs"
proof -
  let ?fr = "to_le 8 (length enc) @ enc"
  let ?bs = "make_header Data @ concat fs @ take n ?fr @ ?fr"
  have "take (length enc) (take (n - 8) enc @ fr @ tail) = take (n - 8) enc @ take (length enc - (n - 8)) fr"
    if "length enc \<le> length fr" for fr :: bytes
    using assms(8,9) that by (simp add: min_def)
  from this [of ?fr]
  have "take (length enc) (take (n - 8) enc @ ?fr @ tail) =
      take (n - 8) enc @ take (length enc - (n - 8)) ?fr" by simp
  then have "decode_records_from_reader E default_context (take n ?fr @ ?fr @ tail) = []"
    using assms(5,8,9,13)
    by (subst decode_records_from_reader.simps) (simp add: Let_def length_le8)
  then have load: "load_records_from_path E (Some (?bs @ tail)) = rs"
    using reader_persisted [OF assms(1), of "take n ?fr @ ?fr @ tail"] by (simp add: load_header)
  have "append_wal_bytes E io (wk_append_file w) (wk_file w) ?fr = (Ok (), True, Some ?bs)"
    using assms by (auto simp: append_wal_bytes_def open_wal_append_file_def file_bytes_def Let_def)
  with assms(3,4) have "handle_append E io True c r w =
      (Ok (), w\<lparr>wk_entries := wk_entries w @ [r], wk_append_file := True, wk_file := Some ?bs\<rparr>)"
    by (simp add: handle_append_def append_ordered_def frame_record_with_context_def)
  with load show ?thesis by simp
qed


text \<open>
  Compaction changes the stream in memory before the file: when the file cannot be opened for
  the rewrite, the command fails, but the records in memory are the compacted ones and the file
  still holds all of them.
\<close>

theorem failed_compaction_changes_memory:
  assumes "frame_records E default_context (make_header Data)
             (compact_entries_to_latest_schema_and_metadata (wk_entries w) who ts) = Ok bs"
    and "io_rewrite io = WriteOpenFails"
  shows "\<exists>e w'. handle_compact E io True who ts w = (Err e, w') \<and> wk_file w' = wk_file w \<and>
           wk_entries w' = compact_entries_to_latest_schema_and_metadata (wk_entries w) who ts"
  using assms by (simp add: handle_compact_def rewrite_wal_file_def rewrite_wal_file_with_context_def
      write_bytes_def)

section \<open>Concrete instances\<close>

definition demo_worker :: wal_worker where
  "demo_worker = \<lparr>wk_entries = [], wk_append_file = True, wk_file = Some (make_header Data)\<rparr>"

lemma demo_worker_durable: "durable_file E C (wk_entries demo_worker) (wk_file demo_worker)"
  unfolding durable_file_def by (intro exI [of _ "[]"]) (simp add: demo_worker_def)

lemma demo_storable: "storable (table_env demo_table) default_context (demo_record 1 [1, 2, 3])"
proof -
  have "raw_payload (demo_record 1 [1, 2, 3]) = Some [1, 2, 3]" by (simp add: demo_record_def new_record_def)
  then show ?thesis
    by (simp add: storable_def demo_plain_encoded no_key_no_encryption MAX_DECODE_BYTES_def
        demo_plain_not_skipped)
qed

lemma demo_encrypted_storable: "storable (table_env demo_table) demo_key_context (demo_record 2 [4, 5])"
proof -
  let ?q = "to_le 4 5 @ replicate 12 7 @ replicate 16 0 @ [4, 5] :: bytes"
  have "row_payload_encryption_write_transform (table_env demo_table) (demo_record 2 [4, 5]) [4, 5]
      demo_key_context = Ok (Some ?q)"
    using demo_encrypted [of demo_table]
    by (simp add: row_payload_encryption_write_transform_def looks_like_encrypted_row_payload_def
        demo_envelope demo_key_context_def demo_record_def new_record_def)
  moreover have "raw_payload (demo_record 2 [4, 5]) = Some [4, 5]"
    by (simp add: demo_record_def new_record_def)
  moreover have "\<not> looks_like_zlib_payload [4, 5]" by (simp add: looks_like_zlib_payload_def)
  moreover have "encryption_key_ref demo_key_context \<noteq> Some []" by (simp add: demo_key_context_def lit_def)
  ultimately show ?thesis
    using demo_not_zlib [of "replicate 12 7 @ replicate 16 0 @ [4, 5]"]
    by (simp add: storable_def demo_encrypted_encoded demo_envelope MAX_DECODE_BYTES_def)
qed

lemma demo_frame:
  "frame_record_with_context (table_env demo_table) default_context (demo_record 1 [1, 2, 3]) =
     Ok (to_le 8 1 @ [0])"
  by (simp add: frame_record_with_context_def demo_plain_encoded)

lemma demo_handle_append:
  "handle_append (table_env demo_table) io_good True default_context (demo_record 1 [1, 2, 3]) demo_worker =
     (Ok (), demo_worker\<lparr>wk_entries := [demo_record 1 [1, 2, 3]],
               wk_file := Some (make_header Data @ to_le 8 1 @ [0])\<rparr>)"
  by (simp add: handle_append_def is_ordered_def append_ordered_def demo_frame append_wal_bytes_def
      io_good_def file_bytes_def demo_worker_def)

lemma demo_handle_append_batch:
  "handle_append_batch (table_env demo_table) io_good True default_context [demo_record 1 [1, 2, 3]] demo_worker =
     (Ok (), demo_worker\<lparr>wk_entries := [demo_record 1 [1, 2, 3]],
               wk_file := Some (make_header Data @ to_le 8 1 @ [0])\<rparr>)"
  by (simp add: handle_append_batch_def last_id_def batch_append_ordered_def demo_frame
      append_wal_bytes_def io_good_def file_bytes_def demo_worker_def)

lemma demo_append_entries: "append_entries (wk_entries demo_worker) r = [r]"
  by (simp add: append_entries_def is_ordered_def demo_worker_def)

lemma demo_handle_append_encrypted:
  "handle_append (table_env demo_table) io_good True demo_key_context (demo_record 2 [4, 5]) demo_worker =
     (Ok (), demo_worker\<lparr>wk_entries := [demo_record 2 [4, 5]],
               wk_file := Some (make_header Data @ to_le 8 1 @ [1])\<rparr>)"
  by (simp add: handle_append_def is_ordered_def append_ordered_def frame_record_with_context_def
      demo_encrypted_encoded append_wal_bytes_def io_good_def file_bytes_def demo_worker_def)

theorem acknowledged_append_recovered_witness:
  "list_all2 (stored_as (table_env demo_table) {demo_key_context}) [demo_record 2 [4, 5]]
     (load_records_from_path (table_env demo_table) (Some (make_header Data @ to_le 8 1 @ [1])))"
  using acknowledged_append_recovered [OF table_env_ok table_crypto_ok demo_handle_append_encrypted _
      demo_worker_durable, of "{demo_key_context}"] demo_encrypted_storable
  by (simp add: demo_append_entries io_good_def)

theorem acknowledged_batch_recovered_witness:
  "list_all2 (stored_as (table_env demo_table) {default_context}) [demo_record 1 [1, 2, 3]]
     (load_records_from_path (table_env demo_table) (Some (make_header Data @ to_le 8 1 @ [0])))"
  using acknowledged_batch_recovered [OF table_env_ok table_crypto_ok demo_handle_append_batch _
      demo_worker_durable, of "{default_context}"] demo_storable
  by (simp add: demo_append_entries io_good_def)

lemma demo_single_encoded:
  "encode_record_for_storage_with_context (table_env [demo_record 1 [0x78, 0x9c, 1, 2, 3]]) default_context
     (demo_record 1 [1, 2, 3]) = Ok [0]"
  by (simp add: demo_encode_simps) (simp add: demo_table_simps)

theorem retried_append_lost_witness:
  "\<exists>w' bs. handle_append (table_env [demo_record 1 [0x78, 0x9c, 1, 2, 3]])
       (io_good\<lparr>io_write1 := Some 8\<rparr>) True default_context (demo_record 1 [1, 2, 3]) demo_worker = (Ok (), w') \<and>
     wk_entries w' = [demo_record 1 [1, 2, 3]] \<and> wk_file w' = Some bs \<and>
     load_records_from_path (table_env [demo_record 1 [0x78, 0x9c, 1, 2, 3]]) (Some (bs @ [1, 2])) = []"
proof -
  have "decode_record_from_storage_with_context (table_env [demo_record 1 [0x78, 0x9c, 1, 2, 3]]) default_context
      (take (8 - 8) [0] @ take (length [0 :: byte] - (8 - 8)) (to_le 8 (length [0 :: byte]) @ [0])) =
    Err ''failed to deserialize WAL record''"
    by (simp add: to_le_numeral decode_record_from_storage_with_context_def table_env_def)
  from retried_append_lost [of _ "[]" "[]" demo_worker, OF _ _ _ demo_single_encoded _ _ _ _ _ _ _ _ this,
      of "io_good\<lparr>io_write1 := Some 8\<rparr>" "[1, 2]"]
  show ?thesis by (simp add: demo_worker_def io_good_def is_ordered_def)
qed

theorem rejected_append_keeps_entries_witness:
  "wk_entries (snd (handle_append (table_env demo_table) (io_good\<lparr>io_sync1 := False\<rparr>) True default_context
     (demo_record 1 [1, 2, 3]) demo_worker)) = []"
proof -
  have eq: "handle_append (table_env demo_table) (io_good\<lparr>io_sync1 := False\<rparr>) True default_context
      (demo_record 1 [1, 2, 3]) demo_worker =
    (Err ''failed to persist WAL record to disk'',
     demo_worker\<lparr>wk_file := Some (make_header Data @ to_le 8 1 @ [0])\<rparr>)"
    by (simp add: handle_append_def is_ordered_def append_ordered_def demo_frame append_wal_bytes_def
        io_good_def file_bytes_def demo_worker_def)
  from rejected_append_keeps_entries [OF disjI1 [OF eq]] show ?thesis
    unfolding eq by (simp add: demo_worker_def)
qed

theorem oversized_frame_hides_later_records_witness:
  "load_records_from_path ((table_env demo_table)\<lparr>wal_max_frame_size_bytes := 0\<rparr>)
     (Some (make_header Data @ (to_le 8 1 @ [0]) @ to_le 8 1 @ [0])) = []"
  using oversized_frame_hides_later_records [of "(table_env demo_table)\<lparr>wal_max_frame_size_bytes := 0\<rparr>"
      "[]" "[]" "[0]" "to_le 8 1 @ [0]"] by simp


theorem failed_compaction_changes_memory_witness:
  "\<exists>e w'. handle_compact (table_env demo_table) (io_good\<lparr>io_rewrite := WriteOpenFails\<rparr>) True
       (lit ''t'') 5 demo_worker = (Err e, w') \<and>
     wk_file w' = wk_file demo_worker \<and>
     wk_entries w' = [without_payload 0 None None 5 (lit ''t'') Truncate]"
proof -
  have compacted: "compact_entries_to_latest_schema_and_metadata (wk_entries demo_worker) (lit ''t'') 5 =
      [without_payload 0 None None 5 (lit ''t'') Truncate]"
    by (simp add: compact_entries_to_latest_schema_and_metadata_def demo_worker_def renumber_def
        without_payload_def new_record_def)
  then have "frame_records (table_env demo_table) default_context (make_header Data)
      (compact_entries_to_latest_schema_and_metadata (wk_entries demo_worker) (lit ''t'') 5) =
    Ok (make_header Data @ to_le 8 1 @ [3])"
    by (simp add: frame_record_with_context_def demo_truncate_encoded)
  from failed_compaction_changes_memory [OF this, of "io_good\<lparr>io_rewrite := WriteOpenFails\<rparr>"]
  show ?thesis by (simp add: compacted)
qed

end
