(* ===== verification/WalManager.thy ===== *)
theory WalManager
  imports WalWorker
begin

text \<open>
  \<open>serverlib/src/engine/wal.rs\<close>, \<open>ConcurrentWalManager\<close>: streams by obfuscated key, lazy loading from
  disk, worker threads, stream modes, the write high water and the operations of the trait
  \<open>TransactionLog\<close>. A call is one step: the callers wait for the acknowledgement of the worker, which
  serves its commands in order. Poisoned mutexes are not modelled; the files of the data directory
  are part of the state.
\<close>

datatype WalStreamMode = Durable | Ephemeral

text \<open>
  What the manager and a worker thread keep of the worker: whether it was started with a path,
  whether its append handle is open, whether it still receives.
\<close>

record worker_thread =
  th_durable :: bool
  th_append_file :: bool
  th_alive :: bool

record ConcurrentWalManager =
  workers :: "ustr \<rightharpoonup> worker_thread"
  storage :: "ustr \<rightharpoonup> entries"
  write_high_water_by_stream :: "ustr \<rightharpoonup> u64"
  stream_modes :: "ustr \<rightharpoonup> WalStreamMode"
  data_dir :: "ustr option"
  files :: "ustr \<rightharpoonup> bytes"

definition in_memory :: ConcurrentWalManager where
  "in_memory = \<lparr>workers = Map.empty, storage = Map.empty, write_high_water_by_stream = Map.empty,
     stream_modes = Map.empty, data_dir = None, files = Map.empty\<rparr>"

definition with_data_dir :: "ustr \<Rightarrow> (ustr \<rightharpoonup> bytes) \<Rightarrow> ConcurrentWalManager" where
  "with_data_dir dir disk = \<lparr>workers = Map.empty, storage = Map.empty,
     write_high_water_by_stream = Map.empty, stream_modes = Map.empty, data_dir = Some dir, files = disk\<rparr>"

section \<open>Keys, modes, high water\<close>

definition obfuscated_stream_key :: "wal_env \<Rightarrow> ustr \<Rightarrow> ustr result" where
  "obfuscated_stream_key E wal_id =
     (let normalized = to_ascii_lowercase (trim wal_id)
      in if normalized = [] then Err ''wal_id must not be empty''
         else Ok (stable_id (md5_hex E) [normalized]))"

definition mode_of_key :: "ConcurrentWalManager \<Rightarrow> ustr \<Rightarrow> WalStreamMode" where
  "mode_of_key m key = (case stream_modes m key of Some mode \<Rightarrow> mode | None \<Rightarrow> Durable)"

definition stream_mode :: "wal_env \<Rightarrow> ConcurrentWalManager \<Rightarrow> ustr \<Rightarrow> WalStreamMode" where
  "stream_mode E m wal_id =
     (case obfuscated_stream_key E wal_id of Inl e \<Rightarrow> Durable | Inr key \<Rightarrow> mode_of_key m key)"

definition is_stream_replicable :: "wal_env \<Rightarrow> ConcurrentWalManager \<Rightarrow> ustr \<Rightarrow> bool" where
  "is_stream_replicable E m wal_id \<longleftrightarrow> stream_mode E m wal_id = Durable"

text \<open>Replaces the entry of a stream by a recomputed high water.\<close>

definition set_high_water :: "ustr \<Rightarrow> u64 option \<Rightarrow> ConcurrentWalManager \<Rightarrow> ConcurrentWalManager" where
  "set_high_water key max_ts m =
     m\<lparr>write_high_water_by_stream := (write_high_water_by_stream m)(key := max_ts)\<rparr>"

text \<open>The \<open>and_modify\<close> and \<open>or_insert\<close> of an acknowledged write.\<close>

fun bump :: "u64 \<Rightarrow> u64 option \<Rightarrow> u64 option" where
  "bump ts None = Some ts"
| "bump ts (Some current) = Some (if ts > current then ts else current)"

definition raise_high_water :: "ustr \<Rightarrow> u64 option \<Rightarrow> ConcurrentWalManager \<Rightarrow> ConcurrentWalManager" where
  "raise_high_water key write_ts m =
     (case write_ts of
        None \<Rightarrow> m
      | Some ts \<Rightarrow> m\<lparr>write_high_water_by_stream :=
          (write_high_water_by_stream m)(key := bump ts (write_high_water_by_stream m key))\<rparr>)"

section \<open>Loading\<close>

definition readable :: "io_outcomes \<Rightarrow> bytes \<Rightarrow> wal_file" where
  "readable io bs =
     (if io_load_open io then Some (case io_load_limit io of None \<Rightarrow> bs | Some n \<Rightarrow> take n bs) else None)"

definition hydrate_stream_if_needed ::
    "wal_env \<Rightarrow> io_outcomes \<Rightarrow> ustr \<Rightarrow> ConcurrentWalManager \<Rightarrow> ConcurrentWalManager" where
  "hydrate_stream_if_needed E io key m =
     (if mode_of_key m key \<noteq> Durable then m
      else if data_dir m = None then m
      else if key \<in> dom (storage m) then m
      else case files m (file_name Data key) of
             None \<Rightarrow> m\<lparr>storage := (storage m)(key \<mapsto> [])\<rparr>
           | Some bs \<Rightarrow>
               let existing = load_records_from_path E (readable io bs)
               in set_high_water key (latest_write_timestamp existing)
                    (m\<lparr>storage := (storage m)(key \<mapsto> existing)\<rparr>))"

definition with_records ::
    "wal_env \<Rightarrow> io_outcomes \<Rightarrow> ustr \<Rightarrow> (entries \<Rightarrow> 't) \<Rightarrow> ConcurrentWalManager \<Rightarrow>
     't option \<times> ConcurrentWalManager" where
  "with_records E io wal_id func m =
     (case obfuscated_stream_key E wal_id of
        Inl e \<Rightarrow> (None, m)
      | Inr key \<Rightarrow>
          let m1 = hydrate_stream_if_needed E io key m
          in (map_option func (storage m1 key), m1))"

definition invalidate_stream_cache ::
    "wal_env \<Rightarrow> ustr \<Rightarrow> ConcurrentWalManager \<Rightarrow> unit result \<times> ConcurrentWalManager" where
  "invalidate_stream_cache E wal_id m =
     (case obfuscated_stream_key E wal_id of
        Inl e \<Rightarrow> (Err e, m)
      | Inr key \<Rightarrow>
          (Ok (), set_high_water key None (m\<lparr>storage := (storage m)(key := None)\<rparr>)))"

text \<open>The result \<open>Ok (Some records)\<close> is \<open>Ok(true)\<close> with the records handed to the callback.\<close>

definition scan_durable_records_if_unloaded ::
    "wal_env \<Rightarrow> io_outcomes \<Rightarrow> ustr \<Rightarrow> ConcurrentWalManager \<Rightarrow> entries option result" where
  "scan_durable_records_if_unloaded E io wal_id m =
     (case obfuscated_stream_key E wal_id of
        Inl e \<Rightarrow> Err e
      | Inr key \<Rightarrow>
          if mode_of_key m key \<noteq> Durable then Ok None
          else if key \<in> dom (storage m) then Ok None
          else if data_dir m = None then Ok None
          else case files m (file_name Data key) of
                 None \<Rightarrow> Ok None
               | Some bs \<Rightarrow>
                   (case readable io bs of
                      None \<Rightarrow> Err ''failed to open WAL file''
                    | Some content \<Rightarrow>
                        if length content < HEADER_SIZE then Err ''failed to read WAL header''
                        else case verify_header Data (take HEADER_SIZE content) of
                               Inl e \<Rightarrow> Err ''invalid WAL header/version''
                             | Inr v \<Rightarrow> Ok (Some (decode_records_from_reader E default_context
                                                   (drop HEADER_SIZE content)))))"

section \<open>Workers\<close>

definition get_or_spawn_worker_for_stream_key ::
    "io_outcomes \<Rightarrow> ustr \<Rightarrow> ConcurrentWalManager \<Rightarrow> ConcurrentWalManager" where
  "get_or_spawn_worker_for_stream_key io key m =
     (if key \<in> dom (workers m) then m
      else let durable = (mode_of_key m key = Durable \<and> data_dir m \<noteq> None);
               es = (case storage m key of None \<Rightarrow> [] | Some es \<Rightarrow> es);
               w = spawn_worker io durable es (files m (file_name Data key));
               thread = \<lparr>th_durable = durable, th_append_file = wk_append_file w, th_alive = True\<rparr>
           in if durable
              then m\<lparr>workers := (workers m)(key \<mapsto> thread), storage := (storage m)(key \<mapsto> es),
                     files := (files m)(file_name Data key := wk_file w)\<rparr>
              else m\<lparr>workers := (workers m)(key \<mapsto> thread)\<rparr>)"

text \<open>
  Sends a command to the worker of a stream and waits: the handler runs on the vector of the
  stream, which is created when missing, on the handle and on the file. A worker that has shut down
  does not receive; \<open>send_error\<close> is the message of that case.
\<close>

definition run_command ::
    "err \<Rightarrow> (bool \<Rightarrow> wal_worker \<Rightarrow> unit result \<times> wal_worker) \<Rightarrow> ustr \<Rightarrow> ConcurrentWalManager \<Rightarrow>
     unit result \<times> ConcurrentWalManager" where
  "run_command send_error handler key m =
     (case workers m key of
        None \<Rightarrow> (Err send_error, m)
      | Some thread \<Rightarrow>
          if \<not> th_alive thread then (Err send_error, m)
          else let es = (case storage m key of None \<Rightarrow> [] | Some es \<Rightarrow> es);
                   f = files m (file_name Data key);
                   (res, w) = handler (th_durable thread)
                     \<lparr>wk_entries = es, wk_append_file = th_append_file thread, wk_file = f\<rparr>
               in (res, m\<lparr>workers := (workers m)(key \<mapsto> thread\<lparr>th_append_file := wk_append_file w\<rparr>),
                          storage := (storage m)(key \<mapsto> wk_entries w),
                          files := (files m)(file_name Data key := (if th_durable thread then wk_file w else f))\<rparr>))"

section \<open>Writing\<close>

definition append_with_context ::
    "wal_env \<Rightarrow> io_outcomes \<Rightarrow> ustr \<Rightarrow> TransactionRecord \<Rightarrow> TransactionPayloadContext \<Rightarrow>
     ConcurrentWalManager \<Rightarrow> unit result \<times> ConcurrentWalManager" where
  "append_with_context E io wal_id r c m =
     (case obfuscated_stream_key E wal_id of
        Inl e \<Rightarrow> (Err e, m)
      | Inr key \<Rightarrow>
          let m1 = hydrate_stream_if_needed E io key m;
              m2 = get_or_spawn_worker_for_stream_key io key m1
          in (case run_command ''failed to send WAL append command''
                     (\<lambda>durable. handle_append E io durable c r) key m2 of
                (Inl e, m3) \<Rightarrow> (Err e, m3)
              | (Inr u, m3) \<Rightarrow> (Ok (), raise_high_water key (write_timestamp_if_data_write r) m3)))"

definition append_batch_with_context ::
    "wal_env \<Rightarrow> io_outcomes \<Rightarrow> ustr \<Rightarrow> TransactionRecord list \<Rightarrow> TransactionPayloadContext \<Rightarrow>
     ConcurrentWalManager \<Rightarrow> unit result \<times> ConcurrentWalManager" where
  "append_batch_with_context E io wal_id rs c m =
     (if rs = [] then (Ok (), m)
      else case obfuscated_stream_key E wal_id of
             Inl e \<Rightarrow> (Err e, m)
           | Inr key \<Rightarrow>
               let batch_max_write_ts = latest_write_timestamp rs;
                   m1 = hydrate_stream_if_needed E io key m;
                   m2 = get_or_spawn_worker_for_stream_key io key m1
               in (case run_command ''failed to send WAL append-batch command''
                          (\<lambda>durable. handle_append_batch E io durable c rs) key m2 of
                     (Inl e, m3) \<Rightarrow> (Err e, m3)
                   | (Inr u, m3) \<Rightarrow> (Ok (), raise_high_water key batch_max_write_ts m3)))"

definition compact_stream_to_latest_schema_and_metadata ::
    "wal_env \<Rightarrow> io_outcomes \<Rightarrow> ustr \<Rightarrow> ustr \<Rightarrow> u64 \<Rightarrow> ConcurrentWalManager \<Rightarrow>
     unit result \<times> ConcurrentWalManager" where
  "compact_stream_to_latest_schema_and_metadata E io wal_id who ts m =
     (case obfuscated_stream_key E wal_id of
        Inl e \<Rightarrow> (Err e, m)
      | Inr key \<Rightarrow>
          let m1 = hydrate_stream_if_needed E io key m;
              m2 = get_or_spawn_worker_for_stream_key io key m1
          in (case run_command ''failed to send WAL compact command''
                     (\<lambda>durable. handle_compact E io durable who ts) key m2 of
                (Inl e, m3) \<Rightarrow> (Err e, m3)
              | (Inr u, m3) \<Rightarrow>
                  (Ok (), (case storage m3 key of
                             Some es \<Rightarrow> set_high_water key (latest_write_timestamp es) m3
                           | None \<Rightarrow> m3))))"

definition realign_stream_records ::
    "wal_env \<Rightarrow> io_outcomes \<Rightarrow> ustr \<Rightarrow> ConcurrentWalManager \<Rightarrow> unit result \<times> ConcurrentWalManager" where
  "realign_stream_records E io wal_id m =
     (case obfuscated_stream_key E wal_id of
        Inl e \<Rightarrow> (Err e, m)
      | Inr key \<Rightarrow>
          let m1 = hydrate_stream_if_needed E io key m
          in (case storage m1 key of
                None \<Rightarrow> (Err ''WAL stream is unavailable'', m1)
              | Some es \<Rightarrow>
                  if realign_refused es
                  then (Err ''WAL realignment refused: no live records remain'', m1)
                  else let rebuilt = realign_rebuild es;
                           (res, m2) =
                             (if data_dir m1 \<noteq> None
                              then let (res, f) = rewrite_wal_file E io rebuilt (files m1 (file_name Data key))
                                   in (res, m1\<lparr>files := (files m1)(file_name Data key := f)\<rparr>)
                              else (Ok (), m1))
                       in (case res of
                             Inl e \<Rightarrow> (Err e, m2)
                           | Inr u \<Rightarrow>
                               if \<not> positional rebuilt
                               then (Err ''WAL realignment validation failed'', m2)
                               else (Ok (), m2\<lparr>storage := (storage m2)(key \<mapsto> rebuilt)\<rparr>))))"

section \<open>Administration\<close>

definition set_stream_mode ::
    "wal_env \<Rightarrow> ustr \<Rightarrow> WalStreamMode \<Rightarrow> ConcurrentWalManager \<Rightarrow> unit result \<times> ConcurrentWalManager" where
  "set_stream_mode E wal_id mode m =
     (case obfuscated_stream_key E wal_id of
        Inl e \<Rightarrow> (Err e, m)
      | Inr key \<Rightarrow>
          let previous = stream_modes m key; m1 = m\<lparr>stream_modes := (stream_modes m)(key \<mapsto> mode)\<rparr>
          in (Ok (), if previous \<noteq> Some mode then m1\<lparr>workers := (workers m1)(key := None)\<rparr> else m1))"

definition active_worker_count :: "ConcurrentWalManager \<Rightarrow> nat" where
  "active_worker_count m = card (dom (workers m))"

definition shutdown_all :: "ConcurrentWalManager \<Rightarrow> unit result \<times> ConcurrentWalManager" where
  "shutdown_all m = (Ok (), m\<lparr>workers := (\<lambda>k. map_option (\<lambda>t. t\<lparr>th_alive := False\<rparr>) (workers m k))\<rparr>)"

definition validate_stream_record_positions ::
    "wal_env \<Rightarrow> io_outcomes \<Rightarrow> ustr \<Rightarrow> ConcurrentWalManager \<Rightarrow> unit result \<times> ConcurrentWalManager" where
  "validate_stream_record_positions E io wal_id m =
     (case with_records E io wal_id positional m of
        (None, m1) \<Rightarrow> (Err ''WAL stream unavailable'', m1)
      | (Some True, m1) \<Rightarrow> (Ok (), m1)
      | (Some False, m1) \<Rightarrow> (Err ''WAL position mismatch'', m1))"

definition delete_stream ::
    "wal_env \<Rightarrow> io_outcomes \<Rightarrow> ustr \<Rightarrow> ConcurrentWalManager \<Rightarrow> unit result \<times> ConcurrentWalManager" where
  "delete_stream E io wal_id m =
     (case obfuscated_stream_key E wal_id of
        Inl e \<Rightarrow> (Err e, m)
      | Inr key \<Rightarrow>
          let m1 = m\<lparr>workers := (workers m)(key := None), storage := (storage m)(key := None),
                     stream_modes := (stream_modes m)(key := None),
                     write_high_water_by_stream := (write_high_water_by_stream m)(key := None)\<rparr>
          in if data_dir m1 = None \<or> files m1 (file_name Data key) = None then (Ok (), m1)
             else if io_remove io then (Ok (), m1\<lparr>files := (files m1)(file_name Data key := None)\<rparr>)
             else (Err ''failed to delete WAL file'', m1))"

definition clear_stream_records ::
    "wal_env \<Rightarrow> io_outcomes \<Rightarrow> ustr \<Rightarrow> ConcurrentWalManager \<Rightarrow> unit result \<times> ConcurrentWalManager" where
  "clear_stream_records E io wal_id m =
     (case obfuscated_stream_key E wal_id of
        Inl e \<Rightarrow> (Err e, m)
      | Inr key \<Rightarrow>
          let m1 = m\<lparr>workers := (workers m)(key := None), storage := (storage m)(key := None),
                     write_high_water_by_stream := (write_high_water_by_stream m)(key := None)\<rparr>
          in if mode_of_key m key = Durable \<and> data_dir m1 \<noteq> None
             then (case write_bytes (io_rewrite io) (make_header Data) (files m1 (file_name Data key)) of
                     (True, f) \<Rightarrow> (Ok (), m1\<lparr>files := (files m1)(file_name Data key := f)\<rparr>)
                   | (False, f) \<Rightarrow> (Err ''failed to clear WAL file'',
                                    m1\<lparr>files := (files m1)(file_name Data key := f)\<rparr>))
             else (Ok (), m1))"

section \<open>Reading\<close>

definition has_write_after ::
    "wal_env \<Rightarrow> io_outcomes \<Rightarrow> ustr \<Rightarrow> u64 \<Rightarrow> ConcurrentWalManager \<Rightarrow> bool \<times> ConcurrentWalManager" where
  "has_write_after E io wal_id timestamp m =
     (case obfuscated_stream_key E wal_id of
        Inl e \<Rightarrow> (False, m)
      | Inr key \<Rightarrow>
          let m1 = hydrate_stream_if_needed E io key m
          in (case write_high_water_by_stream m1 key of
                Some max_ts \<Rightarrow> (max_ts > timestamp, m1)
              | None \<Rightarrow>
                  (case storage m1 key of
                     None \<Rightarrow> (False, m1)
                   | Some es \<Rightarrow>
                       let max_ts = latest_write_timestamp es
                       in (case max_ts of None \<Rightarrow> False | Some ts \<Rightarrow> ts > timestamp,
                           set_high_water key max_ts m1))))"

definition stream_entries :: "wal_env \<Rightarrow> io_outcomes \<Rightarrow> ustr \<Rightarrow> ConcurrentWalManager \<Rightarrow> entries \<times> ConcurrentWalManager" where
  "stream_entries E io wal_id m =
     (case with_records E io wal_id (\<lambda>es. es) m of
        (None, m1) \<Rightarrow> ([], m1)
      | (Some es, m1) \<Rightarrow> (es, m1))"

definition since :: "wal_env \<Rightarrow> io_outcomes \<Rightarrow> ustr \<Rightarrow> u64 option \<Rightarrow> ConcurrentWalManager \<Rightarrow> entries \<times> ConcurrentWalManager" where
  "since E io wal_id from m = apfst (\<lambda>es. since_entries es from) (stream_entries E io wal_id m)"

definition for_each_since ::
    "wal_env \<Rightarrow> io_outcomes \<Rightarrow> ustr \<Rightarrow> u64 option \<Rightarrow> (TransactionRecord \<Rightarrow> 's \<Rightarrow> 's) \<Rightarrow> 's \<Rightarrow>
     ConcurrentWalManager \<Rightarrow> 's \<times> ConcurrentWalManager" where
  "for_each_since E io wal_id from func s m =
     apfst (\<lambda>es. for_each_since_entries es from func s) (stream_entries E io wal_id m)"

definition with_all_records ::
    "wal_env \<Rightarrow> io_outcomes \<Rightarrow> ustr \<Rightarrow> (entries \<Rightarrow> 't) \<Rightarrow> ConcurrentWalManager \<Rightarrow> 't \<times> ConcurrentWalManager" where
  "with_all_records E io wal_id func m = apfst func (stream_entries E io wal_id m)"

definition since_kinds ::
    "wal_env \<Rightarrow> io_outcomes \<Rightarrow> ustr \<Rightarrow> u64 option \<Rightarrow> TransactionKind list \<Rightarrow> ConcurrentWalManager \<Rightarrow>
     entries \<times> ConcurrentWalManager" where
  "since_kinds E io wal_id from kinds m =
     (if kinds = [] then ([], m)
      else apfst (\<lambda>es. since_kinds_entries es from kinds) (stream_entries E io wal_id m))"

definition latest_transaction_id ::
    "wal_env \<Rightarrow> io_outcomes \<Rightarrow> ustr \<Rightarrow> ConcurrentWalManager \<Rightarrow> u64 option \<times> ConcurrentWalManager" where
  "latest_transaction_id E io wal_id m = apfst last_id (stream_entries E io wal_id m)"

definition latest_transaction_id_if_loaded :: "wal_env \<Rightarrow> ustr \<Rightarrow> ConcurrentWalManager \<Rightarrow> u64 option" where
  "latest_transaction_id_if_loaded E wal_id m =
     (case obfuscated_stream_key E wal_id of
        Inl e \<Rightarrow> None
      | Inr key \<Rightarrow> (case storage m key of None \<Rightarrow> None | Some es \<Rightarrow> last_id es))"

fun resolve_records ::
    "wal_env \<Rightarrow> TransactionPayloadContext \<Rightarrow> entries \<Rightarrow> entries result" where
  "resolve_records E c [] = Ok []"
| "resolve_records E c (r # rs) =
     try_bind (map_err map_payload_transform_error (resolve_wal_storage_payload E (raw_payload r) c))
       (\<lambda>resolved. try_bind (resolve_records E c rs)
          (\<lambda>rest. Ok ((case resolved of
                         Some (Owned p) \<Rightarrow> set_payload (Some p) (Some c) r
                       | _ \<Rightarrow> r) # rest)))"

definition since_with_context ::
    "wal_env \<Rightarrow> io_outcomes \<Rightarrow> ustr \<Rightarrow> u64 option \<Rightarrow> TransactionPayloadContext \<Rightarrow> ConcurrentWalManager \<Rightarrow>
     entries result \<times> ConcurrentWalManager" where
  "since_with_context E io wal_id from c m =
     (let (records, m1) = since E io wal_id from m
      in if c = default_context then (Ok records, m1) else (resolve_records E c records, m1))"

section \<open>The high water is exact\<close>

definition write_stamps :: "entries \<Rightarrow> u64 set" where
  "write_stamps es = {timestamp_epoch_ms r | r. r \<in> set es \<and> is_data_write r}"

lemma max_option_set: "max_option xs = (if xs = [] then None else Some (Max (set xs)))"
  by (cases xs) (simp_all add: fold_max_Max)

lemma set_write_stamps: "set (List.map_filter write_timestamp_if_data_write es) = write_stamps es"
  by (auto simp: map_filter_def write_timestamp_if_data_write_def write_stamps_def is_data_write_def
      image_iff split: if_splits)

lemma finite_write_stamps [simp]: "finite (write_stamps es)"
  by (metis List.finite_set set_write_stamps)

lemma latest_write_stamps:
  "latest_write_timestamp es = (if write_stamps es = {} then None else Some (Max (write_stamps es)))"
  using set_write_stamps [of es]
  by (cases "List.map_filter write_timestamp_if_data_write es = []")
    (auto simp: latest_write_timestamp_def max_option_set)

lemma latest_Nil [simp]: "latest_write_timestamp [] = None"
  by (simp add: latest_write_stamps write_stamps_def)

lemma latest_cong: "write_stamps es = write_stamps es' \<Longrightarrow> latest_write_timestamp es = latest_write_timestamp es'"
  by (simp add: latest_write_stamps)

fun join_stamps :: "u64 option \<Rightarrow> u64 option \<Rightarrow> u64 option" where
  "join_stamps None h = h"
| "join_stamps (Some ts) h = bump ts h"

lemma raise_high_water_eq:
  "raise_high_water key ts m = m\<lparr>write_high_water_by_stream :=
     (write_high_water_by_stream m)(key := join_stamps ts (write_high_water_by_stream m key))\<rparr>"
  by (cases ts) (simp_all add: raise_high_water_def)

lemma latest_union:
  assumes "write_stamps es' = write_stamps es \<union> write_stamps rs"
  shows "latest_write_timestamp es' = join_stamps (latest_write_timestamp rs) (latest_write_timestamp es)"
proof (cases "write_stamps es = {} \<or> write_stamps rs = {}")
  case True
  with assms show ?thesis by (auto simp: latest_write_stamps)
next
  case False
  define a b where "a = Max (write_stamps es)" and "b = Max (write_stamps rs)"
  have "Max (write_stamps es') = max a b" using False assms by (simp add: Max_Un a_def b_def)
  moreover have "latest_write_timestamp es = Some a" "latest_write_timestamp rs = Some b"
    using False by (simp_all add: latest_write_stamps a_def b_def)
  ultimately show ?thesis using False assms by (auto simp: latest_write_stamps max_def)
qed

lemma latest_single: "latest_write_timestamp [r] = write_timestamp_if_data_write r"
  by (simp add: latest_write_timestamp_def map_filter_def write_timestamp_if_data_write_def)

lemma record_eq_stamps: "record_eq e r \<Longrightarrow> is_data_write e = is_data_write r \<and> timestamp_epoch_ms e = timestamp_epoch_ms r"
  by (simp add: record_eq_def is_data_write_def)

lemma write_stamps_append_entries: "write_stamps (append_entries es r) = write_stamps es \<union> write_stamps [r]"
proof (cases "is_ordered es r \<or> \<not> exact_record_duplicate_at_or_after es r (base_pos es r)")
  case True
  then have "set (append_entries es r) = set es \<union> {r}"
    using set_take_subset [of _ es] set_drop_subset [of _ es]
    by (auto simp: append_entries_def merge_record_def vec_insert_def) (metis append_take_drop_id UnE set_append)
  then show ?thesis by (auto simp: write_stamps_def)
next
  case False
  then obtain e where e: "e \<in> set es" "record_eq e r" using duplicate_sound by blast
  have "timestamp_epoch_ms r \<in> write_stamps es" if "is_data_write r"
    using record_eq_stamps [OF e(2)] e(1) that
    unfolding write_stamps_def by (intro CollectI exI [of _ e]) simp
  then have "write_stamps [r] \<subseteq> write_stamps es" by (auto simp: write_stamps_def [of "[r]"])
  with False show ?thesis by (auto simp: append_entries_def)
qed

lemma write_stamps_foldl: "write_stamps (foldl append_entries es rs) = write_stamps es \<union> write_stamps rs"
proof (induction rs arbitrary: es)
  case (Cons r rs)
  have "write_stamps (r # rs) = write_stamps [r] \<union> write_stamps rs" by (auto simp: write_stamps_def)
  with Cons show ?case by (simp add: write_stamps_append_entries Un_assoc)
qed (simp add: write_stamps_def)

lemma rejected_entries:
  "handle_append E io d c r w = (Err e, w') \<Longrightarrow> wk_entries w' = wk_entries w"
  "handle_append_batch E io d c rs w = (Err e, w') \<Longrightarrow> wk_entries w' = wk_entries w"
  by (auto simp: handle_append_def handle_append_batch_def split: if_splits
      dest: append_ordered_rejected append_merged_rejected batch_append_ordered_rejected
        batch_append_merged_rejected)

text \<open>The vector after an acknowledged command, whether or not the stream is durable.\<close>

lemma handle_append_entries:
  "handle_append E io d c r w = (Ok u, w') \<Longrightarrow> wk_entries w' = append_entries (wk_entries w) r"
  by (auto simp: handle_append_def append_entries_def append_ordered_def append_merged_def Let_def
      split: sum.splits prod.splits if_splits)

lemma handle_append_batch_entries:
  assumes "handle_append_batch E io d c rs w = (Ok u, w')"
  shows "wk_entries w' = foldl append_entries (wk_entries w) rs"
proof -
  obtain staged m dirty where st: "foldl batch_merge_step (wk_entries w, False, False) rs = (staged, m, dirty)"
    by (rule prod_cases3)
  with batch_merge_entries [of "wk_entries w" False False rs]
  have staged: "staged = foldl append_entries (wk_entries w) rs" by simp
  have "batch_append_merged E io d c rs w = (Ok u, w') \<Longrightarrow> wk_entries w' = staged"
    using batch_merge_clean [OF st]
    by (auto simp: batch_append_merged_def st Let_def split: sum.splits prod.splits if_splits)
  moreover have "batch_append_ordered E io d c rs w = (Ok u, w') \<Longrightarrow> wk_entries w' = wk_entries w @ rs"
    by (auto simp: batch_append_ordered_def split: sum.splits prod.splits if_splits)
  ultimately show ?thesis
    using assms staged batch_ordered_append [of "wk_entries w" rs]
    by (auto simp: handle_append_batch_def split: if_splits)
qed

definition high_water_exact :: "ConcurrentWalManager \<Rightarrow> bool" where
  "high_water_exact m \<longleftrightarrow>
     (\<forall>key. write_high_water_by_stream m key = Option.bind (storage m key) latest_write_timestamp)"

lemma high_water_exactD:
  "high_water_exact m \<Longrightarrow> write_high_water_by_stream m key = Option.bind (storage m key) latest_write_timestamp"
  by (simp add: high_water_exact_def)

lemma high_water_exactI:
  assumes "high_water_exact m" and "storage m' = (storage m)(key := v)"
    and "write_high_water_by_stream m' = (write_high_water_by_stream m)(key := Option.bind v latest_write_timestamp)"
  shows "high_water_exact m'"
  using assms by (auto simp: high_water_exact_def)

lemma high_water_exact_hydrate:
  assumes "high_water_exact m"
  shows "high_water_exact (hydrate_stream_if_needed E io key m)"
proof -
  have fresh: "write_high_water_by_stream m key = None" if "key \<notin> dom (storage m)"
    using assms that by (simp add: high_water_exact_def domIff)
  have "write_high_water_by_stream m = (write_high_water_by_stream m)(key := None)" if "key \<notin> dom (storage m)"
    using fresh [OF that] by auto
  then have "high_water_exact (m\<lparr>storage := (storage m)(key \<mapsto> [])\<rparr>)" if "key \<notin> dom (storage m)"
    using that by (intro high_water_exactI [OF assms, of _ key "Some []"]) (simp_all add: latest_write_stamps write_stamps_def)
  then show ?thesis
    using assms by (auto simp: hydrate_stream_if_needed_def Let_def set_high_water_def
        split: option.splits intro!: high_water_exactI [OF assms])
qed

lemma high_water_loaded:
  assumes "high_water_exact m"
  shows "write_high_water_by_stream m key =
    latest_write_timestamp (case storage m key of None \<Rightarrow> [] | Some es \<Rightarrow> es)"
  using high_water_exactD [OF assms, of key] by (cases "storage m key") simp_all

lemma high_water_exact_spawn:
  assumes "high_water_exact m"
  shows "high_water_exact (get_or_spawn_worker_for_stream_key io key m)"
proof (cases "key \<in> dom (workers m) \<or> \<not> (mode_of_key m key = Durable \<and> data_dir m \<noteq> None)")
  case True
  with assms show ?thesis
    by (auto simp: get_or_spawn_worker_for_stream_key_def Let_def high_water_exact_def)
next
  case False
  let ?es = "case storage m key of None \<Rightarrow> [] | Some es \<Rightarrow> es"
  have "write_high_water_by_stream m = (write_high_water_by_stream m)(key := latest_write_timestamp ?es)"
    using high_water_loaded [OF assms, of key] by (metis fun_upd_triv)
  with False show ?thesis
    by (intro high_water_exactI [OF assms, of _ key "Some ?es"])
      (auto simp: get_or_spawn_worker_for_stream_key_def Let_def)
qed

text \<open>A command changes the vector of its stream and no high water.\<close>

lemma run_command_cases:
  assumes "run_command e handler key m = (res, m')"
  obtains (dead) "res = Err e" "m' = m"
    | (ran) durable w w' where "handler durable w = (res, w')"
        "wk_entries w = (case storage m key of None \<Rightarrow> [] | Some es \<Rightarrow> es)"
        "storage m' = (storage m)(key \<mapsto> wk_entries w')"
        "write_high_water_by_stream m' = write_high_water_by_stream m"
proof (cases "workers m key")
  case None
  with assms dead show ?thesis by (simp add: run_command_def)
next
  case (Some thread)
  show ?thesis
  proof (cases "th_alive thread")
    case False
    with assms Some dead show ?thesis by (simp add: run_command_def)
  next
    case True
    let ?w = "\<lparr>wk_entries = (case storage m key of None \<Rightarrow> [] | Some es \<Rightarrow> es),
      wk_append_file = th_append_file thread, wk_file = files m (file_name Data key)\<rparr>"
    obtain res' w' where h: "handler (th_durable thread) ?w = (res', w')" by (rule prod.exhaust)
    with assms Some True have "res' = res" "storage m' = (storage m)(key \<mapsto> wk_entries w')"
        "write_high_water_by_stream m' = write_high_water_by_stream m"
      by (auto simp: run_command_def Let_def)
    with h ran [of "th_durable thread" ?w w'] show ?thesis by simp
  qed
qed

text \<open>An acknowledged command that adds records and raises the high water by theirs.\<close>

lemma high_water_exact_command:
  assumes exact: "high_water_exact m" and run: "run_command e handler key m = (res, m')"
    and rejected: "\<And>d w w' e. handler d w = (Err e, w') \<Longrightarrow> wk_entries w' = wk_entries w"
    and accepted: "\<And>d w w' u. handler d w = (Ok u, w') \<Longrightarrow>
                     write_stamps (wk_entries w') = write_stamps (wk_entries w) \<union> write_stamps rs"
  shows "high_water_exact (case res of Inl e \<Rightarrow> m' | Inr u \<Rightarrow> raise_high_water key (latest_write_timestamp rs) m')"
  using run
proof (cases rule: run_command_cases)
  case dead
  with exact show ?thesis by simp
next
  case (ran d w w')
  let ?es = "case storage m key of None \<Rightarrow> [] | Some es \<Rightarrow> es"
  have hw: "write_high_water_by_stream m key = latest_write_timestamp ?es"
    by (rule high_water_loaded [OF exact])
  show ?thesis
  proof (cases res)
    case (Inl x)
    with ran rejected have "wk_entries w' = ?es" by simp
    with ran Inl hw show ?thesis
      by (auto intro!: high_water_exactI [OF exact])
  next
    case (Inr u)
    with ran accepted have "latest_write_timestamp (wk_entries w') =
        join_stamps (latest_write_timestamp rs) (latest_write_timestamp ?es)"
      by (intro latest_union) simp
    with ran Inr hw show ?thesis
      by (auto simp: raise_high_water_eq intro!: high_water_exactI [OF exact])
  qed
qed

lemma high_water_exact_append:
  assumes "high_water_exact m"
  shows "high_water_exact (snd (append_with_context E io wal_id r c m))"
proof (cases "obfuscated_stream_key E wal_id")
  case (Inr key)
  let ?m2 = "get_or_spawn_worker_for_stream_key io key (hydrate_stream_if_needed E io key m)"
  obtain res m3 where run: "run_command ''failed to send WAL append command''
      (\<lambda>durable. handle_append E io durable c r) key ?m2 = (res, m3)" by (rule prod.exhaust)
  have "high_water_exact (case res of Inl e \<Rightarrow> m3 | Inr u \<Rightarrow> raise_high_water key (latest_write_timestamp [r]) m3)"
    using rejected_entries
    by (intro high_water_exact_command [OF _ run])
      (auto simp: assms high_water_exact_hydrate high_water_exact_spawn write_stamps_append_entries
        dest: handle_append_entries)
  with run Inr show ?thesis
    by (cases res) (simp_all add: append_with_context_def Let_def latest_single)
qed (use assms in \<open>simp add: append_with_context_def\<close>)

lemma high_water_exact_append_batch:
  assumes "high_water_exact m"
  shows "high_water_exact (snd (append_batch_with_context E io wal_id rs c m))"
proof (cases "obfuscated_stream_key E wal_id")
  case (Inr key)
  let ?m2 = "get_or_spawn_worker_for_stream_key io key (hydrate_stream_if_needed E io key m)"
  obtain res m3 where run: "run_command ''failed to send WAL append-batch command''
      (\<lambda>durable. handle_append_batch E io durable c rs) key ?m2 = (res, m3)" by (rule prod.exhaust)
  have "high_water_exact (case res of Inl e \<Rightarrow> m3 | Inr u \<Rightarrow> raise_high_water key (latest_write_timestamp rs) m3)"
    using rejected_entries
    by (intro high_water_exact_command [OF _ run])
      (auto simp: assms high_water_exact_hydrate high_water_exact_spawn write_stamps_foldl
        dest: handle_append_batch_entries)
  with run Inr assms show ?thesis
    by (cases res) (simp_all add: append_batch_with_context_def Let_def)
qed (use assms in \<open>simp add: append_batch_with_context_def\<close>)

lemma high_water_exact_compact:
  assumes "high_water_exact m"
    and ok: "is_ok (fst (compact_stream_to_latest_schema_and_metadata E io wal_id who ts m))"
  shows "high_water_exact (snd (compact_stream_to_latest_schema_and_metadata E io wal_id who ts m))"
proof (cases "obfuscated_stream_key E wal_id")
  case (Inr key)
  let ?m2 = "get_or_spawn_worker_for_stream_key io key (hydrate_stream_if_needed E io key m)"
  obtain res m3 where run: "run_command ''failed to send WAL compact command''
      (\<lambda>durable. handle_compact E io durable who ts) key ?m2 = (res, m3)" by (rule prod.exhaust)
  have m2: "high_water_exact ?m2" by (simp add: assms(1) high_water_exact_hydrate high_water_exact_spawn)
  from ok run Inr obtain u where res: "res = Ok u"
    by (cases res) (simp_all add: compact_stream_to_latest_schema_and_metadata_def Let_def)
  from run [unfolded res] obtain es where "storage m3 = (storage ?m2)(key \<mapsto> es)"
      "write_high_water_by_stream m3 = write_high_water_by_stream ?m2"
    by (cases rule: run_command_cases) auto
  then have "high_water_exact (set_high_water key (latest_write_timestamp es) m3)"
    by (intro high_water_exactI [OF m2, of _ key "Some es"]) (simp_all add: set_high_water_def)
  with run Inr res \<open>storage m3 = _\<close> show ?thesis
    by (simp add: compact_stream_to_latest_schema_and_metadata_def Let_def)
qed (use assms in \<open>simp add: compact_stream_to_latest_schema_and_metadata_def\<close>)

lemma write_stamps_pairs:
  "write_stamps es = snd ` {x \<in> set (map (\<lambda>r. (is_data_write r, timestamp_epoch_ms r)) es). fst x}"
  by (force simp: write_stamps_def)

lemma write_stamps_realign: "write_stamps (realign_rebuild es) = write_stamps es"
proof -
  have "map (\<lambda>r. (is_data_write r, timestamp_epoch_ms r)) (realign_rebuild es) =
      map (\<lambda>r. (is_data_write r, timestamp_epoch_ms r)) (live es)"
    by (intro nth_equalityI) (simp_all add: realign_nth realign_record_def is_data_write_def)
  then have "write_stamps (realign_rebuild es) = write_stamps (live es)"
    by (simp only: write_stamps_pairs)
  also have "\<dots> = write_stamps es" by (auto simp: write_stamps_def is_data_write_def)
  finally show ?thesis .
qed

lemma high_water_exact_realign:
  assumes "high_water_exact m"
  shows "high_water_exact (snd (realign_stream_records E io wal_id m))"
proof (cases "obfuscated_stream_key E wal_id")
  case (Inr key)
  let ?m1 = "hydrate_stream_if_needed E io key m"
  have m1: "high_water_exact ?m1" by (simp add: assms high_water_exact_hydrate)
  show ?thesis
  proof (cases "storage ?m1 key")
    case (Some es)
    then have "write_high_water_by_stream ?m1 =
        (write_high_water_by_stream ?m1)(key := latest_write_timestamp (realign_rebuild es))"
      using high_water_exactD [OF m1, of key] latest_cong [OF write_stamps_realign [of es]]
      by (metis Option.bind.bind_lunit fun_upd_triv)
    then have new: "high_water_exact (?m1\<lparr>storage := (storage ?m1)(key \<mapsto> realign_rebuild es)\<rparr>)"
      by (intro high_water_exactI [OF m1, of _ key "Some (realign_rebuild es)"]) simp_all
    have files: "high_water_exact (x\<lparr>files := f\<rparr>) \<longleftrightarrow> high_water_exact x" for x f
      by (simp add: high_water_exact_def)
    show ?thesis
    proof (cases "rewrite_wal_file E io (realign_rebuild es) (files ?m1 (file_name Data key))")
      case (Pair res f)
      have "high_water_exact (?m1\<lparr>files := (files ?m1)(file_name Data key := f)\<rparr>\<lparr>storage := (storage ?m1)(key \<mapsto> realign_rebuild es)\<rparr>)"
        using new by (simp add: high_water_exact_def)
      then show ?thesis
        using Inr Some Pair m1 new files
        by (cases res) (simp_all add: realign_stream_records_def Let_def positional_realign)
    qed
  qed (use m1 Inr in \<open>simp add: realign_stream_records_def\<close>)
qed (use assms in \<open>simp add: realign_stream_records_def\<close>)

section \<open>Runs of the manager\<close>

datatype wal_call =
    CallAppend ustr TransactionRecord TransactionPayloadContext
  | CallAppendBatch ustr "TransactionRecord list" TransactionPayloadContext
  | CallCompact ustr ustr u64
  | CallRealign ustr
  | CallSetMode ustr WalStreamMode
  | CallInvalidate ustr
  | CallDelete ustr
  | CallClear ustr
  | CallHasWriteAfter ustr u64
  | CallRead ustr
  | CallShutdownAll

fun manager_step ::
    "wal_env \<Rightarrow> ConcurrentWalManager \<Rightarrow> io_outcomes \<times> wal_call \<Rightarrow> ConcurrentWalManager" where
  "manager_step E m (io, CallAppend wal_id r c) = snd (append_with_context E io wal_id r c m)"
| "manager_step E m (io, CallAppendBatch wal_id rs c) = snd (append_batch_with_context E io wal_id rs c m)"
| "manager_step E m (io, CallCompact wal_id who ts) =
     snd (compact_stream_to_latest_schema_and_metadata E io wal_id who ts m)"
| "manager_step E m (io, CallRealign wal_id) = snd (realign_stream_records E io wal_id m)"
| "manager_step E m (io, CallSetMode wal_id mode) = snd (set_stream_mode E wal_id mode m)"
| "manager_step E m (io, CallInvalidate wal_id) = snd (invalidate_stream_cache E wal_id m)"
| "manager_step E m (io, CallDelete wal_id) = snd (delete_stream E io wal_id m)"
| "manager_step E m (io, CallClear wal_id) = snd (clear_stream_records E io wal_id m)"
| "manager_step E m (io, CallHasWriteAfter wal_id ts) = snd (has_write_after E io wal_id ts m)"
| "manager_step E m (io, CallRead wal_id) = snd (stream_entries E io wal_id m)"
| "manager_step E m (io, CallShutdownAll) = snd (shutdown_all m)"

text \<open>The only condition on a run: a compaction that is asked for does not fail.\<close>

fun compactions_succeed :: "wal_env \<Rightarrow> ConcurrentWalManager \<Rightarrow> io_outcomes \<times> wal_call \<Rightarrow> bool" where
  "compactions_succeed E m (io, CallCompact wal_id who ts) =
     is_ok (fst (compact_stream_to_latest_schema_and_metadata E io wal_id who ts m))"
| "compactions_succeed E m _ = True"

lemma high_water_exact_drop:
  assumes "high_water_exact m"
  shows "high_water_exact (m\<lparr>storage := (storage m)(key := None),
           write_high_water_by_stream := (write_high_water_by_stream m)(key := None)\<rparr>)"
  using assms by (simp add: high_water_exact_def)

lemma high_water_exact_drops:
  assumes "high_water_exact m"
  shows "high_water_exact (snd (set_stream_mode E wal_id mode m))"
    and "high_water_exact (snd (invalidate_stream_cache E wal_id m))"
    and "high_water_exact (snd (delete_stream E io wal_id m))"
    and "high_water_exact (snd (clear_stream_records E io wal_id m))"
    and "high_water_exact (snd (shutdown_all m))"
  using assms
  by (auto simp: high_water_exact_def set_stream_mode_def invalidate_stream_cache_def set_high_water_def
      delete_stream_def clear_stream_records_def shutdown_all_def Let_def
      split: sum.splits bool.splits prod.splits)

lemma high_water_exact_reads:
  assumes "high_water_exact m"
  shows "high_water_exact (snd (stream_entries E io wal_id m))"
    and "high_water_exact (snd (has_write_after E io wal_id ts m))"
proof -
  show "high_water_exact (snd (stream_entries E io wal_id m))"
    using high_water_exact_hydrate [OF assms] assms
    by (auto simp: stream_entries_def with_records_def Let_def split: sum.splits option.splits prod.splits)
  show "high_water_exact (snd (has_write_after E io wal_id ts m))"
  proof (cases "obfuscated_stream_key E wal_id")
    case (Inr key)
    let ?m1 = "hydrate_stream_if_needed E io key m"
    have m1: "high_water_exact ?m1" by (rule high_water_exact_hydrate [OF assms])
    have "high_water_exact (set_high_water key (latest_write_timestamp es) ?m1)"
      if "storage ?m1 key = Some es" for es
      using m1 that by (simp add: high_water_exact_def set_high_water_def)
    with m1 Inr show ?thesis
      by (auto simp: has_write_after_def Let_def split: option.splits)
  qed (use assms in \<open>simp add: has_write_after_def\<close>)
qed

interpretation wal_high_water: command_machine "manager_step E" in_memory high_water_exact "compactions_succeed E"
  for E
proof
  show "high_water_exact in_memory" by (simp add: high_water_exact_def in_memory_def)
  show "high_water_exact (manager_step E m call)"
    if "high_water_exact m" and "compactions_succeed E m call" for m call
    using that by (cases "(E, m, call)" rule: manager_step.cases)
      (simp_all add: high_water_exact_append high_water_exact_append_batch high_water_exact_compact
        high_water_exact_realign high_water_exact_drops high_water_exact_reads)
qed

lemma has_write_after_entries:
  assumes "high_water_exact m"
  shows "fst (has_write_after E io wal_id t m) \<longleftrightarrow>
    (\<exists>r \<in> set (fst (stream_entries E io wal_id m)). is_data_write r \<and> t < timestamp_epoch_ms r)"
proof (cases "obfuscated_stream_key E wal_id")
  case (Inr key)
  let ?m1 = "hydrate_stream_if_needed E io key m"
  have m1: "high_water_exact ?m1" by (rule high_water_exact_hydrate [OF assms])
  show ?thesis
  proof (cases "storage ?m1 key")
    case None
    with high_water_exactD [OF m1, of key] Inr show ?thesis
      by (simp add: has_write_after_def stream_entries_def with_records_def Let_def)
  next
    case (Some es)
    with high_water_exactD [OF m1, of key]
    have "write_high_water_by_stream ?m1 key = latest_write_timestamp es" by simp
    with Some Inr have "fst (has_write_after E io wal_id t m) \<longleftrightarrow>
        (\<exists>x. latest_write_timestamp es = Some x \<and> t < x)"
      by (auto simp: has_write_after_def Let_def split: option.splits)
    with Some Inr show ?thesis
      by (simp add: latest_write_greater stream_entries_def with_records_def Let_def)
  qed
qed (simp add: has_write_after_def stream_entries_def with_records_def)

text \<open>
  C18. The cached write high water is exact in every state a run of the manager reaches, for
  durable and ephemeral streams, over loads, appends, merges, realignments, cache drops and mode
  changes: \<open>has_write_after\<close> answers yes if and only if the stream holds a row write that is later
  than the given time. Compactions on the run succeed.
\<close>

theorem has_write_after_exact:
  assumes "m0 = in_memory \<or> m0 = with_data_dir dir disk"
    and "admissible_run (manager_step E) (compactions_succeed E) m0 calls"
  shows "fst (has_write_after E io wal_id t (foldl (manager_step E) m0 calls)) \<longleftrightarrow>
    (\<exists>r \<in> set (fst (stream_entries E io wal_id (foldl (manager_step E) m0 calls))).
       is_data_write r \<and> t < timestamp_epoch_ms r)"
proof -
  have "high_water_exact m0"
    using assms(1) by (auto simp: high_water_exact_def in_memory_def with_data_dir_def)
  then show ?thesis by (intro has_write_after_entries wal_high_water.inv_run assms(2))
qed

definition demo_write :: TransactionRecord where
  "demo_write = (demo_record 1 [1])\<lparr>timestamp_epoch_ms := 9\<rparr>"

lemma demo_stream_key: "obfuscated_stream_key (table_env T) (lit ''s'') = Ok []"
  by (simp add: obfuscated_stream_key_def stable_id_def table_env_def lit_def trim_def
      to_ascii_lowercase_def is_whitespace_def)

lemma demo_run_entries:
  "fst (stream_entries (table_env T) io_good (lit ''s'')
     (manager_step (table_env T) in_memory (io_good, CallAppend (lit ''s'') demo_write default_context))) =
   [demo_write]"
  by (simp add: append_with_context_def demo_stream_key hydrate_stream_if_needed_def in_memory_def
      mode_of_key_def get_or_spawn_worker_for_stream_key_def spawn_worker_def run_command_def
      handle_append_def is_ordered_def append_ordered_def raise_high_water_eq stream_entries_def
      with_records_def Let_def)

theorem has_write_after_exact_witness:
  "fst (has_write_after (table_env demo_table) io_good (lit ''s'') 5
     (foldl (manager_step (table_env demo_table)) in_memory
        [(io_good, CallAppend (lit ''s'') demo_write default_context)]))"
  using has_write_after_exact [of in_memory "lit ''d''" Map.empty "table_env demo_table"
      "[(io_good, CallAppend (lit ''s'') demo_write default_context)]" io_good "lit ''s''" 5]
    demo_run_entries [of demo_table]
  by (simp add: demo_write_def is_data_write_def demo_record_def new_record_def)

end
