(* ===== verification/StdText.thy ===== *)
theory StdText
  imports Strings_Util
begin

text \<open>
  The parts of Rust's standard library that field values go through: validation and lossy decoding
  of UTF-8, parsing and printing of 128-bit integers, and IEEE 754 double precision numbers by
  their bit patterns.  Decimal parsing and printing of floats is left to the environment of the
  conversion functions.
\<close>

section \<open>UTF-8\<close>

definition continuation :: "byte \<Rightarrow> bool" where
  "continuation b \<longleftrightarrow> 128 \<le> b \<and> b \<le> 191"

text \<open>
  One step of the decoder on a non-empty input: a scalar value with the length of its encoding, or
  the length of the maximal invalid prefix.
\<close>

definition second_ok :: "byte \<Rightarrow> byte \<Rightarrow> bool" where
  "second_ok b0 b1 \<longleftrightarrow>
     (if b0 = 224 then 160 \<le> b1 \<and> b1 \<le> 191
      else if b0 = 237 then 128 \<le> b1 \<and> b1 \<le> 159
      else if b0 = 240 then 144 \<le> b1 \<and> b1 \<le> 191
      else if b0 = 244 then 128 \<le> b1 \<and> b1 \<le> 143
      else continuation b1)"

definition low6 :: "byte \<Rightarrow> nat" where
  "low6 b = unat b mod 64"

definition byte_at :: "bytes \<Rightarrow> nat \<Rightarrow> byte" where
  "byte_at bs i = (if i < length bs then bs ! i else 0)"

text \<open>Past the end the library reads a zero byte, which no position of a multi-byte sequence accepts.\<close>

definition utf8_step :: "bytes \<Rightarrow> nat + (nat \<times> nat)" where
  "utf8_step bs =
     (let b0 = byte_at bs 0; b1 = byte_at bs 1; b2 = byte_at bs 2; b3 = byte_at bs 3
      in if b0 < 128 then Inr (unat b0, 1)
         else if 194 \<le> b0 \<and> b0 \<le> 223 then
           (if continuation b1 then Inr ((unat b0 - 192) * 64 + low6 b1, 2) else Inl 1)
         else if 224 \<le> b0 \<and> b0 \<le> 239 then
           (if \<not> second_ok b0 b1 then Inl 1
            else if \<not> continuation b2 then Inl 2
            else Inr ((unat b0 - 224) * 4096 + low6 b1 * 64 + low6 b2, 3))
         else if 240 \<le> b0 \<and> b0 \<le> 244 then
           (if \<not> second_ok b0 b1 then Inl 1
            else if \<not> continuation b2 then Inl 2
            else if \<not> continuation b3 then Inl 3
            else Inr ((unat b0 - 240) * 262144 + low6 b1 * 4096 + low6 b2 * 64 + low6 b3, 4))
         else Inl 1)"

lemma utf8_step_length:
  "utf8_step bs = Inl n \<Longrightarrow> 0 < n" "utf8_step bs = Inr (c, n) \<Longrightarrow> 0 < n"
  by (auto simp: utf8_step_def Let_def split: if_splits)

lemma utf8_step_neq0: "utf8_step bs \<noteq> Inl 0" "utf8_step bs \<noteq> Inr (c, 0)"
  using utf8_step_length by fastforce+

text \<open>\<open>std::str::from_utf8\<close>.\<close>

function from_utf8 :: "bytes \<Rightarrow> ustr option" where
  "from_utf8 bs =
     (if bs = [] then Some []
      else case utf8_step bs of
             Inl _ \<Rightarrow> None
           | Inr (c, n) \<Rightarrow> (case from_utf8 (drop n bs) of None \<Rightarrow> None | Some s \<Rightarrow> Some (c # s)))"
  by pat_completeness auto
termination
  by (relation "measure length") (auto dest: utf8_step_length)

declare from_utf8.simps [simp del]

text \<open>\<open>String::from_utf8_lossy\<close>: every maximal invalid prefix becomes U+FFFD.\<close>

function from_utf8_lossy :: "bytes \<Rightarrow> ustr" where
  "from_utf8_lossy bs =
     (if bs = [] then []
      else case utf8_step bs of
             Inl n \<Rightarrow> 65533 # from_utf8_lossy (drop n bs)
           | Inr (c, n) \<Rightarrow> c # from_utf8_lossy (drop n bs))"
  by pat_completeness auto
termination
  by (relation "measure length") (auto dest: utf8_step_length)

declare from_utf8_lossy.simps [simp del]

lemma from_utf8_Nil [simp]: "from_utf8 [] = Some []"
  by (subst from_utf8.simps) simp

lemma from_utf8_ascii_Cons:
  assumes "b < 128"
  shows "from_utf8 (b # bs) = (case from_utf8 bs of None \<Rightarrow> None | Some s \<Rightarrow> Some (unat b # s))"
  using assms by (subst from_utf8.simps) (simp add: utf8_step_def byte_at_def)

lemma from_utf8_ascii: "\<forall>b \<in> set bs. b < 128 \<Longrightarrow> from_utf8 bs = Some (map unat bs)"
  by (induction bs) (simp_all add: from_utf8_ascii_Cons)

lemma from_utf8_lossy_valid: "from_utf8 bs = Some s \<Longrightarrow> from_utf8_lossy bs = s"
proof (induction bs arbitrary: s rule: from_utf8.induct)
  case (1 bs)
  show ?case
  proof (cases "bs = []")
    case True
    with 1 show ?thesis by (simp add: from_utf8_lossy.simps)
  next
    case False
    with 1(2) obtain c n s' where
      "utf8_step bs = Inr (c, n)" "from_utf8 (drop n bs) = Some s'" "s = c # s'"
      by (subst (asm) from_utf8.simps) (auto split: sum.splits option.splits)
    with False 1(1) [OF False] show ?thesis
      by (subst from_utf8_lossy.simps) simp
  qed
qed

section \<open>Integers\<close>

text \<open>\<open>parse::<i128>\<close> and \<open>parse::<u128>\<close>: an optional sign, at least one digit, and no overflow.\<close>

definition is_digit :: "nat \<Rightarrow> bool" where
  "is_digit c \<longleftrightarrow> 48 \<le> c \<and> c \<le> 57"

definition digits_value :: "ustr \<Rightarrow> nat" where
  "digits_value ds = foldl (\<lambda>a c. 10 * a + (c - 48)) 0 ds"

definition parse_digits :: "ustr \<Rightarrow> nat option" where
  "parse_digits ds = (if ds \<noteq> [] \<and> list_all is_digit ds then Some (digits_value ds) else None)"

definition in_range :: "int \<Rightarrow> int \<Rightarrow> int \<Rightarrow> int option" where
  "in_range lo hi v = (if lo \<le> v \<and> v \<le> hi then Some v else None)"

definition i128_min :: int where "i128_min = - (2 ^ 127)"
definition i128_max :: int where "i128_max = 2 ^ 127 - 1"
definition u128_max :: int where "u128_max = 2 ^ 128 - 1"

definition parse_i128 :: "ustr \<Rightarrow> int option" where
  "parse_i128 s =
     (case s of
        [] \<Rightarrow> None
      | c # ds \<Rightarrow>
          if c = 45 then Option.bind (parse_digits ds) (\<lambda>n. in_range i128_min i128_max (- int n))
          else if c = 43 then Option.bind (parse_digits ds) (\<lambda>n. in_range i128_min i128_max (int n))
          else Option.bind (parse_digits s) (\<lambda>n. in_range i128_min i128_max (int n)))"

definition parse_u128 :: "ustr \<Rightarrow> int option" where
  "parse_u128 s =
     (case s of
        [] \<Rightarrow> None
      | c # ds \<Rightarrow>
          if c = 43 then Option.bind (parse_digits ds) (\<lambda>n. in_range 0 u128_max (int n))
          else Option.bind (parse_digits s) (\<lambda>n. in_range 0 u128_max (int n)))"

text \<open>\<open>to_string\<close> on signed integers.\<close>

definition int_to_string :: "int \<Rightarrow> ustr" where
  "int_to_string v = (if v < 0 then 45 # decimal (nat (- v)) else decimal (nat v))"

lemma decimal_digits: "list_all is_digit (decimal n)" "decimal n \<noteq> []"
proof -
  show "list_all is_digit (decimal n)"
  proof (induction n rule: decimal.induct)
    case (1 n)
    have "is_digit (48 + k)" if "k < 10" for k using that by (simp add: is_digit_def)
    with 1 show ?case by (subst decimal.simps) simp
  qed
  show "decimal n \<noteq> []" by (subst decimal.simps) simp
qed

lemma digits_value_snoc: "digits_value (ds @ [c]) = 10 * digits_value ds + (c - 48)"
  by (simp add: digits_value_def)

lemma digits_value_decimal: "digits_value (decimal n) = n"
proof (induction n rule: decimal.induct)
  case (1 n)
  show ?case
  proof (cases "n < 10")
    case True
    then show ?thesis by (subst decimal.simps) (simp add: digits_value_def)
  next
    case False
    then have "digits_value (decimal n) = 10 * digits_value (decimal (n div 10)) + n mod 10"
      by (subst decimal.simps) (simp add: digits_value_snoc)
    with 1 False show ?thesis by simp
  qed
qed

lemma parse_digits_decimal: "parse_digits (decimal n) = Some n"
  by (simp add: parse_digits_def decimal_digits digits_value_decimal)

lemma decimal_hd: "decimal n = c # ds \<Longrightarrow> is_digit c"
  using decimal_digits(1) [of n] by simp

lemma parse_i128_int_to_string:
  "i128_min \<le> v \<Longrightarrow> v \<le> i128_max \<Longrightarrow> parse_i128 (int_to_string v) = Some v"
proof (cases "v < 0")
  case True
  assume "i128_min \<le> v" "v \<le> i128_max"
  with True show ?thesis
    by (simp add: parse_i128_def int_to_string_def parse_digits_decimal in_range_def)
next
  case False
  assume r: "i128_min \<le> v" "v \<le> i128_max"
  obtain c ds where d: "decimal (nat v) = c # ds"
    using decimal_digits(2) [of "nat v"] by (cases "decimal (nat v)") auto
  have "is_digit c" using d by (rule decimal_hd)
  moreover have "parse_digits (c # ds) = Some (nat v)"
    using parse_digits_decimal [of "nat v"] by (simp only: d)
  ultimately show ?thesis using False r d
    by (auto simp: parse_i128_def int_to_string_def in_range_def is_digit_def)
qed

lemma is_digit_plain: "is_digit c \<Longrightarrow> c < 128 \<and> \<not> is_whitespace c"
  by (auto simp: is_digit_def is_whitespace_def)

lemma int_to_string_ascii: "\<forall>c \<in> set (int_to_string v). c < 128 \<and> \<not> is_whitespace c"
proof
  fix c assume "c \<in> set (int_to_string v)"
  then have "c = 45 \<or> is_digit c"
    using decimal_digits(1) [of "nat v"] decimal_digits(1) [of "nat (- v)"]
    by (auto simp: int_to_string_def list_all_iff split: if_splits)
  then show "c < 128 \<and> \<not> is_whitespace c"
    using is_digit_plain by (auto simp: is_whitespace_def)
qed

lemma trim_no_whitespace:
  assumes "\<forall>c \<in> set s. \<not> is_whitespace c"
  shows "trim s = s"
proof -
  have d: "dropWhile is_whitespace t = t" if "\<forall>c \<in> set t. \<not> is_whitespace c" for t
    using that by (cases t) simp_all
  have "dropWhile is_whitespace (rev s) = rev s" using assms by (intro d) simp
  with d [OF assms] show ?thesis by (simp add: trim_def)
qed

lemma trim_int_to_string [simp]: "trim (int_to_string v) = int_to_string v"
  using int_to_string_ascii by (intro trim_no_whitespace) blast

lemma from_utf8_as_bytes_ascii: "\<forall>c \<in> set s. c < 128 \<Longrightarrow> from_utf8 (as_bytes s) = Some s"
proof (induction s)
  case Nil
  then show ?case by (simp add: as_bytes_def)
next
  case (Cons c s)
  then have "as_bytes (c # s) = of_nat c # as_bytes s" "(of_nat c :: byte) < 128"
    by (simp_all add: as_bytes_def utf8_char_def word_less_nat_alt unat_of_nat)
  moreover have "unat (of_nat c :: byte) = c" using Cons by (simp add: unat_of_nat)
  ultimately show ?case using Cons by (simp add: from_utf8_ascii_Cons)
qed

lemma from_utf8_int_to_string [simp]: "from_utf8 (as_bytes (int_to_string v)) = Some (int_to_string v)"
  using int_to_string_ascii by (intro from_utf8_as_bytes_ascii) blast

text \<open>Two's complement in \<open>n\<close> bytes: \<open>to_le_bytes\<close> and \<open>from_le_bytes\<close> on signed integers.\<close>

definition to_le_signed :: "nat \<Rightarrow> int \<Rightarrow> bytes" where
  "to_le_signed n v = to_le n (nat (v mod 2 ^ (8 * n)))"

definition from_le_signed :: "bytes \<Rightarrow> int" where
  "from_le_signed bs =
     (let u = int (from_le bs); m = 2 ^ (8 * length bs) in if 2 * u < m then u else u - m)"

lemma pow256: "(256::nat) ^ n = 2 ^ (8 * n)"
  by (simp add: power_mult)

lemma from_le_signed_to_le:
  assumes "0 < n" "- (2 ^ (8 * n - 1)) \<le> v" "v < 2 ^ (8 * n - 1)"
  shows "from_le_signed (to_le_signed n v) = v"
proof -
  define m :: int where "m = 2 ^ (8 * n)"
  define h :: int where "h = 2 ^ (8 * n - 1)"
  have mh: "m = 2 * h" using assms(1) unfolding m_def h_def
    by (metis One_nat_def Suc_pred mult_pos_pos power_Suc zero_less_numeral)
  have h: "0 < h" "- h \<le> v" "v < h" using assms by (simp_all add: h_def)
  have "nat (v mod m) < 256 ^ n" using mh h(1)
    by (simp add: pow256 m_def nat_less_iff)
  then have u: "int (from_le (to_le n (nat (v mod m)))) = v mod m"
    using mh h(1) by (simp add: from_le_to_le)
  have r: "from_le_signed (to_le_signed n v) = (if 2 * (v mod m) < m then v mod m else v mod m - m)"
    using u by (simp add: from_le_signed_def to_le_signed_def m_def [symmetric] Let_def)
  show ?thesis
  proof (cases "0 \<le> v")
    case True
    then have "v mod m = v" using h mh by simp
    with r h mh show ?thesis by simp
  next
    case False
    then have "(v + m) mod m = v + m" using h mh by (intro mod_pos_pos_trivial) simp_all
    then have "v mod m = v + m" by simp
    with r h mh False show ?thesis by simp
  qed
qed

lemma length_to_le_signed [simp]: "length (to_le_signed n v) = n"
  by (simp add: to_le_signed_def)

section \<open>Double precision numbers\<close>

text \<open>
  An \<open>f64\<close> is its bit pattern: a sign bit, eleven bits of exponent and 52 bits of fraction.  The
  magnitude of a finite one is \<open>f64_mantissa b * 2 ^ e\<close> for the exponent \<open>e = f64_scale b\<close>.
\<close>

type_synonym f64 = u64
type_synonym f32 = u32

definition f64_magnitude :: "f64 \<Rightarrow> nat" where
  "f64_magnitude b = unat b mod 2 ^ 63"

definition f64_neg :: "f64 \<Rightarrow> bool" where
  "f64_neg b \<longleftrightarrow> 2 ^ 63 \<le> unat b"

definition f64_exponent :: "f64 \<Rightarrow> nat" where
  "f64_exponent b = f64_magnitude b div 2 ^ 52"

definition f64_fraction :: "f64 \<Rightarrow> nat" where
  "f64_fraction b = f64_magnitude b mod 2 ^ 52"

definition f64_is_nan :: "f64 \<Rightarrow> bool" where
  "f64_is_nan b \<longleftrightarrow> f64_exponent b = 2047 \<and> f64_fraction b \<noteq> 0"

definition f64_is_finite :: "f64 \<Rightarrow> bool" where
  "f64_is_finite b \<longleftrightarrow> f64_exponent b \<noteq> 2047"

definition f64_mantissa :: "f64 \<Rightarrow> nat" where
  "f64_mantissa b = (if f64_exponent b = 0 then f64_fraction b else 2 ^ 52 + f64_fraction b)"

definition f64_scale :: "f64 \<Rightarrow> int" where
  "f64_scale b = (if f64_exponent b = 0 then - 1074 else int (f64_exponent b) - 1075)"

text \<open>\<open>v.fract() == 0.0\<close> on a finite number, and the integer it is.\<close>

definition f64_is_integral :: "f64 \<Rightarrow> bool" where
  "f64_is_integral b \<longleftrightarrow>
     f64_is_finite b \<and> (0 \<le> f64_scale b \<or> 2 ^ nat (- f64_scale b) dvd f64_mantissa b)"

definition f64_trunc :: "f64 \<Rightarrow> int" where
  "f64_trunc b =
     (let m = (if 0 \<le> f64_scale b then f64_mantissa b * 2 ^ nat (f64_scale b)
               else f64_mantissa b div 2 ^ nat (- f64_scale b))
      in if f64_neg b then - int m else int m)"

text \<open>\<open>v as i128\<close> and \<open>v as u128\<close> saturate.\<close>

definition f64_to_i128 :: "f64 \<Rightarrow> int" where
  "f64_to_i128 b = max i128_min (min i128_max (f64_trunc b))"

definition f64_to_u128 :: "f64 \<Rightarrow> int" where
  "f64_to_u128 b = max 0 (min u128_max (f64_trunc b))"

text \<open>\<open>partial_cmp\<close>: both zeros are equal, and NaN is incomparable.\<close>

datatype ordering = Less | Equal | Greater

definition cmp :: "'a::linorder \<Rightarrow> 'a \<Rightarrow> ordering" where
  "cmp a b = (if a < b then Less else if a = b then Equal else Greater)"

definition f64_rank :: "f64 \<Rightarrow> int" where
  "f64_rank b = (if f64_neg b then - int (f64_magnitude b) else int (f64_magnitude b))"

definition f64_partial_cmp :: "f64 \<Rightarrow> f64 \<Rightarrow> ordering option" where
  "f64_partial_cmp a b =
     (if f64_is_nan a \<or> f64_is_nan b then None else Some (cmp (f64_rank a) (f64_rank b)))"

text \<open>\<open>v as f64\<close> on an integer below \<open>2 ^ 128\<close>: round to nearest, ties to even.\<close>

fun bit_length :: "nat \<Rightarrow> nat" where
  "bit_length n = (if n = 0 then 0 else Suc (bit_length (n div 2)))"

declare bit_length.simps [simp del]

definition round_shift :: "nat \<Rightarrow> nat \<Rightarrow> nat" where
  "round_shift n k =
     (let q = n div 2 ^ k; r = 2 * (n mod 2 ^ k)
      in if r < 2 ^ k then q else if r = 2 ^ k then q + q mod 2 else q + 1)"

definition nat_to_f64 :: "nat \<Rightarrow> nat" where
  "nat_to_f64 n =
     (let l = bit_length n
      in if n = 0 then 0
         else if l \<le> 53 then (l + 1022) * 2 ^ 52 + (n * 2 ^ (53 - l) - 2 ^ 52)
         else (l + 1022) * 2 ^ 52 + (round_shift n (l - 53) - 2 ^ 52))"

definition int_to_f64 :: "int \<Rightarrow> f64" where
  "int_to_f64 v = (if v < 0 then of_nat (2 ^ 63 + nat_to_f64 (nat (- v))) else of_nat (nat_to_f64 (nat v)))"

text \<open>\<open>f32 as f64\<close> is exact; \<open>f64 as f32\<close> rounds to nearest, ties to even, and overflows to infinity.\<close>

definition f32_to_f64 :: "f32 \<Rightarrow> f64" where
  "f32_to_f64 b =
     (let u = unat b; sign = u div 2 ^ 31 * 2 ^ 63; e = u mod 2 ^ 31 div 2 ^ 23; f = u mod 2 ^ 23;
          l = bit_length f
      in of_nat (sign +
           (if e = 255 then 2047 * 2 ^ 52 + f * 2 ^ 29
            else if e = 0 then (if f = 0 then 0 else (l + 873) * 2 ^ 52 + (f * 2 ^ (53 - l) - 2 ^ 52))
            else (e + 896) * 2 ^ 52 + f * 2 ^ 29)))"

definition f64_to_f32 :: "f64 \<Rightarrow> f32" where
  "f64_to_f32 b =
     (let sign = (if f64_neg b then 2 ^ 31 else 0); m = f64_mantissa b;
          q = max (f64_scale b + int (bit_length m) - 24) (- 149); k = q - f64_scale b
      in of_nat (sign +
           (if f64_is_nan b then 255 * 2 ^ 23 + 2 ^ 22 + f64_fraction b div 2 ^ 29 mod 2 ^ 22
            else if \<not> f64_is_finite b then 255 * 2 ^ 23
            else if m = 0 then 0
            else min (255 * 2 ^ 23)
                   (nat (q + 149) * 2 ^ 23 + (if 0 \<le> k then round_shift m (nat k) else m * 2 ^ nat (- k))))))"

end
