(* ===== verification/Schema.thy ===== *)
theory Schema
  imports Strings_Util
begin

text \<open>
  Field kinds and table schemas: \<open>common/src/schema\<close> (field kinds and their validation) and
  \<open>serverlib/src/engine/database/table/schema_def.rs\<close>, the list of field definitions with its cache
  of positions by name.
\<close>

section \<open>Fields\<close>

datatype FieldKind =
    IntT u8 | UInt u8 | Float u8 | Date | DateTime | Timestamp | Uuid | StringFixed nat | Text
  | Enum "ustr list" | Spatial | Blob

datatype FieldIndex = NotIndexed | Indexed | PrimaryKey

datatype SystemFieldVisibility = Visible | Hidden

record FieldMetadata =
  comment :: "ustr option"
  auto_increment :: bool
  unique :: bool
  original_sql_type :: "ustr option"
  character_set :: "ustr option"
  collation :: "ustr option"
  system_visibility :: SystemFieldVisibility

record FieldDef =
  seqno :: u32
  field_name :: ustr
  field_type :: FieldKind
  nullable :: bool
  indexed :: FieldIndex
  default_value :: "bytes option"
  metadata :: "FieldMetadata option"

datatype SchemaValidationError =
    EmptyFieldName | InvalidBitWidth | InvalidFixedStringLen | EmptyEnumVariants | EmptyEnumVariantValue

datatype SchemaError =
    DuplicateField | FieldNotFound | SeqnoConflict | InvalidFieldType | InvalidFieldName

definition normalize_field_name :: "ustr \<Rightarrow> SchemaValidationError + ustr" where
  "normalize_field_name name =
     (let normalized = to_ascii_lowercase (trim name)
      in if normalized = [] then Err EmptyFieldName else Ok normalized)"

fun validate_field_kind :: "FieldKind \<Rightarrow> SchemaValidationError + unit" where
  "validate_field_kind (IntT bits) = (if bits \<in> {8, 16, 32, 64} then Ok () else Err InvalidBitWidth)"
| "validate_field_kind (UInt bits) = (if bits \<in> {8, 16, 32, 64} then Ok () else Err InvalidBitWidth)"
| "validate_field_kind (Float bits) = (if bits \<in> {8, 16, 32, 64} then Ok () else Err InvalidBitWidth)"
| "validate_field_kind (StringFixed len) = (if len = 0 then Err InvalidFixedStringLen else Ok ())"
| "validate_field_kind (Enum variants) =
     (if variants = [] then Err EmptyEnumVariants
      else if \<exists>value \<in> set variants. trim value = [] then Err EmptyEnumVariantValue else Ok ())"
| "validate_field_kind _ = Ok ()"

section \<open>Table schemas\<close>

record TableSchema =
  schema_fields :: "FieldDef list"
  field_indexes_by_name :: "ustr \<rightharpoonup> nat"

text \<open>\<open>entry(name).or_insert(index)\<close>: the first position of a name stays.\<close>

fun index_fields :: "nat \<Rightarrow> FieldDef list \<Rightarrow> (ustr \<rightharpoonup> nat) \<Rightarrow> (ustr \<rightharpoonup> nat)" where
  "index_fields i [] m = m"
| "index_fields i (f # fs) m =
     index_fields (Suc i) fs (if m (field_name f) = None then m(field_name f \<mapsto> i) else m)"

definition rebuild_field_index_cache :: "TableSchema \<Rightarrow> TableSchema" where
  "rebuild_field_index_cache s = s\<lparr>field_indexes_by_name := index_fields 0 (schema_fields s) Map.empty\<rparr>"

definition new_schema :: "FieldDef list \<Rightarrow> TableSchema" where
  "new_schema fs = rebuild_field_index_cache \<lparr>schema_fields = fs, field_indexes_by_name = Map.empty\<rparr>"

definition get :: "'a list \<Rightarrow> nat \<Rightarrow> 'a option" where
  "get xs i = (if i < length xs then Some (xs ! i) else None)"

definition field :: "TableSchema \<Rightarrow> ustr \<Rightarrow> FieldDef option" where
  "field s name =
     (let normalized = to_ascii_lowercase (trim name)
      in case Option.bind (field_indexes_by_name s normalized) (get (schema_fields s)) of
           Some f \<Rightarrow> Some f
         | None \<Rightarrow> List.find (\<lambda>f. field_name f = normalized) (schema_fields s))"

text \<open>\<open>validate\<close> walks the fields with the names and numbers seen so far.\<close>

fun validate_fields :: "ustr set \<Rightarrow> u32 set \<Rightarrow> FieldDef list \<Rightarrow> SchemaError + unit" where
  "validate_fields seen_names seen_seqnos [] = Ok ()"
| "validate_fields seen_names seen_seqnos (f # fs) =
     (case normalize_field_name (field_name f) of
        Inl _ \<Rightarrow> Err InvalidFieldName
      | Inr normalized \<Rightarrow>
          (case validate_field_kind (field_type f) of
             Inl _ \<Rightarrow> Err InvalidFieldType
           | Inr _ \<Rightarrow>
               if normalized \<in> seen_names then Err DuplicateField
               else if seqno f \<in> seen_seqnos then Err SeqnoConflict
               else validate_fields (insert normalized seen_names) (insert (seqno f) seen_seqnos) fs))"

definition validate :: "TableSchema \<Rightarrow> SchemaError + unit" where
  "validate s = validate_fields {} {} (schema_fields s)"

text \<open>\<open>iter().position\<close>.\<close>

fun position :: "('a \<Rightarrow> bool) \<Rightarrow> 'a list \<Rightarrow> nat option" where
  "position P [] = None"
| "position P (x # xs) = (if P x then Some 0 else map_option Suc (position P xs))"

definition add_field :: "FieldDef \<Rightarrow> TableSchema \<Rightarrow> SchemaError + TableSchema" where
  "add_field f s =
     (case normalize_field_name (field_name f) of
        Inl _ \<Rightarrow> Err InvalidFieldName
      | Inr name \<Rightarrow>
          (case validate_field_kind (field_type f) of
             Inl _ \<Rightarrow> Err InvalidFieldType
           | Inr _ \<Rightarrow>
               if list_ex (\<lambda>g. field_name g = name) (schema_fields s) then Err DuplicateField
               else if list_ex (\<lambda>g. seqno g = seqno f) (schema_fields s) then Err SeqnoConflict
               else Ok (rebuild_field_index_cache
                          (s\<lparr>schema_fields := schema_fields s @ [f\<lparr>field_name := name\<rparr>]\<rparr>))))"

definition remove_field :: "ustr \<Rightarrow> TableSchema \<Rightarrow> SchemaError + TableSchema" where
  "remove_field name s =
     (let normalized = to_ascii_lowercase (trim name)
      in case position (\<lambda>f. field_name f = normalized) (schema_fields s) of
           None \<Rightarrow> Err FieldNotFound
         | Some pos \<Rightarrow>
             Ok (rebuild_field_index_cache (s\<lparr>schema_fields := take pos (schema_fields s) @ drop (Suc pos) (schema_fields s)\<rparr>)))"

definition update_field :: "FieldDef \<Rightarrow> TableSchema \<Rightarrow> SchemaError + TableSchema" where
  "update_field f s =
     (case normalize_field_name (field_name f) of
        Inl _ \<Rightarrow> Err InvalidFieldName
      | Inr name \<Rightarrow>
          (case validate_field_kind (field_type f) of
             Inl _ \<Rightarrow> Err InvalidFieldType
           | Inr _ \<Rightarrow>
               (case position (\<lambda>g. field_name g = name) (schema_fields s) of
                  None \<Rightarrow> Err FieldNotFound
                | Some target_idx \<Rightarrow>
                    if list_ex (\<lambda>(idx, g). idx \<noteq> target_idx \<and> seqno g = seqno f) (enumerate 0 (schema_fields s))
                    then Err SeqnoConflict
                    else Ok (rebuild_field_index_cache
                               (s\<lparr>schema_fields := (schema_fields s)[target_idx := f\<lparr>field_name := name\<rparr>]\<rparr>)))))"

section \<open>The position cache\<close>

lemma index_fields_eq:
  "index_fields i fs m n =
     (case m n of Some j \<Rightarrow> Some j
      | None \<Rightarrow> map_option ((+) i) (position (\<lambda>f. field_name f = n) fs))"
proof (induction fs arbitrary: i m)
  case Nil
  then show ?case by (simp split: option.split)
next
  case (Cons f fs)
  have "(+) (Suc i) = (\<lambda>x. Suc (i + x))" by auto
  with Cons show ?case by (auto simp: option.map_comp comp_def split: option.splits)
qed

definition cache_exact :: "TableSchema \<Rightarrow> bool" where
  "cache_exact s \<longleftrightarrow> field_indexes_by_name s = index_fields 0 (schema_fields s) Map.empty"

lemma cache_exact_rebuild [simp]: "cache_exact (rebuild_field_index_cache s)"
  by (simp add: cache_exact_def rebuild_field_index_cache_def)

lemma fields_rebuild [simp]: "schema_fields (rebuild_field_index_cache s) = schema_fields s"
  by (simp add: rebuild_field_index_cache_def)

lemma position_Some:
  "position P xs = Some i \<longleftrightarrow> i < length xs \<and> P (xs ! i) \<and> (\<forall>j<i. \<not> P (xs ! j))"
proof (induction xs arbitrary: i)
  case (Cons x xs)
  then show ?case by (cases i) (auto simp: less_Suc_eq_0_disj)
qed simp

lemma position_None: "position P xs = None \<longleftrightarrow> (\<forall>x \<in> set xs. \<not> P x)"
  by (induction xs) auto

lemma get_position: "Option.bind (position P xs) (get xs) = List.find P xs"
proof (induction xs)
  case (Cons x xs)
  have "Option.bind (map_option Suc (position P xs)) (get (x # xs)) = Option.bind (position P xs) (get xs)"
    by (cases "position P xs") (simp_all add: get_def)
  with Cons show ?case by (cases "P x") (simp_all, simp add: get_def)
qed simp

lemma field_eq_find:
  assumes "cache_exact s"
  shows "field s name = List.find (\<lambda>f. field_name f = to_ascii_lowercase (trim name)) (schema_fields s)"
proof -
  have "field_indexes_by_name s n = position (\<lambda>f. field_name f = n) (schema_fields s)" for n
    using assms by (simp add: cache_exact_def index_fields_eq option.map_ident comp_def)
      (cases "position (\<lambda>f. field_name f = n) (schema_fields s)"; simp)
  then show ?thesis by (simp add: field_def get_position Let_def split: option.split)
qed

section \<open>Well-formed schemas\<close>

definition field_ok :: "FieldDef \<Rightarrow> bool" where
  "field_ok f \<longleftrightarrow> normalize_field_name (field_name f) = Ok (field_name f) \<and> validate_field_kind (field_type f) = Ok ()"

definition schema_wf :: "TableSchema \<Rightarrow> bool" where
  "schema_wf s \<longleftrightarrow>
     (\<forall>f \<in> set (schema_fields s). field_ok f) \<and> distinct (map field_name (schema_fields s)) \<and>
     distinct (map seqno (schema_fields s)) \<and> cache_exact s"

lemma normalize_field_name_idem:
  "normalize_field_name n = Ok m \<Longrightarrow> normalize_field_name m = Ok m"
  by (auto simp: normalize_field_name_def Let_def trim_trimmed trimmed_lower trimmed_trim
      to_ascii_lowercase_idem split: if_splits)

lemma schema_wf_new_Nil: "schema_wf (new_schema [])"
  by (simp add: schema_wf_def new_schema_def)

lemma normalized_field_ok:
  "normalize_field_name (field_name f) = Ok name \<Longrightarrow> validate_field_kind (field_type f) = Ok () \<Longrightarrow>
   field_ok (f\<lparr>field_name := name\<rparr>)"
  by (simp add: field_ok_def normalize_field_name_idem)

lemma add_field_wf:
  assumes "schema_wf s" "add_field f s = Ok s'"
  shows "schema_wf s'"
proof -
  obtain name where n: "normalize_field_name (field_name f) = Ok name"
      "validate_field_kind (field_type f) = Ok ()"
      "\<forall>g \<in> set (schema_fields s). field_name g \<noteq> name \<and> seqno g \<noteq> seqno f"
      "s' = rebuild_field_index_cache (s\<lparr>schema_fields := schema_fields s @ [f\<lparr>field_name := name\<rparr>]\<rparr>)"
    using assms(2) by (auto simp: add_field_def list_ex_iff split: sum.splits if_splits)
  with assms(1) normalized_field_ok [OF n(1,2)] show ?thesis by (auto simp: schema_wf_def)
qed

lemma remove_field_wf:
  assumes "schema_wf s" "remove_field name s = Ok s'"
  shows "schema_wf s'"
proof -
  obtain pos where p: "schema_fields s' = take pos (schema_fields s) @ drop (Suc pos) (schema_fields s)" "cache_exact s'"
    using assms(2) by (auto simp: remove_field_def Let_def split: option.splits)
  have d: "distinct (take pos xs @ drop (Suc pos) xs)" if "distinct xs" for xs :: "'x list"
    using that set_take_disj_set_drop_if_distinct [of xs pos "Suc pos"] by auto
  have "set (schema_fields s') \<subseteq> set (schema_fields s)"
    using p(1) by (auto dest: in_set_takeD in_set_dropD)
  with assms(1) p show ?thesis
    using d [of "map field_name (schema_fields s)"] d [of "map seqno (schema_fields s)"]
    by (auto simp: schema_wf_def take_map drop_map)
qed

lemma distinct_update:
  assumes "distinct xs" "\<forall>j < length xs. j \<noteq> i \<longrightarrow> xs ! j \<noteq> y"
  shows "distinct (xs[i := y])"
  using assms by (cases "i < length xs") (auto simp: distinct_conv_nth nth_list_update)

lemma update_field_wf:
  assumes "schema_wf s" "update_field f s = Ok s'"
  shows "schema_wf s'"
proof -
  obtain name i where n: "normalize_field_name (field_name f) = Ok name"
      "validate_field_kind (field_type f) = Ok ()"
      "position (\<lambda>g. field_name g = name) (schema_fields s) = Some i"
      "\<not> list_ex (\<lambda>(idx, g). idx \<noteq> i \<and> seqno g = seqno f) (enumerate 0 (schema_fields s))"
      "s' = rebuild_field_index_cache (s\<lparr>schema_fields := (schema_fields s)[i := f\<lparr>field_name := name\<rparr>]\<rparr>)"
    using assms(2) by (auto simp: update_field_def split: sum.splits option.splits if_splits)
  let ?fs = "schema_fields s" let ?g = "f\<lparr>field_name := name\<rparr>"
  have i: "i < length ?fs" "field_name (?fs ! i) = name" using n(3) by (auto simp: position_Some)
  have "\<forall>j < length ?fs. j \<noteq> i \<longrightarrow> seqno (?fs ! j) \<noteq> seqno f"
    using n(4) by (auto simp: list_ex_iff in_set_enumerate_eq)
  then have "distinct (map seqno (?fs[i := ?g]))"
    using assms(1) by (simp add: map_update schema_wf_def distinct_update)
  moreover have "map field_name (?fs[i := ?g]) = map field_name ?fs"
    using i by (simp add: map_update) (metis length_map list_update_id nth_map)
  moreover have "\<forall>g \<in> set (?fs[i := ?g]). field_ok g"
    using assms(1) normalized_field_ok [OF n(1,2)] set_update_subset_insert [of ?fs i ?g]
    by (auto simp: schema_wf_def)
  ultimately show ?thesis using assms(1) n(5) by (simp add: schema_wf_def)
qed

lemma validate_fields_Ok:
  assumes "\<forall>f \<in> set fs. field_ok f" "distinct (map field_name fs)" "distinct (map seqno fs)"
    "names \<inter> field_name ` set fs = {}" "seqnos \<inter> seqno ` set fs = {}"
  shows "validate_fields names seqnos fs = Ok ()"
  using assms by (induction fs arbitrary: names seqnos) (auto simp: field_ok_def)

lemma find_distinct:
  "distinct (map h xs) \<Longrightarrow> x \<in> set xs \<Longrightarrow> List.find (\<lambda>y. h y = h x) xs = Some x"
  by (induction xs) (auto simp: rev_image_eqI)

lemma normalized_name:
  "normalize_field_name n = Ok m \<Longrightarrow> to_ascii_lowercase (trim n) = m"
  by (auto simp: normalize_field_name_def Let_def split: if_splits)

subsection \<open>Sequences of schema changes\<close>

datatype schema_change = AddField FieldDef | RemoveField ustr | UpdateField FieldDef

definition applied :: "TableSchema \<Rightarrow> SchemaError + TableSchema \<Rightarrow> TableSchema" where
  "applied s r = (case r of Inl _ \<Rightarrow> s | Inr s' \<Rightarrow> s')"

fun schema_step :: "TableSchema \<Rightarrow> schema_change \<Rightarrow> TableSchema" where
  "schema_step s (AddField f) = applied s (add_field f s)"
| "schema_step s (RemoveField n) = applied s (remove_field n s)"
| "schema_step s (UpdateField f) = applied s (update_field f s)"

lemma schema_step_wf: "schema_wf s \<Longrightarrow> schema_wf (schema_step s c)"
  by (cases c) (auto simp: applied_def split: sum.splits intro: add_field_wf remove_field_wf update_field_wf)

interpretation schema_machine: command_machine schema_step "new_schema []" schema_wf "\<lambda>s c. True"
  by unfold_locales (simp_all add: schema_wf_new_Nil schema_step_wf)

lemma wf_valid_lookup:
  assumes "schema_wf s"
  shows "validate s = Ok ()"
    and "f \<in> set (schema_fields s) \<Longrightarrow> to_ascii_lowercase (trim n) = field_name f \<Longrightarrow> field s n = Some f"
    and "to_ascii_lowercase (trim n) \<notin> field_name ` set (schema_fields s) \<Longrightarrow> field s n = None"
proof -
  show "validate s = Ok ()" using assms by (simp add: schema_wf_def validate_def validate_fields_Ok)
  show "f \<in> set (schema_fields s) \<Longrightarrow> to_ascii_lowercase (trim n) = field_name f \<Longrightarrow> field s n = Some f"
    using assms by (simp add: schema_wf_def field_eq_find find_distinct)
  show "to_ascii_lowercase (trim n) \<notin> field_name ` set (schema_fields s) \<Longrightarrow> field s n = None"
    using assms by (auto simp: schema_wf_def field_eq_find find_None_iff image_iff)
qed

text \<open>
  C23. However a schema was built up by adding, removing and updating fields, refused changes
  included, it passes \<open>validate\<close>; every field is found under each spelling of its name that differs
  in case and surrounding blanks only; and a name that no field has is not found, so the cache of
  positions never answers with a stale position.
\<close>

theorem schema_changes_keep_valid:
  fixes changes :: "schema_change list"
  defines "s \<equiv> foldl schema_step (new_schema []) changes"
  shows "validate s = Ok ()
    \<and> (\<forall>f n. f \<in> set (schema_fields s) \<and> to_ascii_lowercase (trim n) = field_name f \<longrightarrow> field s n = Some f)
    \<and> (\<forall>n. to_ascii_lowercase (trim n) \<notin> field_name ` set (schema_fields s) \<longrightarrow> field s n = None)"
proof -
  have "schema_wf s" unfolding s_def by (rule schema_machine.inv_reachable) simp
  then show ?thesis using wf_valid_lookup by blast
qed

text \<open>
  Adding a field and removing it again, by the name as it was given to either call, restores the
  schema, the cache of positions included.
\<close>

theorem add_remove_field:
  assumes "schema_wf s" "add_field f s = Ok s'"
  shows "remove_field (field_name f) s' = Ok s"
proof -
  obtain name where n: "normalize_field_name (field_name f) = Ok name"
      "\<forall>g \<in> set (schema_fields s). field_name g \<noteq> name"
      "s' = rebuild_field_index_cache (s\<lparr>schema_fields := schema_fields s @ [f\<lparr>field_name := name\<rparr>]\<rparr>)"
    using assms(2) by (auto simp: add_field_def list_ex_iff split: sum.splits if_splits)
  have "position (\<lambda>g. field_name g = name) (schema_fields s') = Some (length (schema_fields s))"
    using n(2,3) by (auto simp: position_Some nth_append)
  moreover have "field_indexes_by_name s = index_fields 0 (schema_fields s) Map.empty"
    using assms(1) by (simp add: schema_wf_def cache_exact_def)
  ultimately show ?thesis using n
    by (simp add: remove_field_def normalized_name rebuild_field_index_cache_def)
qed

definition demo_field :: "string \<Rightarrow> u32 \<Rightarrow> FieldDef" where
  "demo_field name n =
     \<lparr>seqno = n, field_name = lit name, field_type = Text, nullable = True, indexed = NotIndexed,
      default_value = None, metadata = None\<rparr>"

lemma demo_names:
  "normalize_field_name (lit ''Name'') = Ok (lit ''name'')"
  "normalize_field_name (lit '' name'') = Ok (lit ''name'')"
  "to_ascii_lowercase (trim (lit ''NAME '')) = lit ''name''"
  by (simp_all add: lit_def normalize_field_name_def trim_def to_ascii_lowercase_def ascii_lower_def
      is_whitespace_def)

theorem schema_changes_keep_valid_witness:
  "field (foldl schema_step (new_schema []) [AddField (demo_field ''Name'' 1), AddField (demo_field '' name'' 2)])
     (lit ''NAME '') = Some (demo_field ''name'' 1)"
proof -
  let ?cs = "[AddField (demo_field ''Name'' 1), AddField (demo_field '' name'' 2)]"
  have "demo_field ''name'' 1 \<in> set (schema_fields (foldl schema_step (new_schema []) ?cs))"
    by (simp add: demo_field_def add_field_def demo_names applied_def new_schema_def)
  moreover have "to_ascii_lowercase (trim (lit ''NAME '')) = field_name (demo_field ''name'' 1)"
    by (simp add: demo_field_def demo_names)
  ultimately show ?thesis using schema_changes_keep_valid [of ?cs] by blast
qed

theorem add_remove_field_witness:
  "\<exists>s'. add_field (demo_field ''Name'' 1) (new_schema []) = Ok s' \<and>
        remove_field (lit ''Name'') s' = Ok (new_schema [])"
proof -
  have "is_ok (add_field (demo_field ''Name'' 1) (new_schema []))"
    by (simp add: demo_field_def add_field_def demo_names new_schema_def)
  then obtain s' where "add_field (demo_field ''Name'' 1) (new_schema []) = Ok s'"
    by (auto simp: is_ok_iff)
  with add_remove_field [OF schema_wf_new_Nil this] show ?thesis by (simp add: demo_field_def)
qed

end
