(* ===== verification/Conversion.thy ===== *)
theory Conversion
  imports StdText Schema
begin

text \<open>
  Stored field values, \<open>serverlib/src/engine/database/schema/migration/conversion.rs\<close>: the tagged
  binary forms of numbers and UUIDs, their rendering, the order that every filter and index uses,
  and the conversion of a value to the type of its field.
\<close>

text \<open>
  The environment: decimal parsing and printing of floats, the text forms of the \<open>uuid\<close> crate, and
  the date and time formats of \<open>chrono\<close> (as seconds since the epoch).
\<close>

record value_env =
  parse_f64 :: "ustr \<Rightarrow> f64 option"
  f64_to_string :: "f64 \<Rightarrow> ustr"
  uuid_parse_str :: "ustr \<Rightarrow> bytes option"
  uuid_to_string :: "bytes \<Rightarrow> ustr"
  naive_date_time :: "string \<Rightarrow> ustr \<Rightarrow> int option"
  naive_date :: "ustr \<Rightarrow> int option"

datatype TypeConversionPolicy = Safe | Force

definition STORED_I8_TAG :: byte where "STORED_I8_TAG = 0x01"
definition STORED_I16_TAG :: byte where "STORED_I16_TAG = 0x02"
definition STORED_I32_TAG :: byte where "STORED_I32_TAG = 0x03"
definition STORED_I64_TAG :: byte where "STORED_I64_TAG = 0x04"
definition STORED_I128_TAG :: byte where "STORED_I128_TAG = 0x05"
definition STORED_U8_TAG :: byte where "STORED_U8_TAG = 0x11"
definition STORED_U16_TAG :: byte where "STORED_U16_TAG = 0x12"
definition STORED_U32_TAG :: byte where "STORED_U32_TAG = 0x13"
definition STORED_U64_TAG :: byte where "STORED_U64_TAG = 0x14"
definition STORED_U128_TAG :: byte where "STORED_U128_TAG = 0x15"
definition STORED_F32_TAG :: byte where "STORED_F32_TAG = 0x21"
definition STORED_F64_TAG :: byte where "STORED_F64_TAG = 0x22"
definition STORED_UUID_TAG :: byte where "STORED_UUID_TAG = 0x31"

lemmas stored_tags =
  STORED_I8_TAG_def STORED_I16_TAG_def STORED_I32_TAG_def STORED_I64_TAG_def STORED_I128_TAG_def
  STORED_U8_TAG_def STORED_U16_TAG_def STORED_U32_TAG_def STORED_U64_TAG_def STORED_U128_TAG_def
  STORED_F32_TAG_def STORED_F64_TAG_def STORED_UUID_TAG_def

datatype StoredNumericValue = Signed int | Unsigned int | FloatValue f64

section \<open>Reading stored values\<close>

definition parse_i128_bytes :: "bytes \<Rightarrow> int option" where
  "parse_i128_bytes value = Option.bind (from_utf8 value) (\<lambda>text. parse_i128 (trim text))"

definition parse_u128_bytes :: "bytes \<Rightarrow> int option" where
  "parse_u128_bytes value = Option.bind (from_utf8 value) (\<lambda>text. parse_u128 (trim text))"

definition parse_f64_bytes :: "value_env \<Rightarrow> bytes \<Rightarrow> f64 option" where
  "parse_f64_bytes V value = Option.bind (from_utf8 value) (\<lambda>text. parse_f64 V (trim text))"

definition decode_legacy_numeric_value :: "value_env \<Rightarrow> bytes \<Rightarrow> StoredNumericValue option" where
  "decode_legacy_numeric_value V value =
     (case parse_i128_bytes value of
        Some v \<Rightarrow> Some (Signed v)
      | None \<Rightarrow>
          (case parse_u128_bytes value of
             Some v \<Rightarrow> Some (Unsigned v)
           | None \<Rightarrow> map_option FloatValue (parse_f64_bytes V value)))"

definition decode_numeric_value :: "value_env \<Rightarrow> bytes \<Rightarrow> StoredNumericValue option" where
  "decode_numeric_value V value =
     (let tag = (if value = [] then 0 else hd value); bs = tl value; n = length bs
      in if tag = STORED_I8_TAG \<and> n = 1 then Some (Signed (from_le_signed bs))
         else if tag = STORED_I16_TAG \<and> n = 2 then Some (Signed (from_le_signed bs))
         else if tag = STORED_I32_TAG \<and> n = 4 then Some (Signed (from_le_signed bs))
         else if tag = STORED_I64_TAG \<and> n = 8 then Some (Signed (from_le_signed bs))
         else if tag = STORED_I128_TAG \<and> n = 16 then Some (Signed (from_le_signed bs))
         else if tag = STORED_U8_TAG \<and> n = 1 then Some (Unsigned (int (from_le bs)))
         else if tag = STORED_U16_TAG \<and> n = 2 then Some (Unsigned (int (from_le bs)))
         else if tag = STORED_U32_TAG \<and> n = 4 then Some (Unsigned (int (from_le bs)))
         else if tag = STORED_U64_TAG \<and> n = 8 then Some (Unsigned (int (from_le bs)))
         else if tag = STORED_U128_TAG \<and> n = 16 then Some (Unsigned (int (from_le bs)))
         else if tag = STORED_F32_TAG \<and> n = 4 then Some (FloatValue (f32_to_f64 (of_nat (from_le bs))))
         else if tag = STORED_F64_TAG \<and> n = 8 then Some (FloatValue (of_nat (from_le bs)))
         else decode_legacy_numeric_value V value)"

fun numeric_as_i128 :: "StoredNumericValue \<Rightarrow> int option" where
  "numeric_as_i128 (Signed v) = Some v"
| "numeric_as_i128 (Unsigned v) = in_range i128_min i128_max v"
| "numeric_as_i128 (FloatValue v) = (if f64_is_integral v then Some (f64_to_i128 v) else None)"

fun numeric_as_u128 :: "StoredNumericValue \<Rightarrow> int option" where
  "numeric_as_u128 (Signed v) = (if 0 \<le> v then Some v else None)"
| "numeric_as_u128 (Unsigned v) = Some v"
| "numeric_as_u128 (FloatValue v) =
     (if f64_is_integral v \<and> (\<not> f64_neg v \<or> f64_magnitude v = 0) then Some (f64_to_u128 v) else None)"

fun numeric_as_f64 :: "StoredNumericValue \<Rightarrow> f64" where
  "numeric_as_f64 (Signed v) = int_to_f64 v"
| "numeric_as_f64 (Unsigned v) = int_to_f64 v"
| "numeric_as_f64 (FloatValue v) = v"

definition decode_tagged_db_uuid_binary :: "bytes \<Rightarrow> bytes option" where
  "decode_tagged_db_uuid_binary value =
     (case value of
        [] \<Rightarrow> None
      | tag # bs \<Rightarrow> if tag = STORED_UUID_TAG \<and> length bs = 16 then Some bs else None)"

definition decode_db_uuid_binary_for_conversion :: "bytes \<Rightarrow> bytes option" where
  "decode_db_uuid_binary_for_conversion value =
     (case decode_tagged_db_uuid_binary value of
        Some existing \<Rightarrow> Some existing
      | None \<Rightarrow> if length value = 16 then Some value else None)"

definition decode_db_uuid_binary_for_compare :: "value_env \<Rightarrow> bytes \<Rightarrow> bytes option" where
  "decode_db_uuid_binary_for_compare V value =
     (case decode_tagged_db_uuid_binary value of
        Some existing \<Rightarrow> Some existing
      | None \<Rightarrow>
          if length value = 16 then Some value
          else Option.bind (from_utf8 value) (\<lambda>text. uuid_parse_str V (trim text)))"

definition render_stored_field_value :: "value_env \<Rightarrow> bytes \<Rightarrow> bytes" where
  "render_stored_field_value V value =
     (case decode_tagged_db_uuid_binary value of
        Some uuid_bytes \<Rightarrow> as_bytes (uuid_to_string V uuid_bytes)
      | None \<Rightarrow>
          (case decode_numeric_value V value of
             Some (Signed v) \<Rightarrow> as_bytes (int_to_string v)
           | Some (Unsigned v) \<Rightarrow> as_bytes (int_to_string v)
           | Some (FloatValue v) \<Rightarrow> as_bytes (f64_to_string V v)
           | None \<Rightarrow> value))"

definition display_stored_field_value :: "value_env \<Rightarrow> bytes \<Rightarrow> ustr" where
  "display_stored_field_value V value = from_utf8_lossy (render_stored_field_value V value)"

section \<open>Comparing stored values\<close>

text \<open>The order of byte slices.\<close>

fun cmp_bytes :: "bytes \<Rightarrow> bytes \<Rightarrow> ordering" where
  "cmp_bytes [] [] = Equal"
| "cmp_bytes [] (b # bs) = Less"
| "cmp_bytes (a # as) [] = Greater"
| "cmp_bytes (a # as) (b # bs) = (if a < b then Less else if b < a then Greater else cmp_bytes as bs)"

fun compare_mixed_numeric_values :: "StoredNumericValue \<Rightarrow> StoredNumericValue \<Rightarrow> ordering" where
  "compare_mixed_numeric_values (Signed lhs) (Unsigned rhs) = (if lhs < 0 then Less else cmp lhs rhs)"
| "compare_mixed_numeric_values (Unsigned lhs) (Signed rhs) = (if rhs < 0 then Greater else cmp lhs rhs)"
| "compare_mixed_numeric_values lhs rhs =
     (case f64_partial_cmp (numeric_as_f64 lhs) (numeric_as_f64 rhs) of None \<Rightarrow> Equal | Some c \<Rightarrow> c)"

definition compare_numeric_values :: "StoredNumericValue \<Rightarrow> StoredNumericValue \<Rightarrow> ordering" where
  "compare_numeric_values lhs rhs =
     (case (lhs, rhs) of
        (Signed l, Signed r) \<Rightarrow> cmp l r
      | (Unsigned l, Unsigned r) \<Rightarrow> cmp l r
      | _ \<Rightarrow> compare_mixed_numeric_values lhs rhs)"

definition compare_stored_field_values :: "value_env \<Rightarrow> bytes \<Rightarrow> bytes \<Rightarrow> ordering" where
  "compare_stored_field_values V left right =
     (case (decode_db_uuid_binary_for_compare V left, decode_db_uuid_binary_for_compare V right) of
        (Some left_uuid, Some right_uuid) \<Rightarrow> cmp_bytes left_uuid right_uuid
      | _ \<Rightarrow>
          (case (decode_numeric_value V left, decode_numeric_value V right) of
             (Some lhs, Some rhs) \<Rightarrow> compare_numeric_values lhs rhs
           | _ \<Rightarrow> cmp_bytes (render_stored_field_value V left) (render_stored_field_value V right)))"

section \<open>Converting values\<close>

definition tagged_bytes :: "byte \<Rightarrow> bytes \<Rightarrow> bytes" where
  "tagged_bytes tag bs = tag # bs"

text \<open>\<open>iN::try_from\<close> followed by \<open>to_le_bytes\<close> of the narrow integer.\<close>

definition narrow_signed :: "nat \<Rightarrow> byte \<Rightarrow> int \<Rightarrow> unit + bytes" where
  "narrow_signed n tag v =
     (if - (2 ^ (8 * n - 1)) \<le> v \<and> v < 2 ^ (8 * n - 1) then Ok (tagged_bytes tag (to_le_signed n v)) else Err ())"

definition narrow_unsigned :: "nat \<Rightarrow> byte \<Rightarrow> int \<Rightarrow> unit + bytes" where
  "narrow_unsigned n tag v =
     (if 0 \<le> v \<and> v < 2 ^ (8 * n) then Ok (tagged_bytes tag (to_le n (nat v))) else Err ())"

fun encode_signed_numeric :: "FieldKind \<Rightarrow> int \<Rightarrow> unit + bytes" where
  "encode_signed_numeric (IntT bits) v =
     (if bits = 8 then narrow_signed 1 STORED_I8_TAG v
      else if bits = 16 then narrow_signed 2 STORED_I16_TAG v
      else if bits = 32 then narrow_signed 4 STORED_I32_TAG v
      else if bits = 64 then narrow_signed 8 STORED_I64_TAG v
      else Ok (tagged_bytes STORED_I128_TAG (to_le_signed 16 v)))"
| "encode_signed_numeric _ v = Err ()"

fun encode_unsigned_numeric :: "FieldKind \<Rightarrow> int \<Rightarrow> unit + bytes" where
  "encode_unsigned_numeric (UInt bits) v =
     (if bits = 8 then narrow_unsigned 1 STORED_U8_TAG v
      else if bits = 16 then narrow_unsigned 2 STORED_U16_TAG v
      else if bits = 32 then narrow_unsigned 4 STORED_U32_TAG v
      else if bits = 64 then narrow_unsigned 8 STORED_U64_TAG v
      else Ok (tagged_bytes STORED_U128_TAG (to_le 16 (nat v))))"
| "encode_unsigned_numeric _ v = Err ()"

fun encode_float_numeric :: "FieldKind \<Rightarrow> f64 \<Rightarrow> unit + bytes" where
  "encode_float_numeric (Float bits) v =
     (if bits \<le> 32 then Ok (tagged_bytes STORED_F32_TAG (to_le 4 (unat (f64_to_f32 v))))
      else Ok (tagged_bytes STORED_F64_TAG (to_le 8 (unat v))))"
| "encode_float_numeric _ v = Err ()"

definition parse_temporal_epoch_seconds :: "value_env \<Rightarrow> ustr \<Rightarrow> int option" where
  "parse_temporal_epoch_seconds V value =
     (let trimmed = trim value;
          formats = [''%Y-%m-%d %H:%M:%S%.f'', ''%Y-%m-%d %H:%M:%S'', ''%Y-%m-%dT%H:%M:%S%.f'', ''%Y-%m-%dT%H:%M:%S'']
      in case List.map_filter (\<lambda>format. naive_date_time V format trimmed) formats of
           datetime # _ \<Rightarrow> Some datetime
         | [] \<Rightarrow> naive_date V trimmed)"

definition uuid_nil :: bytes where
  "uuid_nil = replicate 16 0"

text \<open>What a value becomes when no conversion applies.\<close>

definition by_policy :: "TypeConversionPolicy \<Rightarrow> unit + bytes \<Rightarrow> unit + bytes" where
  "by_policy policy forced = (case policy of Force \<Rightarrow> forced | Safe \<Rightarrow> Err ())"

definition convert_to_int :: "value_env \<Rightarrow> bytes \<Rightarrow> FieldKind \<Rightarrow> TypeConversionPolicy \<Rightarrow> unit + bytes" where
  "convert_to_int V value target_type policy =
     (case Option.bind (decode_numeric_value V value) numeric_as_i128 of
        Some v \<Rightarrow> encode_signed_numeric target_type v
      | None \<Rightarrow>
          (case Option.bind (from_utf8 (render_stored_field_value V value))
                  (\<lambda>text. case parse_i128 (trim text) of
                            Some v \<Rightarrow> Some v | None \<Rightarrow> parse_temporal_epoch_seconds V text) of
             Some v \<Rightarrow> encode_signed_numeric target_type v
           | None \<Rightarrow> by_policy policy (encode_signed_numeric target_type 0)))"

definition convert_to_text :: "value_env \<Rightarrow> bytes \<Rightarrow> TypeConversionPolicy \<Rightarrow> unit + bytes" where
  "convert_to_text V value policy =
     (case from_utf8 (render_stored_field_value V value) of
        Some _ \<Rightarrow> Ok (render_stored_field_value V value)
      | None \<Rightarrow> by_policy policy (Ok (as_bytes (from_utf8_lossy (render_stored_field_value V value)))))"

definition convert_to_uuid :: "value_env \<Rightarrow> bytes \<Rightarrow> TypeConversionPolicy \<Rightarrow> unit + bytes" where
  "convert_to_uuid V value policy =
     (case decode_db_uuid_binary_for_conversion value of
        Some uuid_bytes \<Rightarrow> Ok (tagged_bytes STORED_UUID_TAG uuid_bytes)
      | None \<Rightarrow>
          (case Option.bind (from_utf8 (render_stored_field_value V value)) (\<lambda>text. uuid_parse_str V (trim text)) of
             Some uuid \<Rightarrow> Ok (tagged_bytes STORED_UUID_TAG uuid)
           | None \<Rightarrow> by_policy policy (Ok (tagged_bytes STORED_UUID_TAG uuid_nil))))"

fun convert_value_to_field_type ::
    "value_env \<Rightarrow> bytes \<Rightarrow> FieldKind \<Rightarrow> TypeConversionPolicy \<Rightarrow> unit + bytes" where
  "convert_value_to_field_type V value (IntT bits) policy = convert_to_int V value (IntT bits) policy"
| "convert_value_to_field_type V value (UInt bits) policy =
     (case Option.bind (decode_numeric_value V value) numeric_as_u128 of
        Some v \<Rightarrow> encode_unsigned_numeric (UInt bits) v
      | None \<Rightarrow> by_policy policy (encode_unsigned_numeric (UInt bits) 0))"
| "convert_value_to_field_type V value (Float bits) policy =
     (case map_option numeric_as_f64 (decode_numeric_value V value) of
        Some v \<Rightarrow> if f64_is_finite v then encode_float_numeric (Float bits) v
                  else by_policy policy (encode_float_numeric (Float bits) 0)
      | None \<Rightarrow> by_policy policy (encode_float_numeric (Float bits) 0))"
| "convert_value_to_field_type V value Blob policy = Ok value"
| "convert_value_to_field_type V value Spatial policy = Ok value"
| "convert_value_to_field_type V value Uuid policy = convert_to_uuid V value policy"
| "convert_value_to_field_type V value _ policy = convert_to_text V value policy"

section \<open>Integers\<close>

text \<open>Tag and width in bytes of the stored integers.\<close>

definition signed_forms :: "(byte \<times> nat) set" where
  "signed_forms = {(STORED_I8_TAG, 1), (STORED_I16_TAG, 2), (STORED_I32_TAG, 4), (STORED_I64_TAG, 8), (STORED_I128_TAG, 16)}"

definition unsigned_forms :: "(byte \<times> nat) set" where
  "unsigned_forms = {(STORED_U8_TAG, 1), (STORED_U16_TAG, 2), (STORED_U32_TAG, 4), (STORED_U64_TAG, 8), (STORED_U128_TAG, 16)}"

lemma if_or: "(if A then x else if B then x else y) = (if A \<or> B then x else y)"
  by simp

lemma decode_numeric_Cons:
  "decode_numeric_value V (tag # bs) =
     (if (tag, length bs) \<in> signed_forms then Some (Signed (from_le_signed bs))
      else if (tag, length bs) \<in> unsigned_forms then Some (Unsigned (int (from_le bs)))
      else if tag = STORED_F32_TAG \<and> length bs = 4 then Some (FloatValue (f32_to_f64 (of_nat (from_le bs))))
      else if tag = STORED_F64_TAG \<and> length bs = 8 then Some (FloatValue (of_nat (from_le bs)))
      else decode_legacy_numeric_value V (tag # bs))"
  unfolding decode_numeric_value_def signed_forms_def unsigned_forms_def Let_def
  by (simp only: list.sel list.simps if_False insert_iff empty_iff prod.inject simp_thms if_or disj_assoc)

lemma forms_disjoint: "x \<in> signed_forms \<Longrightarrow> x \<notin> unsigned_forms"
  by (auto simp: signed_forms_def unsigned_forms_def stored_tags)

lemma decode_numeric_signed:
  "(tag, n) \<in> signed_forms \<Longrightarrow> length bs = n \<Longrightarrow>
   decode_numeric_value V (tag # bs) = Some (Signed (from_le_signed bs))"
  by (simp add: decode_numeric_Cons)

lemma decode_numeric_unsigned:
  "(tag, n) \<in> unsigned_forms \<Longrightarrow> length bs = n \<Longrightarrow>
   decode_numeric_value V (tag # bs) = Some (Unsigned (int (from_le bs)))"
  using forms_disjoint by (auto simp: decode_numeric_Cons)

text \<open>The shape of an encoded integer: a tag of its own, and two's complement of a fixed width.\<close>

lemma narrow_signed_Ok:
  "narrow_signed n tag v = Ok stored \<longleftrightarrow>
     stored = tag # to_le_signed n v \<and> - (2 ^ (8 * n - 1)) \<le> v \<and> v < 2 ^ (8 * n - 1)"
  by (auto simp: narrow_signed_def tagged_bytes_def)

lemma narrow_unsigned_Ok:
  "narrow_unsigned n tag v = Ok stored \<longleftrightarrow> stored = tag # to_le n (nat v) \<and> 0 \<le> v \<and> v < 2 ^ (8 * n)"
  by (auto simp: narrow_unsigned_def tagged_bytes_def)

lemma wide_signed: "i128_min \<le> v \<Longrightarrow> v \<le> i128_max \<Longrightarrow>
   Ok (tagged_bytes STORED_I128_TAG (to_le_signed 16 v)) = narrow_signed 16 STORED_I128_TAG v"
  by (simp add: narrow_signed_def i128_min_def i128_max_def)

lemma wide_unsigned: "0 \<le> v \<Longrightarrow> v \<le> u128_max \<Longrightarrow>
   Ok (tagged_bytes STORED_U128_TAG (to_le 16 (nat v))) = narrow_unsigned 16 STORED_U128_TAG v"
  by (simp add: narrow_unsigned_def u128_max_def)

lemma encode_signed_narrow:
  assumes "i128_min \<le> v" "v \<le> i128_max"
  shows "\<exists>(tag, n) \<in> signed_forms. encode_signed_numeric (IntT bits) v = narrow_signed n tag v"
  by (simp add: signed_forms_def wide_signed [OF assms])

lemma encode_unsigned_narrow:
  assumes "0 \<le> v" "v \<le> u128_max"
  shows "\<exists>(tag, n) \<in> unsigned_forms. encode_unsigned_numeric (UInt bits) v = narrow_unsigned n tag v"
  by (simp add: unsigned_forms_def wide_unsigned [OF assms])

lemma encode_signed_shape:
  assumes "encode_signed_numeric (IntT bits) v = Ok stored" "i128_min \<le> v" "v \<le> i128_max"
  obtains n tag where "(tag, n) \<in> signed_forms"
    "stored = tag # to_le_signed n v" "- (2 ^ (8 * n - 1)) \<le> v" "v < 2 ^ (8 * n - 1)"
proof -
  obtain n tag where "(tag, n) \<in> signed_forms" "narrow_signed n tag v = Ok stored"
    using encode_signed_narrow [OF assms(2,3), of bits] assms(1) by auto
  with that show thesis by (simp add: narrow_signed_Ok)
qed

lemma encode_unsigned_shape:
  assumes "encode_unsigned_numeric (UInt bits) v = Ok stored" "0 \<le> v" "v \<le> u128_max"
  obtains n tag where "(tag, n) \<in> unsigned_forms" "stored = tag # to_le n (nat v)" "nat v < 256 ^ n"
proof -
  obtain n tag where "(tag, n) \<in> unsigned_forms" "narrow_unsigned n tag v = Ok stored"
    using encode_unsigned_narrow [OF assms(2,3), of bits] assms(1) by auto
  with that show thesis by (simp add: narrow_unsigned_Ok pow256 nat_less_iff)
qed

lemma decode_encode_signed:
  assumes "encode_signed_numeric (IntT bits) v = Ok stored" "i128_min \<le> v" "v \<le> i128_max"
  shows "decode_numeric_value V stored = Some (Signed v)"
proof -
  obtain n tag where t:
      "(tag, n) \<in> signed_forms"
    and st: "stored = tag # to_le_signed n v" "- (2 ^ (8 * n - 1)) \<le> v" "v < 2 ^ (8 * n - 1)"
    using encode_signed_shape [OF assms] .
  have "0 < n" using t by (auto simp: signed_forms_def)
  with st decode_numeric_signed [OF t, of "to_le_signed n v"] show ?thesis
    by (simp add: from_le_signed_to_le)
qed

lemma decode_encode_unsigned:
  assumes "encode_unsigned_numeric (UInt bits) v = Ok stored" "0 \<le> v" "v \<le> u128_max"
  shows "decode_numeric_value V stored = Some (Unsigned v)"
proof -
  obtain n tag where t:
      "(tag, n) \<in> unsigned_forms"
    and st: "stored = tag # to_le n (nat v)" "nat v < 256 ^ n"
    using encode_unsigned_shape [OF assms] .
  with decode_numeric_unsigned [OF t, of "to_le n (nat v)"] assms(2) show ?thesis
    by (simp add: from_le_to_le)
qed

definition stored_integer :: "bytes \<Rightarrow> int \<Rightarrow> bool" where
  "stored_integer a v \<longleftrightarrow>
     (\<exists>bits. encode_signed_numeric (IntT bits) v = Ok a \<and> i128_min \<le> v \<and> v \<le> i128_max
           \<or> encode_unsigned_numeric (UInt bits) v = Ok a \<and> 0 \<le> v \<and> v \<le> u128_max)"

lemma stored_integer_numeric:
  assumes "stored_integer a v"
  shows "decode_numeric_value V a = Some (Signed v) \<or> decode_numeric_value V a = Some (Unsigned v) \<and> 0 \<le> v"
  using assms decode_encode_signed decode_encode_unsigned unfolding stored_integer_def by blast

lemma stored_integer_shape:
  assumes "stored_integer a v"
  shows "length a \<in> {2, 3, 5, 9, 17} \<and> hd a \<noteq> STORED_UUID_TAG"
proof -
  have "\<exists>n tag bs. (tag, n) \<in> signed_forms \<union> unsigned_forms \<and> a = tag # bs \<and> length bs = n"
    using assms unfolding stored_integer_def
    by (auto elim!: encode_signed_shape encode_unsigned_shape simp del: encode_signed_numeric.simps encode_unsigned_numeric.simps)
  then show ?thesis by (auto simp: stored_tags signed_forms_def unsigned_forms_def)
qed

text \<open>Text that is too short for any of the text forms of a UUID.\<close>

definition uuid_text_long :: "value_env \<Rightarrow> bool" where
  "uuid_text_long V \<longleftrightarrow> (\<forall>s u. uuid_parse_str V s = Some u \<longrightarrow> 32 \<le> length s)"

lemma length_from_utf8: "from_utf8 bs = Some s \<Longrightarrow> length s \<le> length bs"
proof (induction bs arbitrary: s rule: from_utf8.induct)
  case (1 bs)
  show ?case
  proof (cases "bs = []")
    case True
    with 1 show ?thesis by simp
  next
    case False
    with 1(2) obtain c n s' where
      st: "utf8_step bs = Inr (c, n)" "from_utf8 (drop n bs) = Some s'" "s = c # s'"
      by (subst (asm) from_utf8.simps) (auto split: sum.splits option.splits)
    have "length s' \<le> length (drop n bs)" by (rule 1(1) [OF False st(1) refl st(2)])
    moreover have "0 < n" using st(1) by (rule utf8_step_length)
    moreover obtain b bs' where "bs = b # bs'" using False by (cases bs) auto
    ultimately show ?thesis using st(3) by simp
  qed
qed

lemma short_no_uuid:
  assumes "uuid_text_long V" "length value < 32" "length value \<noteq> 16" "decode_tagged_db_uuid_binary value = None"
  shows "decode_db_uuid_binary_for_compare V value = None"
proof (cases "from_utf8 value")
  case (Some s)
  then have "length (trim s) < 32"
    using length_from_utf8 length_trim [of s] assms(2) by (meson le_less_trans)
  then have "uuid_parse_str V (trim s) = None"
    using assms(1) unfolding uuid_text_long_def by (meson not_less option.exhaust)
  with Some assms show ?thesis by (simp add: decode_db_uuid_binary_for_compare_def)
qed (use assms in \<open>simp add: decode_db_uuid_binary_for_compare_def\<close>)

lemma stored_integer_no_uuid:
  assumes "stored_integer a v"
  shows "decode_tagged_db_uuid_binary a = None"
    and "uuid_text_long V \<Longrightarrow> decode_db_uuid_binary_for_compare V a = None"
proof -
  show t: "decode_tagged_db_uuid_binary a = None"
    using stored_integer_shape [OF assms] by (auto simp: decode_tagged_db_uuid_binary_def split: list.split)
  assume u: "uuid_text_long V"
  have "length a < 32" "length a \<noteq> 16" using stored_integer_shape [OF assms] by auto
  with t u show "decode_db_uuid_binary_for_compare V a = None" by (intro short_no_uuid)
qed

text \<open>
  C21. Integers compare by value however they are stored: whatever widths and signednesses two
  integer fields have, comparing their stored bytes gives the order of the integers themselves.
\<close>

theorem compare_stored_integers:
  assumes "uuid_text_long V" "stored_integer a v" "stored_integer b w"
  shows "compare_stored_field_values V a b = cmp v w"
proof -
  have n: "decode_db_uuid_binary_for_compare V a = None"
    using stored_integer_no_uuid(2) [OF assms(2,1)] .
  from stored_integer_numeric [OF assms(2), of V] stored_integer_numeric [OF assms(3), of V] n
  show ?thesis
    by (auto simp: compare_stored_field_values_def compare_numeric_values_def cmp_def)
qed

lemma plain_text_numeric:
  assumes "s \<noteq> []" "hd s \<ge> 35" "\<forall>c \<in> set s. c < 128"
  shows "decode_numeric_value V (as_bytes s) = decode_legacy_numeric_value V (as_bytes s)"
proof -
  obtain c t where s: "s = c # t" using assms(1) by (cases s) auto
  have b: "as_bytes s = of_nat c # as_bytes t" "unat (of_nat c :: byte) = c"
    using assms(3) s by (simp_all add: as_bytes_def utf8_char_def unat_of_nat)
  have "unat (of_nat c :: byte) \<ge> 35" using b(2) assms(2) s by simp
  then have "(of_nat c :: byte) \<notin> fst ` (signed_forms \<union> unsigned_forms)"
    "(of_nat c :: byte) \<noteq> STORED_F32_TAG" "(of_nat c :: byte) \<noteq> STORED_F64_TAG"
    by (auto simp: signed_forms_def unsigned_forms_def stored_tags)
  then show ?thesis unfolding b(1) decode_numeric_Cons by (force simp: image_iff)
qed

lemma int_to_string_hd: "int_to_string v \<noteq> []" "35 \<le> hd (int_to_string v)"
proof -
  have "35 \<le> hd (decimal n)" for n
    using decimal_digits [of n] by (cases "decimal n") (auto simp: is_digit_def)
  then show "int_to_string v \<noteq> []" "35 \<le> hd (int_to_string v)"
    using decimal_digits(2) by (auto simp: int_to_string_def)
qed

lemma decode_numeric_text:
  assumes "i128_min \<le> v" "v \<le> i128_max"
  shows "decode_numeric_value V (as_bytes (int_to_string v)) = Some (Signed v)"
  using assms plain_text_numeric [OF int_to_string_hd, of v V] int_to_string_ascii [of v]
  by (simp add: decode_legacy_numeric_value_def parse_i128_bytes_def parse_i128_int_to_string)

lemma convert_to_int_numeric:
  assumes "decode_numeric_value V value = Some (Signed v)"
  shows "convert_value_to_field_type V value (IntT bits) policy = encode_signed_numeric (IntT bits) v"
  using assms by (simp add: convert_to_int_def del: encode_signed_numeric.simps)

lemma encode_signed_fits:
  assumes "bits \<in> {8, 16, 32, 64}"
  shows "is_ok (encode_signed_numeric (IntT bits) v) \<longleftrightarrow>
         - (2 ^ (unat bits - 1)) \<le> v \<and> v < 2 ^ (unat bits - 1)"
  using assms by (auto simp: narrow_signed_def)

text \<open>
  C22. An integer written as text to a signed integer field is stored exactly when it fits the
  declared width and refused otherwise, under either policy; what is stored reads back as the same
  number, renders as the same text, and converting it again changes nothing.
\<close>

theorem int_field_roundtrip:
  assumes "bits \<in> {8, 16, 32, 64}" "i128_min \<le> v" "v \<le> i128_max"
  shows "case convert_value_to_field_type V (as_bytes (int_to_string v)) (IntT bits) policy of
           Inl _ \<Rightarrow> \<not> (- (2 ^ (unat bits - 1)) \<le> v \<and> v < 2 ^ (unat bits - 1))
         | Inr stored \<Rightarrow>
             (- (2 ^ (unat bits - 1)) \<le> v \<and> v < 2 ^ (unat bits - 1))
             \<and> decode_numeric_value V stored = Some (Signed v)
             \<and> render_stored_field_value V stored = as_bytes (int_to_string v)
             \<and> convert_value_to_field_type V stored (IntT bits) policy = Ok stored"
proof -
  have c: "convert_value_to_field_type V (as_bytes (int_to_string v)) (IntT bits) policy =
           encode_signed_numeric (IntT bits) v"
    by (rule convert_to_int_numeric [OF decode_numeric_text [OF assms(2,3)]])
  show ?thesis
  proof (cases "encode_signed_numeric (IntT bits) v")
    case (Inl e)
    then show ?thesis using c encode_signed_fits [OF assms(1), of v] by simp
  next
    case (Inr stored)
    then have d: "decode_numeric_value V stored = Some (Signed v)"
      using assms by (intro decode_encode_signed)
    have "stored_integer stored v" using Inr assms unfolding stored_integer_def by blast
    then have "decode_tagged_db_uuid_binary stored = None" by (rule stored_integer_no_uuid)
    with d have "render_stored_field_value V stored = as_bytes (int_to_string v)"
      by (simp add: render_stored_field_value_def)
    with c d Inr encode_signed_fits [OF assms(1), of v] show ?thesis
      by (simp add: convert_to_int_numeric del: encode_signed_numeric.simps convert_value_to_field_type.simps)
  qed
qed

section \<open>Text that does not stay text\<close>

lemma digits_value_zeros: "digits_value (replicate k 48 @ ds) = digits_value ds"
  by (induction k) (simp_all add: digits_value_def)

lemma parse_i128_zeros:
  assumes "int n \<le> i128_max" "0 < k"
  shows "parse_i128 (replicate k 48 @ decimal n) = Some (int n)"
proof -
  have "parse_digits (replicate k 48 @ decimal n) = Some n"
    using decimal_digits(1) [of n] assms(2)
    by (simp add: parse_digits_def digits_value_zeros digits_value_decimal list_all_iff is_digit_def)
  moreover obtain j where "k = Suc j" using assms(2) by (cases k) auto
  moreover have "i128_min \<le> int n" by (simp add: i128_min_def)
  ultimately show ?thesis using assms(1) by (simp add: parse_i128_def in_range_def)
qed

text \<open>
  Text fields do not keep every text.  A text of digits loses its leading zeros, and a text of
  seventeen bytes that begins with the digit 1 is taken for a tagged UUID and replaced by the text
  form of its last sixteen bytes.
\<close>

theorem text_field_rewrites_text:
  assumes "int n \<le> i128_max" "0 < k"
    and "length t = 16" "\<forall>c \<in> set t. c < 128" "\<forall>c \<in> set (uuid_to_string V (as_bytes t)). c < 128"
  shows "convert_value_to_field_type V (as_bytes (replicate k 48 @ decimal n)) Text Safe = Ok (as_bytes (decimal n))
       \<and> convert_value_to_field_type V (as_bytes (49 # t)) Text Safe = Ok (as_bytes (uuid_to_string V (as_bytes t)))"
proof
  let ?s = "replicate k 48 @ decimal n"
  have dig: "\<forall>c \<in> set ?s. is_digit c"
    using decimal_digits(1) [of n] by (auto simp: list_all_iff is_digit_def)
  then have s: "\<forall>c \<in> set ?s. c < 128 \<and> \<not> is_whitespace c" using is_digit_plain by blast
  have ne: "?s \<noteq> []" using assms(2) by simp
  have hd: "hd ?s = 48" using assms(2) by (cases k) simp_all
  have "decode_numeric_value V (as_bytes ?s) = decode_legacy_numeric_value V (as_bytes ?s)"
    using ne hd s by (intro plain_text_numeric) auto
  also have "\<dots> = Some (Signed (int n))"
    using s from_utf8_as_bytes_ascii [of ?s] trim_no_whitespace [of ?s] parse_i128_zeros [OF assms(1,2)]
    by (simp add: decode_legacy_numeric_value_def parse_i128_bytes_def)
  finally have d: "decode_numeric_value V (as_bytes ?s) = Some (Signed (int n))" .
  obtain j where "k = Suc j" using assms(2) by (cases k) auto
  then have "decode_tagged_db_uuid_binary (as_bytes ?s) = None"
    by (simp add: decode_tagged_db_uuid_binary_def stored_tags as_bytes_def utf8_char_def)
  with d have r: "render_stored_field_value V (as_bytes ?s) = as_bytes (int_to_string (int n))"
    by (simp add: render_stored_field_value_def)
  have "int_to_string (int n) = decimal n" by (simp add: int_to_string_def)
  with r from_utf8_int_to_string [of "int n"]
  show "convert_value_to_field_type V (as_bytes ?s) Text Safe = Ok (as_bytes (decimal n))"
    by (simp add: convert_to_text_def)
next
  have "as_bytes (49 # t) = STORED_UUID_TAG # as_bytes t"
    by (simp add: as_bytes_def utf8_char_def stored_tags)
  moreover have "length (as_bytes t) = 16" using assms(3,4) by (simp add: as_bytes_ascii)
  ultimately have "render_stored_field_value V (as_bytes (49 # t)) = as_bytes (uuid_to_string V (as_bytes t))"
    by (simp add: render_stored_field_value_def decode_tagged_db_uuid_binary_def)
  then show "convert_value_to_field_type V (as_bytes (49 # t)) Text Safe = Ok (as_bytes (uuid_to_string V (as_bytes t)))"
    using assms(5) by (simp add: convert_to_text_def from_utf8_as_bytes_ascii)
qed

text \<open>
  C4. A value that reads as the float NaN, the text \<open>nan\<close> in any field included, compares equal to
  every number: a filter for the number selects it, and the order is not transitive.
\<close>

theorem nan_compares_equal:
  assumes "decode_numeric_value V a = Some (FloatValue x)" "f64_is_nan x"
    and "decode_numeric_value V b = Some y" "decode_db_uuid_binary_for_compare V a = None"
  shows "compare_stored_field_values V a b = Equal \<and> compare_stored_field_values V b a = Equal"
proof -
  have "compare_mixed_numeric_values (FloatValue x) y = Equal" "compare_mixed_numeric_values y (FloatValue x) = Equal"
    using assms(2) by (cases y; simp add: f64_partial_cmp_def)+
  then have "compare_numeric_values (FloatValue x) y = Equal" "compare_numeric_values y (FloatValue x) = Equal"
    by (cases y; simp add: compare_numeric_values_def)+
  with assms show ?thesis by (simp add: compare_stored_field_values_def split: option.split)
qed

section \<open>Concrete values\<close>

definition hex_char :: "nat \<Rightarrow> nat" where
  "hex_char n = (if n < 10 then 48 + n else 87 + n)"

definition uuid_hyphenated :: "bytes \<Rightarrow> ustr" where
  "uuid_hyphenated bs =
     concat (map (\<lambda>(i, b). (if i \<in> {4, 6, 8, 10} then [45] else []) @ [hex_char (unat b div 16), hex_char (unat b mod 16)])
       (enumerate 0 bs))"

definition demo_values :: value_env where
  "demo_values =
     \<lparr>parse_f64 = (\<lambda>s. if s = lit ''nan'' then Some 0x7FF8000000000000 else None),
      f64_to_string = (\<lambda>x. lit ''NaN''), uuid_parse_str = (\<lambda>s. None), uuid_to_string = uuid_hyphenated,
      naive_date_time = (\<lambda>format s. None), naive_date = (\<lambda>s. None)\<rparr>"

lemma uuid_hyphenated_ascii: "\<forall>c \<in> set (uuid_hyphenated bs). c < 128"
proof -
  have "hex_char (unat b div 16) < 128" "hex_char (unat b mod 16) < 128" for b :: byte
    using unat_byte_less [of b] by (auto simp: hex_char_def)
  then show ?thesis by (auto simp: uuid_hyphenated_def)
qed

lemma decimal_digit: "n < 10 \<Longrightarrow> decimal n = [48 + n]"
  by (subst decimal.simps) simp

theorem compare_stored_integers_witness:
  "encode_signed_numeric (IntT 8) (-1) = Ok [1, 255] \<and> encode_unsigned_numeric (UInt 16) 300 = Ok [18, 44, 1]
   \<and> compare_stored_field_values demo_values [1, 255] [18, 44, 1] = Less"
proof -
  have e: "encode_signed_numeric (IntT 8) (-1) = Ok [1, 255]" "encode_unsigned_numeric (UInt 16) 300 = Ok [18, 44, 1]"
    by (simp_all add: narrow_signed_def narrow_unsigned_def tagged_bytes_def stored_tags to_le_signed_def to_le_numeral)
  then have "stored_integer [1, 255] (-1)" "stored_integer [18, 44, 1] 300"
    unfolding stored_integer_def i128_min_def i128_max_def u128_max_def by fastforce+
  moreover have "uuid_text_long demo_values" by (simp add: uuid_text_long_def demo_values_def)
  ultimately have "compare_stored_field_values demo_values [1, 255] [18, 44, 1] = cmp (-1) (300 :: int)"
    by (intro compare_stored_integers)
  with e show ?thesis by (simp add: cmp_def)
qed

theorem int_field_roundtrip_witness:
  "convert_value_to_field_type demo_values (as_bytes (int_to_string 200)) (IntT 8) Safe = Err ()
   \<and> (\<exists>stored. convert_value_to_field_type demo_values (as_bytes (int_to_string (-5))) (IntT 8) Safe = Ok stored
        \<and> render_stored_field_value demo_values stored = as_bytes (int_to_string (-5)))"
  using int_field_roundtrip [of 8 200 demo_values Safe] int_field_roundtrip [of 8 "-5" demo_values Safe]
  by (simp add: i128_min_def i128_max_def split: sum.splits del: convert_value_to_field_type.simps)

theorem text_field_rewrites_text_witness:
  "convert_value_to_field_type demo_values (as_bytes (lit ''007'')) Text Safe = Ok (as_bytes (lit ''7''))
   \<and> convert_value_to_field_type demo_values (as_bytes (lit ''10000000000000000'')) Text Safe
       = Ok (as_bytes (lit ''30303030-3030-3030-3030-303030303030''))"
proof -
  let ?z = "[48, 48, 48, 48, 48, 48, 48, 48, 48, 48, 48, 48, 48, 48, 48, 48] :: nat list"
  have u: "uuid_to_string demo_values (as_bytes ?z) = lit ''30303030-3030-3030-3030-303030303030''"
    by (simp add: demo_values_def uuid_hyphenated_def as_bytes_def utf8_char_def hex_char_def lit_def)
  have "\<forall>c \<in> set (uuid_to_string demo_values (as_bytes ?z)). c < 128"
    using uuid_hyphenated_ascii by (simp add: demo_values_def)
  then have "convert_value_to_field_type demo_values (as_bytes (replicate 2 48 @ decimal 7)) Text Safe = Ok (as_bytes (decimal 7))
       \<and> convert_value_to_field_type demo_values (as_bytes (49 # ?z)) Text Safe = Ok (as_bytes (uuid_to_string demo_values (as_bytes ?z)))"
    by (intro text_field_rewrites_text) (simp_all add: i128_max_def)
  moreover have "replicate 2 48 @ decimal 7 = lit ''007''" "decimal 7 = lit ''7''" "49 # ?z = lit ''10000000000000000''"
    by (simp_all add: decimal_digit lit_def numeral_2_eq_2)
  ultimately show ?thesis using u by (simp only:)
qed

theorem nan_compares_equal_witness:
  "compare_stored_field_values demo_values (as_bytes (lit ''nan'')) (as_bytes (lit ''5'')) = Equal"
proof -
  have a: "from_utf8 (as_bytes (lit ''nan'')) = Some (lit ''nan'')" "trim (lit ''nan'') = lit ''nan''"
    "from_utf8 (as_bytes (lit ''5'')) = Some (lit ''5'')" "trim (lit ''5'') = lit ''5''"
    by (auto intro!: from_utf8_as_bytes_ascii trim_no_whitespace simp: lit_def is_whitespace_def)
  have "decode_numeric_value demo_values (as_bytes (lit ''nan'')) = Some (FloatValue 0x7FF8000000000000)"
    using a by (subst plain_text_numeric)
      (auto simp: decode_legacy_numeric_value_def parse_i128_bytes_def parse_u128_bytes_def parse_f64_bytes_def
        parse_i128_def parse_u128_def parse_digits_def is_digit_def demo_values_def lit_def)
  moreover have "decode_numeric_value demo_values (as_bytes (lit ''5'')) = Some (Signed 5)"
    using a by (subst plain_text_numeric)
      (auto simp: decode_legacy_numeric_value_def parse_i128_bytes_def
        parse_i128_def parse_digits_def digits_value_def is_digit_def in_range_def i128_min_def i128_max_def lit_def)
  moreover have "f64_is_nan 0x7FF8000000000000"
    by (simp add: f64_is_nan_def f64_exponent_def f64_fraction_def f64_magnitude_def)
  moreover have "decode_db_uuid_binary_for_compare demo_values (as_bytes (lit ''nan'')) = None"
    by (rule short_no_uuid)
      (simp_all add: uuid_text_long_def demo_values_def decode_tagged_db_uuid_binary_def lit_def as_bytes_def utf8_char_def)
  ultimately show ?thesis by (simp add: nan_compares_equal)
qed

end
