(* ===== verification/RowPayload.thy ===== *)
theory RowPayload
  imports Conversion Envelope "HOL-Library.List_Lexorder" "HOL-Library.Product_Lexorder" "HOL-Library.AList"
begin

text \<open>
  \<open>serverlib/src/engine/database/row_payload.rs\<close>, second half: the ordinal form of row payloads, the
  process-wide cache of field orders, the decoders of whole rows and single fields for the current
  and the two older payload forms, and the row rewriting of schema migrations
  (\<open>apply_schema_rules_to_payload\<close> of \<open>schema/migration/conversion.rs\<close>).
\<close>

type_synonym row_map = "ustr \<rightharpoonup> bytes"

text \<open>
  The environment adds bincode on the three payload forms, the hash function behind
  \<open>schema_cache_key\<close>, and the environment of value conversions.
\<close>

record row_env = crypto_env +
  de_ordinal :: "bytes \<Rightarrow> bytes option list option"
  ser_ordinal :: "bytes option list \<Rightarrow> bytes option"
  de_row_map :: "bytes \<Rightarrow> row_map option"
  ser_row_map :: "row_map \<Rightarrow> bytes option"
  de_row_vec :: "bytes \<Rightarrow> bytes list option"
  hash_fields :: "(u32 \<times> ustr) list \<Rightarrow> u64"
  value_fns :: value_env

section \<open>Field order\<close>

definition field_names_by_ordinal :: "TableSchema \<Rightarrow> ustr list" where
  "field_names_by_ordinal schema = map snd (sort (map (\<lambda>f. (seqno f, field_name f)) (schema_fields schema)))"

text \<open>Collecting pairs into a \<open>HashMap\<close>: a later pair replaces an earlier one with the same key.\<close>

definition collect_map :: "('k \<times> 'v) list \<Rightarrow> 'k \<rightharpoonup> 'v" where
  "collect_map kvs = map_of (rev kvs)"

definition field_name_index_by_ordinal :: "TableSchema \<Rightarrow> ustr \<rightharpoonup> nat" where
  "field_name_index_by_ordinal schema =
     (let names = field_names_by_ordinal schema in collect_map (zip names [0..<length names]))"

record SchemaOrdinalCacheEntry =
  ordered_field_names :: "ustr list"
  field_name_index :: "ustr \<rightharpoonup> nat"
  field_seqno_index :: "ustr \<rightharpoonup> nat"
  max_seqno :: nat

definition build_entry :: "TableSchema \<Rightarrow> SchemaOrdinalCacheEntry" where
  "build_entry schema =
     \<lparr>ordered_field_names = field_names_by_ordinal schema,
      field_name_index = (let names = field_names_by_ordinal schema in collect_map (zip names [0..<length names])),
      field_seqno_index = collect_map (List.map_filter (\<lambda>f.
        if seqno f = 0 then None else Some (field_name f, unat (seqno f) - 1)) (schema_fields schema)),
      max_seqno = Max (insert 0 ((\<lambda>f. unat (seqno f)) ` set (schema_fields schema)))\<rparr>"

section \<open>The cache\<close>

definition SCHEMA_ORDINAL_CACHE_MAX_ENTRIES :: nat where
  "SCHEMA_ORDINAL_CACHE_MAX_ENTRIES = 1024"

type_synonym ordinal_cache = "(u64 \<times> SchemaOrdinalCacheEntry) list"

definition schema_shape :: "TableSchema \<Rightarrow> (u32 \<times> ustr) list" where
  "schema_shape schema = map (\<lambda>f. (seqno f, field_name f)) (schema_fields schema)"

definition schema_cache_key :: "('a row_env_scheme) \<Rightarrow> TableSchema \<Rightarrow> u64" where
  "schema_cache_key R schema = hash_fields R (schema_shape schema)"

definition cache_entry_matches_schema :: "SchemaOrdinalCacheEntry \<Rightarrow> TableSchema \<Rightarrow> bool" where
  "cache_entry_matches_schema entry schema \<longleftrightarrow>
     length (ordered_field_names entry) = length (schema_fields schema) \<and>
     list_all (\<lambda>f. field_name_index entry (field_name f) \<noteq> None) (schema_fields schema)"

text \<open>A poisoned mutex, \<open>None\<close>, is passed over.\<close>

definition schema_ordinal_cache_entry ::
    "('a row_env_scheme) \<Rightarrow> ordinal_cache option \<Rightarrow> TableSchema \<Rightarrow> SchemaOrdinalCacheEntry \<times> ordinal_cache option" where
  "schema_ordinal_cache_entry R cache schema =
     (case cache of
        None \<Rightarrow> (build_entry schema, None)
      | Some guard \<Rightarrow>
          let key = schema_cache_key R schema;
              entry = build_entry schema;
              guard' = (if SCHEMA_ORDINAL_CACHE_MAX_ENTRIES \<le> length guard then [] else guard);
              miss = (entry, Some (AList.update key entry guard'))
          in case map_of guard key of
               Some hit \<Rightarrow> if cache_entry_matches_schema hit schema then (hit, cache) else miss
             | None \<Rightarrow> miss)"

definition row_payload_schema_cache where
  "row_payload_schema_cache = schema_ordinal_cache_entry"

section \<open>Decoding\<close>

definition use_seqno_slot_decoding :: "nat \<Rightarrow> nat \<Rightarrow> nat \<Rightarrow> bool" where
  "use_seqno_slot_decoding payload_len ordered_field_count top_seqno \<longleftrightarrow>
     ordered_field_count < payload_len \<and> ordered_field_count < top_seqno \<and> payload_len \<le> top_seqno"

definition row_index_for_field ::
    "ustr \<Rightarrow> nat \<Rightarrow> nat \<Rightarrow> nat \<Rightarrow> (ustr \<rightharpoonup> nat) \<Rightarrow> (ustr \<rightharpoonup> nat) \<Rightarrow> nat option" where
  "row_index_for_field name payload_len ordered_field_count top_seqno compact_index seqno_index =
     (if use_seqno_slot_decoding payload_len ordered_field_count top_seqno
      then seqno_index name else compact_index name)"

datatype CompatibleRowPayload =
    Ordinal "bytes option list" | LegacyMap row_map | LegacyOrdinal "bytes list"

datatype RowPayloadError = UnsupportedEnvelopeVersion u8 | RowEncryptedAtRest | RowDecodeFailed | RowSerializeFailed

definition decode_compatible_row_payload_shape ::
    "('a row_env_scheme) \<Rightarrow> bytes \<Rightarrow> RowPayloadError + CompatibleRowPayload" where
  "decode_compatible_row_payload_shape R payload =
     (case de_ordinal R payload of
        Some ordinal_row \<Rightarrow> Ok (Ordinal ordinal_row)
      | None \<Rightarrow>
          (case de_row_map R payload of
             Some legacy_row \<Rightarrow> Ok (LegacyMap legacy_row)
           | None \<Rightarrow>
               (case de_row_vec R payload of
                  Some legacy_ordinal_row \<Rightarrow> Ok (LegacyOrdinal legacy_ordinal_row)
                | None \<Rightarrow>
                    (case decode_encrypted_row_payload_envelope R payload of
                       Inl version \<Rightarrow> Err (UnsupportedEnvelopeVersion version)
                     | Inr (Some _) \<Rightarrow> Err RowEncryptedAtRest
                     | Inr None \<Rightarrow> Err RowDecodeFailed))))"

text \<open>The value of a field in a positional row, and the loop that fills the map.\<close>

definition ordinal_value :: "SchemaOrdinalCacheEntry \<Rightarrow> nat \<Rightarrow> (nat \<Rightarrow> bytes option) \<Rightarrow> ustr \<Rightarrow> bytes option" where
  "ordinal_value c payload_len value_at name =
     Option.bind (row_index_for_field name payload_len (length (ordered_field_names c)) (max_seqno c)
                    (field_name_index c) (field_seqno_index c)) value_at"

definition fill_row :: "(ustr \<Rightarrow> bytes option) \<Rightarrow> ustr list \<Rightarrow> row_map" where
  "fill_row value names =
     foldl (\<lambda>m name. case value name of None \<Rightarrow> m | Some v \<Rightarrow> m(name \<mapsto> v)) Map.empty names"

definition flatten_get :: "bytes option list \<Rightarrow> nat \<Rightarrow> bytes option" where
  "flatten_get xs i = Option.bind (get xs i) id"

definition decode_compatible_row_payload_with_schema_cache ::
    "('a row_env_scheme) \<Rightarrow> SchemaOrdinalCacheEntry \<Rightarrow> bytes \<Rightarrow> RowPayloadError + row_map" where
  "decode_compatible_row_payload_with_schema_cache R c payload =
     try_bind (decode_compatible_row_payload_shape R payload) (\<lambda>shape.
       case shape of
         LegacyMap legacy_row \<Rightarrow> Ok legacy_row
       | Ordinal row \<Rightarrow> Ok (fill_row (ordinal_value c (length row) (flatten_get row)) (ordered_field_names c))
       | LegacyOrdinal row \<Rightarrow> Ok (fill_row (ordinal_value c (length row) (get row)) (ordered_field_names c)))"

definition decode_compatible_row_payload ::
    "('a row_env_scheme) \<Rightarrow> ordinal_cache option \<Rightarrow> TableSchema \<Rightarrow> bytes
       \<Rightarrow> (RowPayloadError + row_map) \<times> ordinal_cache option" where
  "decode_compatible_row_payload R cache schema payload =
     (case schema_ordinal_cache_entry R cache schema of
        (c, cache') \<Rightarrow> (decode_compatible_row_payload_with_schema_cache R c payload, cache'))"

definition decode_row_payload where
  "decode_row_payload = decode_compatible_row_payload"

definition decode_row_payload_with_schema_cache where
  "decode_row_payload_with_schema_cache = decode_compatible_row_payload_with_schema_cache"

definition decode_row_field_value_with_schema_cache ::
    "('a row_env_scheme) \<Rightarrow> SchemaOrdinalCacheEntry \<Rightarrow> bytes \<Rightarrow> ustr \<Rightarrow> RowPayloadError + bytes option" where
  "decode_row_field_value_with_schema_cache R c payload name =
     try_bind (decode_compatible_row_payload_shape R payload) (\<lambda>shape.
       case shape of
         Ordinal row \<Rightarrow> Ok (ordinal_value c (length row) (flatten_get row) name)
       | LegacyMap legacy_row \<Rightarrow> Ok (legacy_row name)
       | LegacyOrdinal row \<Rightarrow> Ok (ordinal_value c (length row) (get row) name))"

definition decode_row_field_value ::
    "('a row_env_scheme) \<Rightarrow> ordinal_cache option \<Rightarrow> TableSchema \<Rightarrow> bytes \<Rightarrow> ustr
       \<Rightarrow> (RowPayloadError + bytes option) \<times> ordinal_cache option" where
  "decode_row_field_value R cache schema payload name =
     (case schema_ordinal_cache_entry R cache schema of
        (c, cache') \<Rightarrow> (decode_row_field_value_with_schema_cache R c payload name, cache'))"

definition equals_lookup :: "('a row_env_scheme) \<Rightarrow> bytes option \<Rightarrow> bytes \<Rightarrow> bool" where
  "equals_lookup R value lookup_value =
     (case value of None \<Rightarrow> False
      | Some v \<Rightarrow> compare_stored_field_values (value_fns R) v lookup_value = Equal)"

definition decode_row_payload_if_field_equals_with_schema_cache ::
    "('a row_env_scheme) \<Rightarrow> SchemaOrdinalCacheEntry \<Rightarrow> bytes \<Rightarrow> ustr \<Rightarrow> bytes \<Rightarrow> RowPayloadError + row_map option" where
  "decode_row_payload_if_field_equals_with_schema_cache R c payload name lookup_value =
     try_bind (decode_compatible_row_payload_shape R payload) (\<lambda>shape.
       case shape of
         Ordinal row \<Rightarrow>
           if \<not> equals_lookup R (ordinal_value c (length row) (flatten_get row) name) lookup_value then Ok None
           else Ok (Some (fill_row (ordinal_value c (length row) (flatten_get row)) (ordered_field_names c)))
       | LegacyMap legacy_row \<Rightarrow>
           if equals_lookup R (legacy_row name) lookup_value then Ok (Some legacy_row) else Ok None
       | LegacyOrdinal row \<Rightarrow>
           if \<not> equals_lookup R (ordinal_value c (length row) (get row) name) lookup_value then Ok None
           else Ok (Some (fill_row (ordinal_value c (length row) (get row)) (ordered_field_names c))))"

section \<open>Encoding\<close>

definition stored_value :: "('a row_env_scheme) \<Rightarrow> TableSchema \<Rightarrow> ustr \<Rightarrow> bytes \<Rightarrow> bytes" where
  "stored_value R schema name value =
     (case Option.bind (field schema name)
             (\<lambda>f. ok (convert_value_to_field_type (value_fns R) value (field_type f) Safe)) of
        Some v \<Rightarrow> v | None \<Rightarrow> value)"

definition encode_row_payload ::
    "('a row_env_scheme) \<Rightarrow> TableSchema \<Rightarrow> row_map \<Rightarrow> RowPayloadError + bytes" where
  "encode_row_payload R schema row =
     (let names = field_names_by_ordinal schema
      in if names = [] \<and> row \<noteq> Map.empty
         then (case ser_row_map R row of None \<Rightarrow> Err RowSerializeFailed | Some p \<Rightarrow> Ok p)
         else case ser_ordinal R (map (\<lambda>name. map_option (stored_value R schema name) (row name)) names) of
                None \<Rightarrow> Err RowSerializeFailed | Some p \<Rightarrow> Ok p)"

section \<open>Rewriting rows for a changed schema\<close>

text \<open>The row of a payload, without the cache (theorem \<open>schema_cache_transparent\<close> justifies this).\<close>

definition decode_row :: "('a row_env_scheme) \<Rightarrow> TableSchema \<Rightarrow> bytes \<Rightarrow> RowPayloadError + row_map" where
  "decode_row R schema payload = decode_compatible_row_payload_with_schema_cache R (build_entry schema) payload"

record FieldTypeChangeRule =
  rule_field_name :: ustr
  rule_target_type :: FieldKind

record SchemaMutationRuleSet =
  renames :: "(ustr \<times> ustr) list"
  removals :: "ustr list"
  additions :: "(ustr \<times> bytes) list"
  type_changes :: "FieldTypeChangeRule list"
  target_schema :: "TableSchema option"
  conversion_policy :: TypeConversionPolicy

datatype MigrationError = TypeChangeRejected | CatalogSerialize

fun apply_type_changes ::
    "value_env \<Rightarrow> TypeConversionPolicy \<Rightarrow> FieldTypeChangeRule list \<Rightarrow> row_map \<Rightarrow> MigrationError + row_map" where
  "apply_type_changes V policy [] row = Ok row"
| "apply_type_changes V policy (rule # rules) row =
     (let key = normalize_identifier (rule_field_name rule)
      in case row key of
           None \<Rightarrow> apply_type_changes V policy rules row
         | Some current \<Rightarrow>
             (case convert_value_to_field_type V current (rule_target_type rule) policy of
                Inl _ \<Rightarrow> Err TypeChangeRejected
              | Inr converted \<Rightarrow> apply_type_changes V policy rules (row(key \<mapsto> converted))))"

definition apply_rename :: "row_map \<Rightarrow> ustr \<times> ustr \<Rightarrow> row_map" where
  "apply_rename row r =
     (let from_key = normalize_identifier (fst r); to_key = normalize_identifier (snd r)
      in case row from_key of
           None \<Rightarrow> row
         | Some value \<Rightarrow>
             let row' = row(from_key := None)
             in if row' to_key = None then row'(to_key \<mapsto> value) else row')"

definition apply_removal :: "row_map \<Rightarrow> ustr \<Rightarrow> row_map" where
  "apply_removal row name = row(normalize_identifier name := None)"

definition apply_addition :: "row_map \<Rightarrow> ustr \<times> bytes \<Rightarrow> row_map" where
  "apply_addition row a =
     (let key = normalize_identifier (fst a) in if row key = None then row(key \<mapsto> snd a) else row)"

definition apply_schema_rules_to_payload ::
    "('a row_env_scheme) \<Rightarrow> bytes \<Rightarrow> SchemaMutationRuleSet \<Rightarrow> TableSchema \<Rightarrow> MigrationError + bytes" where
  "apply_schema_rules_to_payload R payload rules source_schema =
     (let target = (case target_schema rules of Some t \<Rightarrow> t | None \<Rightarrow> source_schema)
      in case decode_row R source_schema payload of
           Inl _ \<Rightarrow> Ok payload
         | Inr row0 \<Rightarrow>
             try_bind (apply_type_changes (value_fns R) (conversion_policy rules) (type_changes rules) row0) (\<lambda>row1.
               let row2 = foldl apply_rename row1 (renames rules);
                   row3 = foldl apply_removal row2 (removals rules);
                   row4 = foldl apply_addition row3 (additions rules)
               in case encode_row_payload R target row4 of Inl _ \<Rightarrow> Err CatalogSerialize | Inr p \<Rightarrow> Ok p))"

section \<open>Decoders agree\<close>

lemma fill_row_eq: "fill_row value names n = (if n \<in> set names then value n else None)"
proof -
  have "foldl (\<lambda>m name. case value name of None \<Rightarrow> m | Some v \<Rightarrow> m(name \<mapsto> v)) m names n =
        (if n \<in> set names \<and> value n \<noteq> None then value n else m n)" for m
    by (induction names arbitrary: m) (auto split: option.splits)
  then show ?thesis by (simp add: fill_row_def)
qed

definition entry_ok :: "SchemaOrdinalCacheEntry \<Rightarrow> bool" where
  "entry_ok c \<longleftrightarrow> dom (field_name_index c) \<subseteq> set (ordered_field_names c)
     \<and> dom (field_seqno_index c) \<subseteq> set (ordered_field_names c)"

lemma dom_collect_map: "dom (collect_map kvs) = fst ` set kvs"
  by (simp add: collect_map_def dom_map_of_conv_image_fst)

lemma set_field_names: "set (field_names_by_ordinal schema) = field_name ` set (schema_fields schema)"
  by (force simp: field_names_by_ordinal_def)

lemma entry_ok_build: "entry_ok (build_entry schema)"
  by (auto simp: entry_ok_def build_entry_def Let_def dom_collect_map set_field_names [symmetric]
      dest: set_zip_leftD)
    (auto simp: set_field_names List.map_filter_def split: if_splits)

lemma fill_ordinal:
  assumes "entry_ok c"
  shows "fill_row (ordinal_value c k value_at) (ordered_field_names c) = ordinal_value c k value_at"
proof
  fix n
  have "ordinal_value c k value_at n = None" if "n \<notin> set (ordered_field_names c)"
  proof -
    have "field_name_index c n = None" "field_seqno_index c n = None"
      using that assms by (auto simp: entry_ok_def)
    then show ?thesis by (simp add: ordinal_value_def row_index_for_field_def)
  qed
  then show "fill_row (ordinal_value c k value_at) (ordered_field_names c) n = ordinal_value c k value_at n"
    by (simp add: fill_row_eq)
qed

lemmas row_decoders =
  decode_row_def decode_row_field_value_with_schema_cache_def
  decode_row_payload_if_field_equals_with_schema_cache_def decode_compatible_row_payload_with_schema_cache_def

lemma decode_row_field_value_eq:
  "decode_row_field_value_with_schema_cache R (build_entry schema) p name =
     try_bind (decode_row R schema p) (\<lambda>row. Ok (row name))"
proof (cases "decode_compatible_row_payload_shape R p")
  case (Inr shape)
  then show ?thesis by (cases shape) (simp_all add: row_decoders fill_ordinal entry_ok_build)
qed (simp add: row_decoders)

lemma decode_row_payload_if_field_equals_eq:
  "decode_row_payload_if_field_equals_with_schema_cache R (build_entry schema) p name v =
     try_bind (decode_row R schema p) (\<lambda>row. Ok (if equals_lookup R (row name) v then Some row else None))"
proof (cases "decode_compatible_row_payload_shape R p")
  case (Inr shape)
  then show ?thesis by (cases shape) (simp_all add: row_decoders fill_ordinal entry_ok_build)
qed (simp add: row_decoders)

text \<open>
  C20. The decoders that read one field, or keep only rows with a given value in one field, agree with
  decoding the whole row, for the current payload form and both older ones: the first returns the
  entry of the decoded row, and the second returns that row exactly when the entry compares equal
  to the value looked for; on payloads that do not decode all three fail alike.
\<close>

theorem field_decoders_agree:
  "decode_row_field_value_with_schema_cache R (build_entry schema) p name =
     try_bind (decode_row R schema p) (\<lambda>row. Ok (row name))
   \<and> decode_row_payload_if_field_equals_with_schema_cache R (build_entry schema) p name v =
     try_bind (decode_row R schema p) (\<lambda>row. Ok (if equals_lookup R (row name) v then Some row else None))"
  by (simp add: decode_row_field_value_eq decode_row_payload_if_field_equals_eq)

section \<open>The cache is transparent\<close>

lemma build_entry_shape:
  assumes "schema_shape a = schema_shape b"
  shows "build_entry a = build_entry b"
proof -
  have n: "field_names_by_ordinal s = map snd (sort (schema_shape s))" for s
    by (simp add: field_names_by_ordinal_def schema_shape_def)
  have i: "List.map_filter (\<lambda>f. if seqno f = 0 then None else Some (field_name f, unat (seqno f) - 1)) (schema_fields s) =
        List.map_filter (\<lambda>(k, nm). if k = 0 then None else Some (nm, unat k - 1)) (schema_shape s)" for s
    by (simp add: schema_shape_def List.map_filter_def filter_map comp_def)
  have "(\<lambda>f. unat (seqno f)) ` set (schema_fields s) = (\<lambda>(k, nm). unat k) ` set (schema_shape s)" for s
    by (force simp: schema_shape_def)
  with n i assms show ?thesis by (simp add: build_entry_def)
qed

text \<open>
  What is needed of the hasher on the schemas \<open>S\<close> in use: it tells the field lists apart of two
  schemas with the same number of fields, the names of one among the names of the other. All other
  collisions are caught by \<open>cache_entry_matches_schema\<close>.
\<close>

definition no_collisions :: "('a row_env_scheme) \<Rightarrow> TableSchema set \<Rightarrow> bool" where
  "no_collisions R S \<longleftrightarrow>
     (\<forall>a \<in> S. \<forall>b \<in> S.
        length (schema_fields a) = length (schema_fields b) \<and>
        field_name ` set (schema_fields a) \<subseteq> field_name ` set (schema_fields b) \<and>
        hash_fields R (schema_shape a) = hash_fields R (schema_shape b) \<longrightarrow>
        schema_shape a = schema_shape b)"

lemma entry_matches:
  assumes "cache_entry_matches_schema (build_entry b) a"
  shows "length (schema_fields a) = length (schema_fields b)"
    and "field_name ` set (schema_fields a) \<subseteq> field_name ` set (schema_fields b)"
proof -
  let ?ns = "field_names_by_ordinal b"
  have ns: "length ?ns = length (schema_fields b)" "set ?ns = field_name ` set (schema_fields b)"
    by (simp_all add: field_names_by_ordinal_def image_image)
  have "dom (collect_map (zip ?ns [0..<length ?ns])) = set ?ns"
    by (simp add: collect_map_def dom_map_of_conv_image_fst flip: set_map)
  with ns assms show "length (schema_fields a) = length (schema_fields b)"
    and "field_name ` set (schema_fields a) \<subseteq> field_name ` set (schema_fields b)"
    by (auto simp: cache_entry_matches_schema_def build_entry_def Let_def list_all_iff)
qed

definition cache_sound :: "('a row_env_scheme) \<Rightarrow> TableSchema set \<Rightarrow> ordinal_cache option \<Rightarrow> bool" where
  "cache_sound R S cache \<longleftrightarrow>
     (\<forall>guard. cache = Some guard \<longrightarrow>
        (\<forall>(k, e) \<in> set guard. \<exists>schema \<in> S. k = schema_cache_key R schema \<and> e = build_entry schema))"

definition cache_bounded :: "ordinal_cache option \<Rightarrow> bool" where
  "cache_bounded cache \<longleftrightarrow> (\<forall>guard. cache = Some guard \<longrightarrow> length guard \<le> SCHEMA_ORDINAL_CACHE_MAX_ENTRIES)"

lemma set_AList_update: "set (AList.update k v xs) \<subseteq> insert (k, v) (set xs)"
  by (induction xs) auto

lemma length_AList_update: "length (AList.update k v xs) \<le> Suc (length xs)"
  by (induction xs) auto

lemma cache_after_lookup:
  obtains "snd (schema_ordinal_cache_entry R cache schema) = cache"
  | g where "g = [] \<or> cache = Some g \<and> length g < SCHEMA_ORDINAL_CACHE_MAX_ENTRIES"
      "snd (schema_ordinal_cache_entry R cache schema) = Some (AList.update (schema_cache_key R schema) (build_entry schema) g)"
proof (cases cache)
  case (Some guard)
  define g where "g = (if SCHEMA_ORDINAL_CACHE_MAX_ENTRIES \<le> length guard then [] else guard)"
  have "snd (schema_ordinal_cache_entry R cache schema) = cache \<or>
        snd (schema_ordinal_cache_entry R cache schema) = Some (AList.update (schema_cache_key R schema) (build_entry schema) g)"
    unfolding Some g_def by (cases "map_of guard (schema_cache_key R schema)")
      (simp_all add: schema_ordinal_cache_entry_def Let_def del: AList.update.simps)
  moreover have "g = [] \<or> cache = Some g \<and> length g < SCHEMA_ORDINAL_CACHE_MAX_ENTRIES"
    using Some by (simp add: g_def)
  ultimately show thesis using that by blast
qed (simp add: that schema_ordinal_cache_entry_def)

lemma cache_lookup_sound:
  assumes "no_collisions R S" "cache_sound R S cache" "schema \<in> S"
  shows "fst (schema_ordinal_cache_entry R cache schema) = build_entry schema"
    and "cache_sound R S (snd (schema_ordinal_cache_entry R cache schema))"
proof -
  have hit: "e = build_entry schema" if "cache = Some guard" "map_of guard (schema_cache_key R schema) = Some e"
    "cache_entry_matches_schema e schema" for guard e
  proof -
    have in_guard: "(schema_cache_key R schema, e) \<in> set guard" using that(2) by (rule map_of_SomeD)
    have "\<forall>x \<in> set guard. \<exists>other \<in> S. fst x = schema_cache_key R other \<and> snd x = build_entry other"
      using assms(2) that(1) by (auto simp: cache_sound_def)
    from bspec [OF this in_guard] obtain other where
      o: "other \<in> S" "schema_cache_key R schema = schema_cache_key R other" "e = build_entry other"
      by auto
    have "schema_shape schema = schema_shape other"
      using assms(1,3) o(1,2) entry_matches [of other schema] that(3)
      unfolding no_collisions_def schema_cache_key_def o(3) by blast
    then have "build_entry schema = build_entry other" by (rule build_entry_shape)
    with o(3) show ?thesis by simp
  qed
  show "fst (schema_ordinal_cache_entry R cache schema) = build_entry schema"
    using hit by (auto simp: schema_ordinal_cache_entry_def Let_def split: option.split)
  have upd: "cache_sound R S (Some (AList.update (schema_cache_key R schema) (build_entry schema) g))"
    if "cache_sound R S (Some g)" for g
    using that assms(3) set_AList_update [of "schema_cache_key R schema" "build_entry schema" g]
    unfolding cache_sound_def by auto
  have "cache_sound R S (Some [])" by (simp add: cache_sound_def)
  with upd assms(2) show "cache_sound R S (snd (schema_ordinal_cache_entry R cache schema))"
    by (cases rule: cache_after_lookup [of R cache schema]) auto
qed

lemma cache_stays_bounded:
  assumes "cache_bounded cache"
  shows "cache_bounded (snd (schema_ordinal_cache_entry R cache schema))"
proof (cases rule: cache_after_lookup [of R cache schema])
  case 1
  with assms show ?thesis by simp
next
  case (2 g)
  have "length g < SCHEMA_ORDINAL_CACHE_MAX_ENTRIES"
    using 2(1) by (auto simp: SCHEMA_ORDINAL_CACHE_MAX_ENTRIES_def)
  with 2(2) length_AList_update [of "schema_cache_key R schema" "build_entry schema" g] show ?thesis
    by (simp add: cache_bounded_def)
qed

interpretation ordinal_cache: functional_refinement "schema_ordinal_cache_entry R"
    "\<lambda>_ schema. (build_entry schema, ())" "\<lambda>_. ()" "\<lambda>cache. no_collisions R S \<and> cache_sound R S cache"
    "\<lambda>schema. schema \<in> S"
  for R :: "'a row_env_scheme" and S
proof
  fix cache schema
  assume "no_collisions R S \<and> cache_sound R S cache" "schema \<in> S"
  then show "no_collisions R S \<and> cache_sound R S (snd (schema_ordinal_cache_entry R cache schema))"
    and "(build_entry schema, ()) =
      (fst (schema_ordinal_cache_entry R cache schema), ())"
    using cache_lookup_sound [of R S cache schema] by simp_all
qed

interpretation ordinal_cache_size: command_machine "\<lambda>cache schema. snd (schema_ordinal_cache_entry R cache schema)"
    "Some []" cache_bounded "\<lambda>cache schema. True"
  for R :: "'a row_env_scheme"
  by unfold_locales (simp add: cache_bounded_def, rule cache_stays_bounded)

text \<open>
  C19. The process-wide cache of field orders is transparent and bounded.  Whatever tables the server
  decodes rows of, in whatever order, every lookup returns the entry built from the schema at hand,
  as long as the hasher keeps apart different field lists of the same length, the names of one among
  the names of the other; a collision of any other two schemas in use is detected and does no harm.
  And the cache never holds more than 1,024 entries.
\<close>

theorem schema_cache_transparent:
  assumes "no_collisions R (set schemas)"
  shows "run_replies (schema_ordinal_cache_entry R) (Some []) schemas = map build_entry schemas
       \<and> cache_bounded (foldl (\<lambda>cache schema. snd (schema_ordinal_cache_entry R cache schema)) (Some []) schemas)"
proof
  have "run_replies (schema_ordinal_cache_entry R) (Some []) schemas =
        run_replies (\<lambda>_ schema. (build_entry schema, ())) () schemas"
    using assms by (intro ordinal_cache.replies_refine [where S = "set schemas"])
      (auto simp: cache_sound_def list_all_iff)
  also have "\<dots> = map build_entry schemas" by (induction schemas) auto
  finally show "run_replies (schema_ordinal_cache_entry R) (Some []) schemas = map build_entry schemas" .
  show "cache_bounded (foldl (\<lambda>cache schema. snd (schema_ordinal_cache_entry R cache schema)) (Some []) schemas)"
    by (rule ordinal_cache_size.inv_reachable) simp
qed

section \<open>Rows survive storage\<close>

text \<open>Bincode reads back the positional rows it wrote, up to the size its decode limit allows.\<close>

definition row_codec_ok :: "('a row_env_scheme) \<Rightarrow> nat \<Rightarrow> bool" where
  "row_codec_ok R limit \<longleftrightarrow>
     (\<forall>row p. ser_ordinal R row = Some p \<and> length p \<le> limit \<longrightarrow> de_ordinal R p = Some row)"

lemma distinct_field_names:
  assumes "distinct (map field_name (schema_fields schema))"
  shows "distinct (field_names_by_ordinal schema)"
proof -
  have "inj_on snd (set (map (\<lambda>f. (seqno f, field_name f)) (schema_fields schema)))"
    using assms by (auto simp: distinct_map inj_on_def)
  moreover have "distinct (map (\<lambda>f. (seqno f, field_name f)) (schema_fields schema))"
    using assms by (auto simp: distinct_map inj_on_def)
  ultimately show ?thesis by (simp add: field_names_by_ordinal_def distinct_map)
qed

lemma collect_map_zip:
  assumes "distinct names" "i < length names"
  shows "collect_map (zip names [0..<length names]) (names ! i) = Some i"
proof -
  have "distinct (map fst (rev (zip names [0..<length names])))"
    using assms(1) by (simp add: rev_map [symmetric])
  moreover have "(names ! i, i) \<in> set (rev (zip names [0..<length names]))"
    using assms(2) by (auto simp: in_set_zip)
  ultimately show ?thesis unfolding collect_map_def by (rule map_of_is_SomeI)
qed

lemma decode_encode_row:
  assumes "row_codec_ok R limit" "distinct (map field_name (schema_fields schema))" "schema_fields schema \<noteq> []"
    and "encode_row_payload R schema row = Ok p" "length p \<le> limit"
  shows "decode_row R schema p =
     Ok (\<lambda>n. if n \<in> field_name ` set (schema_fields schema) then map_option (stored_value R schema n) (row n) else None)"
proof -
  define names where "names = field_names_by_ordinal schema"
  define stored where "stored = map (\<lambda>name. map_option (stored_value R schema name) (row name)) names"
  have ne: "names \<noteq> []" using assms(3) set_field_names [of schema] by (auto simp: names_def)
  then have "ser_ordinal R stored = Some p"
    using assms(4) by (simp add: encode_row_payload_def names_def [symmetric] stored_def [symmetric] split: option.splits)
  then have de: "de_ordinal R p = Some stored" using assms(1,5) by (auto simp: row_codec_ok_def)
  have v: "ordinal_value (build_entry schema) (length stored) (flatten_get stored) n =
           map_option (stored_value R schema n) (row n)" if n: "n \<in> set names" for n
  proof -
    obtain i where i: "i < length names" "names ! i = n" using n by (auto simp: in_set_conv_nth)
    have "field_name_index (build_entry schema) n = Some i"
      using collect_map_zip [OF distinct_field_names [OF assms(2)], of i] i
      by (simp add: build_entry_def names_def Let_def)
    moreover have "\<not> use_seqno_slot_decoding (length stored) (length (ordered_field_names (build_entry schema)))
        (max_seqno (build_entry schema))"
      by (simp add: use_seqno_slot_decoding_def stored_def names_def build_entry_def)
    ultimately show ?thesis using i
      by (simp add: ordinal_value_def row_index_for_field_def flatten_get_def get_def stored_def)
  qed
  have "set names = field_name ` set (schema_fields schema)" by (simp add: names_def set_field_names)
  moreover have "ordered_field_names (build_entry schema) = names" by (simp add: build_entry_def names_def)
  ultimately show ?thesis using de v
    by (auto simp: decode_row_def decode_compatible_row_payload_with_schema_cache_def
        decode_compatible_row_payload_shape_def fill_row_eq)
qed

text \<open>
  C9. A row written for a table is read back: decoding what \<open>encode_row_payload\<close> produced, with the
  field order taken from the cache, gives for every field of the schema the stored form of its
  value and no value where the row had none, whatever gaps the sequence numbers of the fields
  have; values of names outside the schema are dropped.
\<close>

theorem row_payload_roundtrip:
  assumes "row_codec_ok R limit" "distinct (map field_name (schema_fields schema))" "schema_fields schema \<noteq> []"
    and "encode_row_payload R schema row = Ok p" "length p \<le> limit"
    and "no_collisions R S" "cache_sound R S cache" "schema \<in> S"
  shows "fst (decode_row_payload R cache schema p) =
     Ok (\<lambda>n. if n \<in> field_name ` set (schema_fields schema) then map_option (stored_value R schema n) (row n) else None)"
proof -
  have "fst (decode_row_payload R cache schema p) = decode_row R schema p"
    using cache_lookup_sound(1) [OF assms(6-8)]
    by (cases "schema_ordinal_cache_entry R cache schema")
      (simp add: decode_row_payload_def decode_compatible_row_payload_def decode_row_def)
  with decode_encode_row [OF assms(1-5)] show ?thesis by simp
qed

section \<open>Migrated rows\<close>

text \<open>The names a set of rules mentions.\<close>

definition touched :: "SchemaMutationRuleSet \<Rightarrow> ustr set" where
  "touched rules =
     normalize_identifier ` (fst ` set (renames rules) \<union> snd ` set (renames rules) \<union> set (removals rules)
       \<union> fst ` set (additions rules) \<union> rule_field_name ` set (type_changes rules))"

lemma type_changes_untouched:
  "apply_type_changes V policy rules row = Ok row' \<Longrightarrow>
   n \<notin> normalize_identifier ` rule_field_name ` set rules \<Longrightarrow> row' n = row n"
proof (induction rules arbitrary: row)
  case (Cons rule rules)
  then show ?case
    by (auto simp: Let_def split: option.splits sum.splits)
qed simp

lemma foldl_untouched:
  assumes "\<And>r x. x \<in> set xs \<Longrightarrow> f r x n = r n"
  shows "foldl f r xs n = r n"
  using assms by (induction xs arbitrary: r) auto

lemma rules_untouched:
  assumes "apply_type_changes V policy (type_changes rules) row = Ok row1" "n \<notin> touched rules"
  shows "foldl apply_addition (foldl apply_removal (foldl apply_rename row1 (renames rules)) (removals rules))
           (additions rules) n = row n"
proof -
  have "foldl apply_addition r (additions rules) n = r n" for r
    using assms(2) by (intro foldl_untouched) (auto simp: apply_addition_def Let_def touched_def)
  moreover have "foldl apply_removal r (removals rules) n = r n" for r
    using assms(2) by (intro foldl_untouched) (auto simp: apply_removal_def touched_def)
  moreover have "foldl apply_rename r (renames rules) n = r n" for r
    using assms(2) by (intro foldl_untouched) (auto simp: apply_rename_def Let_def touched_def split: option.split)
  moreover have "row1 n = row n"
    using assms by (intro type_changes_untouched [of V policy "type_changes rules"]) (auto simp: touched_def)
  ultimately show ?thesis by simp
qed

text \<open>
  A schema migration leaves alone what its rules do not name: after a row was rewritten for the
  target schema, every field of that schema that no rename, removal, addition or type change
  mentions has the stored form of the value it had before.
\<close>

theorem migration_keeps_untouched_fields:
  assumes "row_codec_ok R limit" "target_schema rules = Some target"
    and "distinct (map field_name (schema_fields target))" "n \<in> field_name ` set (schema_fields target)"
    and "decode_row R source p = Ok row" "apply_schema_rules_to_payload R p rules source = Ok p'" "length p' \<le> limit"
    and "n \<notin> touched rules"
  shows "\<exists>row'. decode_row R target p' = Ok row' \<and> row' n = map_option (stored_value R target n) (row n)"
proof -
  obtain row1 where a: "apply_type_changes (value_fns R) (conversion_policy rules) (type_changes rules) row = Ok row1"
    and e: "(case encode_row_payload R target (foldl apply_addition (foldl apply_removal
         (foldl apply_rename row1 (renames rules)) (removals rules)) (additions rules)) of
         Inl _ \<Rightarrow> Err CatalogSerialize | Inr q \<Rightarrow> Ok q) = Ok p'"
    using assms(2,5,6) by (auto simp: apply_schema_rules_to_payload_def Let_def try_bind_Ok_iff)
  have r1: "encode_row_payload R target (foldl apply_addition (foldl apply_removal
         (foldl apply_rename row1 (renames rules)) (removals rules)) (additions rules)) = Ok p'"
    using e by (auto split: sum.splits)
  have "schema_fields target \<noteq> []" using assms(4) by auto
  from decode_encode_row [OF assms(1,3) this r1 assms(7)] rules_untouched [OF a assms(8)] assms(4)
  show ?thesis by auto
qed

section \<open>A concrete table\<close>

definition demo_schema :: TableSchema where
  "demo_schema = new_schema [demo_field ''name'' 3]"

definition demo_row_env :: row_env where
  "demo_row_env =
     \<lparr>ser_envelope = (\<lambda>e. None), de_envelope = (\<lambda>p. None), de_legacy_envelope = (\<lambda>p. None), sha256 = id,
      aes_seal = (\<lambda>k n a p. None), aes_open = (\<lambda>k n a c t. None), draw_nonce = (\<lambda>r. None),
      de_ordinal = (\<lambda>p. case p of [] \<Rightarrow> None
        | b # v \<Rightarrow> if b = 1 then Some [Some v] else if b = 0 \<and> v = [] then Some [None] else None),
      ser_ordinal = (\<lambda>row. case row of [Some v] \<Rightarrow> Some (1 # v) | [None] \<Rightarrow> Some [0] | _ \<Rightarrow> None),
      de_row_map = (\<lambda>p. None), ser_row_map = (\<lambda>row. None), de_row_vec = (\<lambda>p. None),
      hash_fields = (\<lambda>fs. of_nat (length fs)), value_fns = demo_values\<rparr>"

lemma demo_row_codec: "row_codec_ok demo_row_env limit"
  by (auto simp: row_codec_ok_def demo_row_env_def split: list.splits option.splits)

lemma demo_schema_fields [simp]: "schema_fields demo_schema = [demo_field ''name'' 3]"
  by (simp add: demo_schema_def new_schema_def)

lemma demo_field_sel [simp]: "field_name (demo_field n i) = lit n" "seqno (demo_field n i) = i"
  by (simp_all add: demo_field_def)

lemma demo_encode:
  "encode_row_payload demo_row_env demo_schema [lit ''name'' \<mapsto> v] =
     Ok (1 # stored_value demo_row_env demo_schema (lit ''name'') v)"
  by (simp add: encode_row_payload_def field_names_by_ordinal_def) (simp add: demo_row_env_def)

definition demo_other_schema :: TableSchema where
  "demo_other_schema = new_schema [demo_field ''age'' 1]"

theorem schema_cache_transparent_witness:
  "run_replies (schema_ordinal_cache_entry demo_row_env) (Some []) [demo_schema, demo_other_schema, demo_schema] =
     [build_entry demo_schema, build_entry demo_other_schema, build_entry demo_schema]
   \<and> schema_cache_key demo_row_env demo_schema = schema_cache_key demo_row_env demo_other_schema"
proof -
  have "no_collisions demo_row_env (set [demo_schema, demo_other_schema, demo_schema])"
    by (simp add: no_collisions_def demo_other_schema_def new_schema_def lit_def)
  from schema_cache_transparent [OF this] show ?thesis
    by (simp add: schema_cache_key_def demo_row_env_def schema_shape_def demo_other_schema_def new_schema_def)
qed

theorem row_payload_roundtrip_witness:
  "\<exists>p. encode_row_payload demo_row_env demo_schema [lit ''name'' \<mapsto> [65]] = Ok p
     \<and> fst (decode_row_payload demo_row_env (Some []) demo_schema p) =
         Ok [lit ''name'' \<mapsto> stored_value demo_row_env demo_schema (lit ''name'') [65]]"
proof -
  let ?p = "1 # stored_value demo_row_env demo_schema (lit ''name'') [65]"
  have "fst (decode_row_payload demo_row_env (Some []) demo_schema ?p) =
     Ok (\<lambda>n. if n \<in> field_name ` set (schema_fields demo_schema)
             then map_option (stored_value demo_row_env demo_schema n) ([lit ''name'' \<mapsto> [65]] n) else None)"
    by (rule row_payload_roundtrip [OF demo_row_codec [of "length ?p"] _ _ demo_encode [of "[65]"], where S = "{demo_schema}"])
      (simp_all add: no_collisions_def cache_sound_def)
  moreover have "(\<lambda>n. if n \<in> field_name ` set (schema_fields demo_schema)
             then map_option (stored_value demo_row_env demo_schema n) ([lit ''name'' \<mapsto> [65]] n) else None) =
     [lit ''name'' \<mapsto> stored_value demo_row_env demo_schema (lit ''name'') [65]]"
    by auto
  ultimately show ?thesis using demo_encode by auto
qed

theorem migration_keeps_untouched_fields_witness:
  "\<exists>p p' row'. encode_row_payload demo_row_env demo_schema [lit ''name'' \<mapsto> [65]] = Ok p
     \<and> apply_schema_rules_to_payload demo_row_env p
         \<lparr>renames = [], removals = [], additions = [], type_changes = [], target_schema = Some demo_schema,
          conversion_policy = Safe\<rparr> demo_schema = Ok p'
     \<and> decode_row demo_row_env demo_schema p' = Ok row' \<and> row' (lit ''name'') \<noteq> None"
proof -
  let ?rules = "\<lparr>renames = [], removals = [], additions = [], type_changes = [], target_schema = Some demo_schema,
          conversion_policy = Safe\<rparr>"
  let ?v = "stored_value demo_row_env demo_schema (lit ''name'')"
  let ?p = "1 # ?v [65]" let ?row = "[lit ''name'' \<mapsto> ?v [65]]" let ?p' = "1 # ?v (?v [65])"
  have d: "decode_row demo_row_env demo_schema ?p = Ok ?row"
  proof -
    have "(\<lambda>n. if n \<in> field_name ` set (schema_fields demo_schema)
             then map_option (stored_value demo_row_env demo_schema n) ([lit ''name'' \<mapsto> [65]] n) else None) = ?row"
      by auto
    with decode_encode_row [OF demo_row_codec [of "length ?p"] _ _ demo_encode [of "[65]"]] show ?thesis by simp
  qed
  have a: "apply_schema_rules_to_payload demo_row_env ?p ?rules demo_schema = Ok ?p'"
    using d demo_encode [of "?v [65]"] by (simp add: apply_schema_rules_to_payload_def)
  have "\<exists>row'. decode_row demo_row_env demo_schema ?p' = Ok row' \<and>
      row' (lit ''name'') = map_option ?v (?row (lit ''name''))"
    by (rule migration_keeps_untouched_fields [OF demo_row_codec [of "length ?p'"] _ _ _ d a])
      (simp_all add: touched_def)
  with a demo_encode show ?thesis by fastforce
qed

end
