(* ===== verification/LiveRows.thy ===== *)
theory LiveRows
  imports WalManager RowPayload
begin

text \<open>
  Reading live rows from a table's log, \<open>serverlib/src/engine/execution/access.rs\<close>: the rule that
  shows a write group only once it has committed, the sequential and the parallel row collectors,
  the bounded reverse scan, the filtered scans over a loaded and over a cold stream, and the row
  counts.
\<close>

type_synonym live_row = "u64 \<times> row_map"

section \<open>Visibility\<close>

definition committed_groups :: "entries \<Rightarrow> u64 set" where
  "committed_groups rs = set (List.map_filter (\<lambda>r. if tx_kind r = WriteCommit then groupid r else None) rs)"

definition aborted_groups :: "entries \<Rightarrow> u64 set" where
  "aborted_groups rs = set (List.map_filter (\<lambda>r. if tx_kind r = WriteAbort then groupid r else None) rs)"

definition is_terminal :: "TransactionRecord \<Rightarrow> bool" where
  "is_terminal r \<longleftrightarrow> tx_kind r = WriteCommit \<or> tx_kind r = WriteAbort"

definition record_visible_for_live_row_apply :: "u64 set \<Rightarrow> u64 set \<Rightarrow> TransactionRecord \<Rightarrow> bool" where
  "record_visible_for_live_row_apply committed aborted r \<longleftrightarrow>
     (case groupid r of
        None \<Rightarrow> True
      | Some g \<Rightarrow> g \<notin> aborted \<and> (g \<in> committed \<or> is_terminal r))"

definition is_row_kind :: "TransactionRecord \<Rightarrow> bool" where
  "is_row_kind r \<longleftrightarrow> tx_kind r = Insert \<or> tx_kind r = Update"

text \<open>
  \<open>dec\<close> is the decoder of the scan: \<open>decode_row_payload\<close> of the table's schema, or the decoder that
  keeps only rows with a given value in one field.
\<close>

type_synonym row_decoder = "bytes \<Rightarrow> row_map option"

definition decode_visible :: "row_decoder \<Rightarrow> u64 set \<Rightarrow> u64 set \<Rightarrow> TransactionRecord \<Rightarrow> row_map option" where
  "decode_visible dec committed aborted r =
     (if record_visible_for_live_row_apply committed aborted r \<and> is_row_kind r
      then Option.bind (payload_logical r) dec else None)"

section \<open>Collecting rows\<close>

record scan_state =
  live_rows :: "u64 \<rightharpoonup> row_map"
  row_order :: "u64 list"

definition scan_init :: scan_state where
  "scan_init = \<lparr>live_rows = Map.empty, row_order = []\<rparr>"

definition put_row :: "u64 \<Rightarrow> row_map \<Rightarrow> scan_state \<Rightarrow> scan_state" where
  "put_row i row s = \<lparr>live_rows = (live_rows s)(i \<mapsto> row), row_order = row_order s @ [i]\<rparr>"

definition delete_row :: "TransactionRecord \<Rightarrow> scan_state \<Rightarrow> scan_state" where
  "delete_row r s =
     (case refid r of None \<Rightarrow> s | Some i \<Rightarrow> s\<lparr>live_rows := (live_rows s)(i := None)\<rparr>)"

definition apply_record :: "row_decoder \<Rightarrow> u64 set \<Rightarrow> u64 set \<Rightarrow> scan_state \<Rightarrow> TransactionRecord \<Rightarrow> scan_state" where
  "apply_record dec committed aborted s r =
     (if \<not> record_visible_for_live_row_apply committed aborted r then s
      else if is_row_kind r
      then (case payload_logical r of
              None \<Rightarrow> s
            | Some payload \<Rightarrow> (case dec payload of None \<Rightarrow> s | Some row \<Rightarrow> put_row (tx_id r) row s))
      else if tx_kind r = Delete then delete_row r s
      else s)"

text \<open>\<open>row_order.into_iter().filter_map(|id| live_rows.remove(&id) ...)\<close>.\<close>

fun drain_rows :: "u64 list \<Rightarrow> (u64 \<rightharpoonup> row_map) \<Rightarrow> live_row list" where
  "drain_rows [] m = []"
| "drain_rows (i # is) m =
     (case m i of None \<Rightarrow> drain_rows is m | Some row \<Rightarrow> (i, row) # drain_rows is (m(i := None)))"

definition finish_scan :: "scan_state \<Rightarrow> live_row list" where
  "finish_scan s = drain_rows (row_order s) (live_rows s)"

definition apply_sequential :: "row_decoder \<Rightarrow> entries \<Rightarrow> scan_state" where
  "apply_sequential dec rs = foldl (apply_record dec (committed_groups rs) (aborted_groups rs)) scan_init rs"

subsection \<open>The parallel collector\<close>

definition decode_from ::
    "row_decoder \<Rightarrow> u64 set \<Rightarrow> u64 set \<Rightarrow> nat \<Rightarrow> entries \<Rightarrow> (nat \<times> row_map) list" where
  "decode_from dec committed aborted start rs =
     List.map_filter (\<lambda>(i, r). map_option (Pair i) (decode_visible dec committed aborted r)) (enumerate start rs)"

definition div_ceil :: "nat \<Rightarrow> nat \<Rightarrow> nat" where
  "div_ceil a b = (a + b - 1) div b"

text \<open>
  Every worker decodes one slice; the partial results are appended in the order of the workers.  A
  worker whose slice would start behind the chunk is not spawned.
\<close>

definition decode_live_row_chunk ::
    "row_decoder \<Rightarrow> u64 set \<Rightarrow> u64 set \<Rightarrow> nat \<Rightarrow> entries \<Rightarrow> (nat \<times> row_map) list" where
  "decode_live_row_chunk dec committed aborted threads chunk =
     (if threads \<le> 1 \<or> length chunk < 2 then decode_from dec committed aborted 0 chunk
      else let chunk_size = div_ceil (length chunk) threads
           in concat (map (\<lambda>worker_idx.
                let start = worker_idx * chunk_size; stop = min (start + chunk_size) (length chunk)
                in if length chunk \<le> start then []
                   else decode_from dec committed aborted start (take (stop - start) (drop start chunk)))
              [0..<threads]))"

text \<open>
  The records of a chunk are walked beside the decoded rows, the peekable iterator; \<open>keep\<close> is the
  test the filtered scan applies to a row after taking it from the iterator.
\<close>

fun apply_chunk ::
    "(row_map \<Rightarrow> bool) \<Rightarrow> u64 set \<Rightarrow> u64 set \<Rightarrow> nat \<Rightarrow> entries \<Rightarrow> (nat \<times> row_map) list \<Rightarrow> scan_state
       \<Rightarrow> scan_state" where
  "apply_chunk keep committed aborted offset [] decoded s = s"
| "apply_chunk keep committed aborted offset (r # rs) decoded s =
     (if is_row_kind r
      then (case decoded of
              (decoded_offset, row) # rest \<Rightarrow>
                if decoded_offset = offset
                then apply_chunk keep committed aborted (Suc offset) rs rest
                       (if keep row then put_row (tx_id r) row s else s)
                else apply_chunk keep committed aborted (Suc offset) rs decoded s
            | [] \<Rightarrow> apply_chunk keep committed aborted (Suc offset) rs decoded s)
      else if tx_kind r = Delete \<and> record_visible_for_live_row_apply committed aborted r
      then apply_chunk keep committed aborted (Suc offset) rs decoded (delete_row r s)
      else apply_chunk keep committed aborted (Suc offset) rs decoded s)"

text \<open>\<open>slice::chunks\<close>.\<close>

function chunks :: "nat \<Rightarrow> 'x list \<Rightarrow> 'x list list" where
  "chunks n xs = (if xs = [] \<or> n = 0 then [] else take n xs # chunks n (drop n xs))"
  by pat_completeness auto
termination by (relation "measure (\<lambda>(n, xs). length xs)") auto

declare chunks.simps [simp del]

definition LIVE_ROW_APPLY_PARALLEL_MIN_RECORDS :: nat where
  "LIVE_ROW_APPLY_PARALLEL_MIN_RECORDS = 500000"

definition LIVE_ROW_APPLY_PARALLEL_CHUNK_SIZE :: nat where
  "LIVE_ROW_APPLY_PARALLEL_CHUNK_SIZE = 200000"

definition apply_parallel :: "row_decoder \<Rightarrow> (row_map \<Rightarrow> bool) \<Rightarrow> nat \<Rightarrow> entries \<Rightarrow> scan_state" where
  "apply_parallel dec keep threads rs =
     (let committed = committed_groups rs; aborted = aborted_groups rs
      in foldl (\<lambda>s chunk. apply_chunk keep committed aborted 0 chunk
                  (decode_live_row_chunk dec committed aborted threads chunk) s)
           scan_init (chunks LIVE_ROW_APPLY_PARALLEL_CHUNK_SIZE rs))"

definition collect_live_rows_from_records :: "row_decoder \<Rightarrow> nat \<Rightarrow> entries \<Rightarrow> live_row list" where
  "collect_live_rows_from_records dec threads rs =
     finish_scan
       (if 1 < threads \<and> LIVE_ROW_APPLY_PARALLEL_MIN_RECORDS \<le> length rs
        then apply_parallel dec (\<lambda>_. True) threads rs else apply_sequential dec rs)"

subsection \<open>The bounded reverse scan\<close>

fun limited_scan ::
    "row_decoder \<Rightarrow> nat \<Rightarrow> u64 set \<Rightarrow> u64 set \<Rightarrow> u64 set \<Rightarrow> live_row list \<Rightarrow> entries \<Rightarrow> live_row list" where
  "limited_scan dec max_rows committed aborted deleted acc [] = acc"
| "limited_scan dec max_rows committed aborted deleted acc (r # rs) =
     (if tx_kind r = WriteCommit
      then limited_scan dec max_rows (set_option (groupid r) \<union> committed) aborted deleted acc rs
      else if tx_kind r = WriteAbort
      then limited_scan dec max_rows committed (set_option (groupid r) \<union> aborted) deleted acc rs
      else if tx_kind r = Delete
      then limited_scan dec max_rows committed aborted
             (if record_visible_for_live_row_apply committed aborted r then set_option (refid r) \<union> deleted else deleted) acc rs
      else if is_row_kind r \<and> record_visible_for_live_row_apply committed aborted r \<and> tx_id r \<notin> deleted
      then (case Option.bind (payload_logical r) dec of
              None \<Rightarrow> limited_scan dec max_rows committed aborted deleted acc rs
            | Some row \<Rightarrow>
                let acc' = acc @ [(tx_id r, row)]
                in if max_rows \<le> length acc' then acc'
                   else limited_scan dec max_rows committed aborted deleted acc' rs)
      else limited_scan dec max_rows committed aborted deleted acc rs)"

definition collect_live_rows_from_records_limited :: "row_decoder \<Rightarrow> nat \<Rightarrow> entries \<Rightarrow> live_row list" where
  "collect_live_rows_from_records_limited dec max_rows rs =
     rev (limited_scan dec max_rows {} {} {} [] (rev rs))"

section \<open>Filtered scans\<close>

definition row_matches_equality_filters :: "value_env \<Rightarrow> (ustr \<times> bytes) list \<Rightarrow> row_map \<Rightarrow> bool" where
  "row_matches_equality_filters V filters row =
     list_all (\<lambda>(name, lookup_value). case row name of
        None \<Rightarrow> False
      | Some v \<Rightarrow> compare_stored_field_values V v lookup_value = Equal) filters"

text \<open>
  The decoder of a filtered scan: with a single filter the field is compared before the row is
  built, otherwise the row is built and then matched.
\<close>

definition filtered_decoder :: "('a row_env_scheme) \<Rightarrow> TableSchema \<Rightarrow> (ustr \<times> bytes) list \<Rightarrow> row_decoder" where
  "filtered_decoder R schema filters payload =
     Option.bind
       (case filters of
          [(name, lookup_value)] \<Rightarrow>
            (case decode_row_payload_if_field_equals_with_schema_cache R (build_entry schema) payload name lookup_value of
               Inl _ \<Rightarrow> None | Inr maybe_row \<Rightarrow> maybe_row)
        | _ \<Rightarrow> ok (decode_row R schema payload))
       (\<lambda>row. if row_matches_equality_filters (value_fns R) filters row then Some row else None)"

text \<open>
  In the parallel branch a single filter is applied by \<open>decode_matching_live_row_chunk\<close>, the loop of
  \<open>decode_live_row_chunk\<close> with this decoder, and not checked again; several filters are checked when
  the decoded row is taken.
\<close>

definition matching_decoder :: "('a row_env_scheme) \<Rightarrow> TableSchema \<Rightarrow> (ustr \<times> bytes) list \<Rightarrow> row_decoder" where
  "matching_decoder R schema filters payload =
     (case filters of
        [(name, lookup_value)] \<Rightarrow>
          (case decode_row_payload_if_field_equals_with_schema_cache R (build_entry schema) payload name lookup_value of
             Inl _ \<Rightarrow> None | Inr maybe_row \<Rightarrow> maybe_row)
      | _ \<Rightarrow> ok (decode_row R schema payload))"

definition keeps_decoded :: "value_env \<Rightarrow> (ustr \<times> bytes) list \<Rightarrow> row_map \<Rightarrow> bool" where
  "keeps_decoded V filters row \<longleftrightarrow> length filters = 1 \<or> row_matches_equality_filters V filters row"

definition equality_scan_loaded ::
    "('a row_env_scheme) \<Rightarrow> TableSchema \<Rightarrow> (ustr \<times> bytes) list \<Rightarrow> nat \<Rightarrow> entries \<Rightarrow> live_row list" where
  "equality_scan_loaded R schema filters threads rs =
     finish_scan
       (if 1 < threads \<and> LIVE_ROW_APPLY_PARALLEL_MIN_RECORDS \<le> length rs
        then apply_parallel (matching_decoder R schema filters) (keeps_decoded (value_fns R) filters) threads rs
        else apply_sequential (filtered_decoder R schema filters) rs)"

subsection \<open>The single pass over a cold stream\<close>

record cold_state = scan_state +
  cold_committed :: "u64 set"
  cold_aborted :: "u64 set"
  pending_group_records :: "u64 \<Rightarrow> entries"
  applied_group_row_ids :: "u64 \<Rightarrow> u64 list"
  latest_scanned_tx_id :: u64

definition cold_init :: cold_state where
  "cold_init = \<lparr>live_rows = Map.empty, row_order = [], cold_committed = {}, cold_aborted = {},
     pending_group_records = (\<lambda>g. []), applied_group_row_ids = (\<lambda>g. []), latest_scanned_tx_id = 0\<rparr>"

definition apply_visible_equality_record ::
    "row_decoder \<Rightarrow> u64 option \<Rightarrow> TransactionRecord \<Rightarrow> cold_state \<Rightarrow> cold_state" where
  "apply_visible_equality_record dec gid r s =
     (if is_row_kind r
      then (case Option.bind (payload_logical r) dec of
              None \<Rightarrow> s
            | Some row \<Rightarrow>
                let s' = s\<lparr>live_rows := (live_rows s)(tx_id r \<mapsto> row), row_order := row_order s @ [tx_id r]\<rparr>
                in case gid of
                     None \<Rightarrow> s'
                   | Some g \<Rightarrow> s'\<lparr>applied_group_row_ids :=
                       (applied_group_row_ids s)(g := applied_group_row_ids s g @ [tx_id r])\<rparr>)
      else if tx_kind r = Delete
      then (case refid r of None \<Rightarrow> s | Some i \<Rightarrow> s\<lparr>live_rows := (live_rows s)(i := None)\<rparr>)
      else s)"

definition clear_pending :: "u64 \<Rightarrow> cold_state \<Rightarrow> cold_state" where
  "clear_pending g s = s\<lparr>pending_group_records := (pending_group_records s)(g := [])\<rparr>"

definition cold_step :: "row_decoder \<Rightarrow> cold_state \<Rightarrow> TransactionRecord \<Rightarrow> cold_state" where
  "cold_step dec s0 r =
     (let s = s0\<lparr>latest_scanned_tx_id := max (latest_scanned_tx_id s0) (tx_id r)\<rparr>
      in if tx_kind r = WriteCommit then
           (case groupid r of
              None \<Rightarrow> s
            | Some g \<Rightarrow>
                let s1 = s\<lparr>cold_committed := insert g (cold_committed s)\<rparr>
                in if g \<in> cold_aborted s1 then clear_pending g s1
                   else foldl (\<lambda>t staged. apply_visible_equality_record dec (Some g) staged t)
                          (clear_pending g s1) (pending_group_records s1 g))
         else if tx_kind r = WriteAbort then
           (case groupid r of
              None \<Rightarrow> s
            | Some g \<Rightarrow>
                let s1 = clear_pending g (s\<lparr>cold_aborted := insert g (cold_aborted s)\<rparr>)
                in s1\<lparr>live_rows := (live_rows s1) |` (- set (applied_group_row_ids s1 g)),
                      applied_group_row_ids := (applied_group_row_ids s1)(g := [])\<rparr>)
         else
           (case groupid r of
              None \<Rightarrow> apply_visible_equality_record dec None r s
            | Some g \<Rightarrow>
                if g \<in> cold_aborted s then s
                else if g \<in> cold_committed s then apply_visible_equality_record dec (Some g) r s
                else s\<lparr>pending_group_records :=
                       (pending_group_records s)(g := pending_group_records s g @ [r])\<rparr>))"

definition cold_scan :: "row_decoder \<Rightarrow> entries \<Rightarrow> cold_state" where
  "cold_scan dec rs = foldl (cold_step dec) cold_init rs"

definition equality_scan_cold ::
    "('a row_env_scheme) \<Rightarrow> TableSchema \<Rightarrow> (ustr \<times> bytes) list \<Rightarrow> entries \<Rightarrow> u64 \<times> live_row list" where
  "equality_scan_cold R schema filters rs =
     (let s = cold_scan (filtered_decoder R schema filters) rs
      in (latest_scanned_tx_id s, drain_rows (row_order s) (live_rows s)))"

subsection \<open>Counting\<close>

definition count_decoder :: "('a row_env_scheme) \<Rightarrow> TableSchema \<Rightarrow> (ustr \<times> bytes) list \<Rightarrow> bytes \<Rightarrow> bool" where
  "count_decoder R schema filters payload =
     (case filters of
        [(name, lookup_value)] \<Rightarrow>
          (case decode_row_field_value_with_schema_cache R (build_entry schema) payload name of
             Inr (Some value) \<Rightarrow> value = lookup_value | _ \<Rightarrow> False)
      | _ \<Rightarrow>
          (case decode_row_payload_with_schema_cache R (build_entry schema) payload of
             Inr row \<Rightarrow> row_matches_equality_filters (value_fns R) filters row | Inl _ \<Rightarrow> False))"

definition count_step ::
    "(TransactionRecord \<Rightarrow> bool) \<Rightarrow> u64 set \<Rightarrow> u64 set \<Rightarrow> u64 set \<Rightarrow> TransactionRecord \<Rightarrow> u64 set" where
  "count_step counts committed aborted ids r =
     (if \<not> record_visible_for_live_row_apply committed aborted r then ids
      else if is_row_kind r then (if counts r then insert (tx_id r) ids else ids)
      else if tx_kind r = Delete then ids - set_option (refid r)
      else ids)"

definition count_scan :: "(TransactionRecord \<Rightarrow> bool) \<Rightarrow> entries \<Rightarrow> nat" where
  "count_scan counts rs = card (foldl (count_step counts (committed_groups rs) (aborted_groups rs)) {} rs)"

definition equality_count_loaded ::
    "('a row_env_scheme) \<Rightarrow> TableSchema \<Rightarrow> (ustr \<times> bytes) list \<Rightarrow> entries \<Rightarrow> nat" where
  "equality_count_loaded R schema filters =
     count_scan (\<lambda>r. case payload_logical r of None \<Rightarrow> False | Some payload \<Rightarrow> count_decoder R schema filters payload)"

section \<open>Access to a stream\<close>

definition load_live_rows_in_place ::
    "wal_env \<Rightarrow> ('a row_env_scheme) \<Rightarrow> io_outcomes \<Rightarrow> nat \<Rightarrow> ustr \<Rightarrow> TableSchema \<Rightarrow> ConcurrentWalManager
       \<Rightarrow> live_row list \<times> ConcurrentWalManager" where
  "load_live_rows_in_place E R io threads stream schema m =
     apfst (\<lambda>rows. case rows of None \<Rightarrow> [] | Some rs \<Rightarrow> rs)
       (with_records E io stream (collect_live_rows_from_records (\<lambda>p. ok (decode_row R schema p)) threads) m)"

definition load_live_rows_in_place_limited ::
    "wal_env \<Rightarrow> ('a row_env_scheme) \<Rightarrow> io_outcomes \<Rightarrow> ustr \<Rightarrow> TableSchema \<Rightarrow> nat \<Rightarrow> ConcurrentWalManager
       \<Rightarrow> live_row list \<times> ConcurrentWalManager" where
  "load_live_rows_in_place_limited E R io stream schema max_rows m =
     (if max_rows = 0 then ([], m)
      else apfst (\<lambda>rows. case rows of None \<Rightarrow> [] | Some rs \<Rightarrow> rs)
        (with_records E io stream (collect_live_rows_from_records_limited (\<lambda>p. ok (decode_row R schema p)) max_rows) m))"

definition load_live_rows_with_context ::
    "wal_env \<Rightarrow> ('a row_env_scheme) \<Rightarrow> io_outcomes \<Rightarrow> nat \<Rightarrow> ustr \<Rightarrow> TableSchema \<Rightarrow> TransactionPayloadContext
       \<Rightarrow> ConcurrentWalManager \<Rightarrow> live_row list result \<times> ConcurrentWalManager" where
  "load_live_rows_with_context E R io threads stream schema c m =
     apfst (\<lambda>res. try_bind res (\<lambda>rs. Ok (collect_live_rows_from_records (\<lambda>p. ok (decode_row R schema p)) threads rs)))
       (since_with_context E io stream None c m)"

definition load_live_rows_by_equality_filters_direct_wal_scan ::
    "wal_env \<Rightarrow> ('a row_env_scheme) \<Rightarrow> io_outcomes \<Rightarrow> nat \<Rightarrow> ustr \<Rightarrow> TableSchema \<Rightarrow> (ustr \<times> bytes) list
       \<Rightarrow> ConcurrentWalManager \<Rightarrow> (u64 \<times> live_row list) \<times> ConcurrentWalManager" where
  "load_live_rows_by_equality_filters_direct_wal_scan E R io threads stream schema filters m =
     (if filters = [] then ((0, []), m)
      else case scan_durable_records_if_unloaded E io stream m of
             Inr (Some rs) \<Rightarrow> (equality_scan_cold R schema filters rs, m)
           | _ \<Rightarrow>
               let latest0 = (case latest_transaction_id_if_loaded E stream m of None \<Rightarrow> 0 | Some i \<Rightarrow> i)
               in apfst (\<lambda>res. case res of None \<Rightarrow> (latest0, []) | Some x \<Rightarrow> x)
                    (with_records E io stream
                       (\<lambda>rs. (foldl (\<lambda>l r. max l (tx_id r)) latest0 rs, equality_scan_loaded R schema filters threads rs)) m))"

definition count_live_rows_by_equality_filters_direct_wal_scan ::
    "wal_env \<Rightarrow> ('a row_env_scheme) \<Rightarrow> io_outcomes \<Rightarrow> ustr \<Rightarrow> TableSchema \<Rightarrow> (ustr \<times> bytes) list
       \<Rightarrow> ConcurrentWalManager \<Rightarrow> nat \<times> ConcurrentWalManager" where
  "count_live_rows_by_equality_filters_direct_wal_scan E R io stream schema filters m =
     (if filters = [] then (0, m)
      else case scan_durable_records_if_unloaded E io stream m of
             Inr (Some rs) \<Rightarrow> (length (snd (equality_scan_cold R schema filters rs)), m)
           | _ \<Rightarrow>
               apfst (\<lambda>res. case res of None \<Rightarrow> 0 | Some n \<Rightarrow> n)
                 (with_records E io stream (equality_count_loaded R schema filters) m))"

section \<open>The parallel collector computes the sequential result\<close>

lemma decode_from_Nil [simp]: "decode_from dec C A k [] = []"
  by (simp add: decode_from_def List.map_filter_simps)

lemma decode_from_Cons:
  "decode_from dec C A k (r # rs) =
     (case decode_visible dec C A r of None \<Rightarrow> [] | Some row \<Rightarrow> [(k, row)]) @ decode_from dec C A (Suc k) rs"
  by (simp add: decode_from_def List.map_filter_simps split: option.split)

lemma decode_from_append:
  "decode_from dec C A k (xs @ ys) = decode_from dec C A k xs @ decode_from dec C A (k + length xs) ys"
  by (induction xs arbitrary: k) (simp_all add: decode_from_Cons)

lemma decode_slices:
  "concat (map (\<lambda>w. decode_from dec C A (w * n) (take n (drop (w * n) chunk))) [0..<k]) =
     decode_from dec C A 0 (take (k * n) chunk)"
proof (induction k)
  case (Suc k)
  have "take (Suc k * n) chunk = take (k * n) chunk @ take n (drop (k * n) chunk)"
    by (metis add.commute mult_Suc take_add)
  moreover have "decode_from dec C A (length (take (k * n) chunk)) (take n (drop (k * n) chunk)) =
        decode_from dec C A (k * n) (take n (drop (k * n) chunk))"
    by (cases "k * n \<le> length chunk") (simp_all add: min_absorb2)
  ultimately show ?case using Suc by (simp add: decode_from_append)
qed simp

lemma div_ceil_covers: "0 < b \<Longrightarrow> a \<le> b * div_ceil a b"
proof -
  assume b: "0 < b"
  have "a + b - 1 < b + b * ((a + b - 1) div b)" using b
    by (metis add.commute mod_less_divisor mult_div_mod_eq nat_add_left_cancel_less)
  then show ?thesis using b by (simp add: div_ceil_def)
qed

lemma decode_live_row_chunk_eq: "decode_live_row_chunk dec C A threads chunk = decode_from dec C A 0 chunk"
proof (cases "threads \<le> 1 \<or> length chunk < 2")
  case False
  let ?n = "div_ceil (length chunk) threads"
  have slice: "(let start = w * ?n; stop = min (start + ?n) (length chunk)
                in if length chunk \<le> start then []
                   else decode_from dec C A start (take (stop - start) (drop start chunk))) =
               decode_from dec C A (w * ?n) (take ?n (drop (w * ?n) chunk))" for w
    by (cases "length chunk \<le> w * ?n") (auto simp: Let_def min_def)
  have "decode_live_row_chunk dec C A threads chunk =
        concat (map (\<lambda>w. decode_from dec C A (w * ?n) (take ?n (drop (w * ?n) chunk))) [0..<threads])"
    using False by (simp only: decode_live_row_chunk_def slice [unfolded Let_def] if_False Let_def)
  also have "\<dots> = decode_from dec C A 0 chunk"
    using False div_ceil_covers [of threads "length chunk"] by (simp add: decode_slices)
  finally show ?thesis .
qed (simp add: decode_live_row_chunk_def)

lemma decode_from_offset: "(i, row) \<in> set (decode_from dec C A k rs) \<Longrightarrow> k \<le> i"
  by (induction rs arbitrary: k) (auto simp: decode_from_Cons split: option.splits dest: Suc_leD)

lemma apply_record_decode:
  "is_row_kind r \<Longrightarrow> apply_record dec C A s r =
     (case decode_visible dec C A r of None \<Rightarrow> s | Some row \<Rightarrow> put_row (tx_id r) row s)"
  by (auto simp: apply_record_def decode_visible_def split: option.split)

definition kept :: "row_decoder \<Rightarrow> (row_map \<Rightarrow> bool) \<Rightarrow> row_decoder" where
  "kept dec keep payload = Option.bind (dec payload) (\<lambda>row. if keep row then Some row else None)"

lemma kept_all [simp]: "kept dec (\<lambda>_. True) = dec"
  by (auto simp: kept_def)

lemma decode_visible_kept:
  "decode_visible (kept dec keep) C A r = Option.bind (decode_visible dec C A r) (\<lambda>row. if keep row then Some row else None)"
  by (cases "payload_logical r") (simp_all add: decode_visible_def kept_def)

lemma apply_chunk_eq:
  "apply_chunk keep C A k rs (decode_from dec C A k rs) s = foldl (apply_record (kept dec keep) C A) s rs"
proof (induction rs arbitrary: k s)
  case (Cons r rs)
  show ?case
  proof (cases "is_row_kind r")
    case True
    show ?thesis
    proof (cases "decode_visible dec C A r")
      case None
      have "apply_chunk keep C A k (r # rs) (decode_from dec C A (Suc k) rs) s =
            apply_chunk keep C A (Suc k) rs (decode_from dec C A (Suc k) rs) s"
        using True decode_from_offset [of _ _ dec C A "Suc k" rs]
        by (cases "decode_from dec C A (Suc k) rs") (auto, fastforce+)
      with True None Cons show ?thesis by (simp add: decode_from_Cons apply_record_decode decode_visible_kept)
    next
      case (Some row)
      with True Cons show ?thesis by (simp add: decode_from_Cons apply_record_decode decode_visible_kept)
    qed
  next
    case False
    then have "decode_visible dec C A r = None" by (simp add: decode_visible_def)
    with False Cons show ?thesis by (simp add: decode_from_Cons apply_record_def)
  qed
qed simp

lemma concat_chunks: "0 < n \<Longrightarrow> concat (chunks n xs) = xs"
proof (induction n xs rule: chunks.induct)
  case (1 n xs)
  then show ?case by (subst chunks.simps) simp
qed

lemma foldl_concat: "foldl f s (concat xss) = foldl (foldl f) s xss"
  by (induction xss arbitrary: s) simp_all

lemma apply_parallel_eq: "apply_parallel dec keep threads rs = apply_sequential (kept dec keep) rs"
proof -
  have "foldl (apply_record (kept dec keep) C A) s rs =
        foldl (foldl (apply_record (kept dec keep) C A)) s (chunks LIVE_ROW_APPLY_PARALLEL_CHUNK_SIZE rs)"
    for C A s
    using concat_chunks [of LIVE_ROW_APPLY_PARALLEL_CHUNK_SIZE rs] foldl_concat
    by (metis LIVE_ROW_APPLY_PARALLEL_CHUNK_SIZE_def zero_less_numeral)
  then show ?thesis
    by (simp add: apply_parallel_def apply_sequential_def decode_live_row_chunk_eq apply_chunk_eq Let_def)
qed

lemma matching_decoder_eq:
  "kept (matching_decoder R schema filters) (keeps_decoded (value_fns R) filters) = filtered_decoder R schema filters"
proof
  fix p
  show "kept (matching_decoder R schema filters) (keeps_decoded (value_fns R) filters) p = filtered_decoder R schema filters p"
    by (cases "decode_row R schema p"; cases filters; cases "tl filters")
      (auto simp: kept_def keeps_decoded_def matching_decoder_def filtered_decoder_def decode_row_payload_if_field_equals_eq
        row_matches_equality_filters_def equals_lookup_def split: option.splits)
qed

text \<open>
  C8. The number of worker threads does not change the rows a scan returns: above half a million
  records the log is decoded by slices in parallel, and the full scan and the filtered scan then
  return the same rows in the same order as the sequential loop.
\<close>

theorem parallel_scan_eq_sequential:
  "collect_live_rows_from_records dec threads rs = finish_scan (apply_sequential dec rs)
   \<and> equality_scan_loaded R schema filters threads rs = finish_scan (apply_sequential (filtered_decoder R schema filters) rs)"
  by (simp add: collect_live_rows_from_records_def equality_scan_loaded_def apply_parallel_eq matching_decoder_eq)

section \<open>Write groups are atomic\<close>

lemma committed_groups_iff: "g \<in> committed_groups rs \<longleftrightarrow> (\<exists>r \<in> set rs. tx_kind r = WriteCommit \<and> groupid r = Some g)"
  by (auto simp: committed_groups_def List.map_filter_def split: if_splits) force

lemma aborted_groups_iff: "g \<in> aborted_groups rs \<longleftrightarrow> (\<exists>r \<in> set rs. tx_kind r = WriteAbort \<and> groupid r = Some g)"
  by (auto simp: aborted_groups_def List.map_filter_def split: if_splits) force

lemmas group_iffs = committed_groups_iff aborted_groups_iff

lemma apply_terminal: "is_terminal r \<Longrightarrow> apply_record dec C A s r = s"
  by (auto simp: apply_record_def is_terminal_def is_row_kind_def)

lemma apply_record_cong:
  assumes "is_terminal r \<or> record_visible_for_live_row_apply C A r = record_visible_for_live_row_apply C' A' r"
  shows "apply_record dec C A s r = apply_record dec C' A' s r"
proof (cases "is_terminal r")
  case True
  then show ?thesis by (simp add: apply_terminal)
next
  case False
  with assms show ?thesis by (simp add: apply_record_def)
qed

lemma foldl_filter_noop:
  assumes "\<And>s x. x \<in> set xs \<Longrightarrow> \<not> P x \<Longrightarrow> f s x = s"
  shows "foldl f s (filter P xs) = foldl f s xs"
  using assms by (induction xs arbitrary: s) auto

lemma foldl_cong_on:
  assumes "\<And>s x. x \<in> set xs \<Longrightarrow> f s x = g s x"
  shows "foldl f s xs = foldl g s xs"
  using assms by (induction xs arbitrary: s) auto

definition ungroup :: "u64 \<Rightarrow> TransactionRecord \<Rightarrow> TransactionRecord" where
  "ungroup g r = (if groupid r = Some g then r\<lparr>groupid := None\<rparr> else r)"

lemma ungroup_sel [simp]:
  "tx_id (ungroup g r) = tx_id r" "tx_kind (ungroup g r) = tx_kind r" "refid (ungroup g r) = refid r"
  "payload_logical (ungroup g r) = payload_logical r"
  "groupid (ungroup g r) = (if groupid r = Some g then None else groupid r)"
  by (simp_all add: ungroup_def payload_logical_def resolved_payload_def cong: option.case_cong)

lemma groups_without:
  "committed_groups (filter (\<lambda>r. groupid r \<noteq> Some g) rs) = committed_groups rs - {g}"
  "aborted_groups (filter (\<lambda>r. groupid r \<noteq> Some g) rs) = aborted_groups rs - {g}"
  "committed_groups (map (ungroup g) rs) = committed_groups rs - {g}"
  "aborted_groups (map (ungroup g) rs) = aborted_groups rs - {g}"
  by (auto simp: set_eq_iff group_iffs split: if_splits; force)+

lemma hidden_group_absent:
  assumes "g \<notin> committed_groups rs \<or> g \<in> aborted_groups rs"
  shows "apply_sequential dec rs = apply_sequential dec (filter (\<lambda>r. groupid r \<noteq> Some g) rs)"
proof -
  let ?C = "committed_groups rs" let ?A = "aborted_groups rs"
  have "apply_record dec ?C ?A s r = s" if "\<not> groupid r \<noteq> Some g" for s r
  proof (cases "is_terminal r")
    case True
    then show ?thesis by (rule apply_terminal)
  next
    case False
    with assms that have "\<not> record_visible_for_live_row_apply ?C ?A r"
      by (auto simp: record_visible_for_live_row_apply_def)
    then show ?thesis by (simp add: apply_record_def)
  qed
  then have "apply_sequential dec rs = foldl (apply_record dec ?C ?A) scan_init (filter (\<lambda>r. groupid r \<noteq> Some g) rs)"
    unfolding apply_sequential_def by (intro foldl_filter_noop [symmetric])
  also have "\<dots> = apply_sequential dec (filter (\<lambda>r. groupid r \<noteq> Some g) rs)"
    unfolding apply_sequential_def groups_without
    by (intro foldl_cong_on apply_record_cong)
      (auto simp: record_visible_for_live_row_apply_def split: option.split)
  finally show ?thesis .
qed

lemma committed_group_plain:
  assumes "g \<in> committed_groups rs" "g \<notin> aborted_groups rs"
  shows "apply_sequential dec rs = apply_sequential dec (map (ungroup g) rs)"
proof -
  have "apply_record dec (committed_groups rs) (aborted_groups rs) s r =
        apply_record dec (committed_groups rs - {g}) (aborted_groups rs - {g}) s (ungroup g r)" for s r
  proof -
    define shown where "shown = apply_record dec UNIV {} s r"
    have "apply_record dec C A s (ungroup g r) =
          (if record_visible_for_live_row_apply C A (ungroup g r) then shown else s)" for C A
      unfolding shown_def by (auto simp: apply_record_def record_visible_for_live_row_apply_def is_row_kind_def delete_row_def
          split: option.split)
    moreover have "apply_record dec C A s r =
          (if record_visible_for_live_row_apply C A r then shown else s)" for C A
      unfolding shown_def by (auto simp: apply_record_def record_visible_for_live_row_apply_def split: option.split)
    moreover have "record_visible_for_live_row_apply (committed_groups rs - {g}) (aborted_groups rs - {g}) (ungroup g r)
        = record_visible_for_live_row_apply (committed_groups rs) (aborted_groups rs) r"
      using assms by (auto simp: record_visible_for_live_row_apply_def is_terminal_def split: option.split)
    ultimately show ?thesis by simp
  qed
  then show ?thesis unfolding apply_sequential_def groups_without foldl_map by (intro foldl_cong_on)
qed

text \<open>
  C2. A write group is shown as a whole or not at all.  While it has no commit record, or once it has
  an abort record, a scan returns what it would return if no record of the group were in the log;
  when it is committed and not aborted, a scan returns what it would return if the same records had
  been written outside any group.
\<close>

theorem write_group_atomic:
  "collect_live_rows_from_records dec threads rs =
     (if g \<in> committed_groups rs \<and> g \<notin> aborted_groups rs
      then collect_live_rows_from_records dec threads (map (ungroup g) rs)
      else collect_live_rows_from_records dec threads (filter (\<lambda>r. groupid r \<noteq> Some g) rs))"
  using hidden_group_absent [of g rs dec] committed_group_plain [of g rs dec]
  by (auto simp: collect_live_rows_from_records_def apply_parallel_eq)

section \<open>What a scan returns\<close>

text \<open>
  The reference: the rows that decode and are visible, in log order, except those that a visible
  delete record later in the log refers to.
\<close>

definition deleted_refs :: "u64 set \<Rightarrow> u64 set \<Rightarrow> entries \<Rightarrow> u64 set" where
  "deleted_refs C A rs =
     (\<Union>r \<in> set rs. if record_visible_for_live_row_apply C A r \<and> tx_kind r = Delete then set_option (refid r) else {})"

definition decoded_ids :: "row_decoder \<Rightarrow> u64 set \<Rightarrow> u64 set \<Rightarrow> entries \<Rightarrow> u64 list" where
  "decoded_ids dec C A rs = map tx_id (filter (\<lambda>r. decode_visible dec C A r \<noteq> None) rs)"

fun live_spec :: "row_decoder \<Rightarrow> u64 set \<Rightarrow> u64 set \<Rightarrow> entries \<Rightarrow> live_row list" where
  "live_spec dec C A [] = []"
| "live_spec dec C A (r # rs) =
     (case decode_visible dec C A r of
        None \<Rightarrow> live_spec dec C A rs
      | Some row \<Rightarrow>
          if tx_id r \<in> deleted_refs C A rs then live_spec dec C A rs
          else (tx_id r, row) # live_spec dec C A rs)"

definition distinct_row_ids :: "entries \<Rightarrow> bool" where
  "distinct_row_ids rs \<longleftrightarrow> distinct (map tx_id (filter is_row_kind rs))"

lemma decode_visible_row_kind: "decode_visible dec C A r \<noteq> None \<Longrightarrow> is_row_kind r"
  by (auto simp: decode_visible_def split: if_splits)

lemma decode_visible_Some: "decode_visible dec C A r = Some row \<Longrightarrow> is_row_kind r"
  by (auto simp: decode_visible_def split: if_splits)

lemma distinct_decoded_ids: "distinct_row_ids rs \<Longrightarrow> distinct (decoded_ids dec C A rs)"
proof -
  assume d: "distinct_row_ids rs"
  have "filter (\<lambda>r. decode_visible dec C A r \<noteq> None) rs =
        filter (\<lambda>r. decode_visible dec C A r \<noteq> None) (filter is_row_kind rs)"
    by (auto intro!: filter_cong dest: decode_visible_Some)
  with d show ?thesis unfolding decoded_ids_def distinct_row_ids_def by (simp only: distinct_map_filter)
qed

lemma live_spec_keys: "fst ` set (live_spec dec C A rs) \<subseteq> set (decoded_ids dec C A rs)"
  by (induction rs) (auto simp: decoded_ids_def split: option.splits if_splits)

lemma apply_record_cases:
  "apply_record dec C A s r =
     (case decode_visible dec C A r of
        Some row \<Rightarrow> put_row (tx_id r) row s
      | None \<Rightarrow> if record_visible_for_live_row_apply C A r \<and> tx_kind r = Delete then delete_row r s else s)"
  by (auto simp: apply_record_def decode_visible_def is_row_kind_def split: option.split)

lemma apply_records_order:
  "row_order (foldl (apply_record dec C A) s rs) = row_order s @ decoded_ids dec C A rs"
proof (induction rs arbitrary: s)
  case (Cons r rs)
  then show ?case
    by (cases "decode_visible dec C A r")
      (auto simp: apply_record_cases decoded_ids_def put_row_def delete_row_def split: option.split)
qed (simp add: decoded_ids_def)

lemma apply_records_live:
  "distinct (decoded_ids dec C A rs) \<Longrightarrow>
   live_rows (foldl (apply_record dec C A) s rs) i =
     (case map_of (live_spec dec C A rs) i of
        Some row \<Rightarrow> Some row
      | None \<Rightarrow> if i \<in> deleted_refs C A rs \<or> i \<in> set (decoded_ids dec C A rs) then None else live_rows s i)"
proof (induction rs arbitrary: s)
  case Nil
  then show ?case by (simp add: decoded_ids_def deleted_refs_def)
next
  case (Cons r rs)
  have d: "distinct (decoded_ids dec C A rs)" using Cons.prems by (auto simp: decoded_ids_def split: if_splits)
  note IH = Cons.IH [OF d, of "apply_record dec C A s r"]
  show ?case
  proof (cases "decode_visible dec C A r")
    case None
    with IH show ?thesis
      by (auto simp: apply_record_cases decoded_ids_def delete_row_def deleted_refs_def split: option.splits if_splits)
  next
    case (Some row)
    then have n: "tx_id r \<notin> set (decoded_ids dec C A rs)" using Cons.prems by (simp add: decoded_ids_def)
    then have "map_of (live_spec dec C A rs) (tx_id r) = None"
      using live_spec_keys [of dec C A rs] by (meson map_of_eq_None_iff subsetD)
    moreover have "deleted_refs C A (r # rs) = deleted_refs C A rs"
      using decode_visible_row_kind [of dec C A r] Some by (auto simp: deleted_refs_def is_row_kind_def)
    moreover have "decoded_ids dec C A (r # rs) = tx_id r # decoded_ids dec C A rs"
      using Some by (simp add: decoded_ids_def)
    ultimately show ?thesis using IH Some n
      by (auto simp: apply_record_cases put_row_def split: option.splits)
  qed
qed

lemma map_filter_cong_on:
  "(\<And>x. x \<in> set xs \<Longrightarrow> f x = g x) \<Longrightarrow> List.map_filter f xs = List.map_filter g xs"
  by (induction xs) (simp_all add: List.map_filter_simps split: option.split)

lemma drain_rows_distinct:
  "distinct is \<Longrightarrow> drain_rows is m = List.map_filter (\<lambda>i. map_option (Pair i) (m i)) is"
proof (induction "is" arbitrary: m)
  case (Cons i "is")
  have "List.map_filter (\<lambda>j. map_option (Pair j) ((m(i := None)) j)) is = List.map_filter (\<lambda>j. map_option (Pair j) (m j)) is"
    using Cons.prems by (intro map_filter_cong_on) auto
  with Cons show ?case by (simp add: List.map_filter_simps split: option.split)
qed (simp add: List.map_filter_simps)

lemma live_spec_rows:
  "distinct (decoded_ids dec C A rs) \<Longrightarrow>
   List.map_filter (\<lambda>i. map_option (Pair i) (map_of (live_spec dec C A rs) i)) (decoded_ids dec C A rs) = live_spec dec C A rs"
proof (induction rs)
  case Nil
  then show ?case by (simp add: decoded_ids_def List.map_filter_simps)
next
  case (Cons r rs)
  have d: "distinct (decoded_ids dec C A rs)" using Cons.prems by (auto simp: decoded_ids_def split: if_splits)
  show ?case
  proof (cases "decode_visible dec C A r")
    case None
    with Cons.IH [OF d] show ?thesis by (simp add: decoded_ids_def)
  next
    case (Some row)
    have ids: "decoded_ids dec C A (r # rs) = tx_id r # decoded_ids dec C A rs"
      using Some by (simp add: decoded_ids_def)
    then have n: "tx_id r \<notin> set (decoded_ids dec C A rs)" using Cons.prems by simp
    then have "map_of (live_spec dec C A rs) (tx_id r) = None"
      using live_spec_keys [of dec C A rs] by (meson map_of_eq_None_iff subsetD)
    moreover have "List.map_filter (\<lambda>i. map_option (Pair i) (map_of (live_spec dec C A (r # rs)) i)) (decoded_ids dec C A rs) =
          List.map_filter (\<lambda>i. map_option (Pair i) (map_of (live_spec dec C A rs) i)) (decoded_ids dec C A rs)"
      using n Some by (intro map_filter_cong_on) auto
    ultimately show ?thesis using Cons.IH [OF d] Some
      by (cases "tx_id r \<in> deleted_refs C A rs") (simp_all add: ids List.map_filter_simps)
  qed
qed

lemma finish_scan_spec:
  assumes "distinct (decoded_ids dec C A rs)"
  shows "finish_scan (foldl (apply_record dec C A) scan_init rs) = live_spec dec C A rs"
proof -
  let ?s = "foldl (apply_record dec C A) scan_init rs"
  have "row_order ?s = decoded_ids dec C A rs" by (simp add: apply_records_order scan_init_def)
  moreover have "live_rows ?s = map_of (live_spec dec C A rs)"
    using apply_records_live [OF assms, of scan_init] by (auto simp: scan_init_def split: option.splits)
  ultimately show ?thesis using assms by (simp add: finish_scan_def drain_rows_distinct live_spec_rows)
qed

lemma collect_spec:
  "distinct_row_ids rs \<Longrightarrow>
   collect_live_rows_from_records dec threads rs = live_spec dec (committed_groups rs) (aborted_groups rs) rs"
  using finish_scan_spec [OF distinct_decoded_ids]
  by (simp add: collect_live_rows_from_records_def apply_parallel_eq apply_sequential_def)

section \<open>The bounded scan returns the newest rows\<close>

text \<open>The commit or abort record of a group comes behind all its data records.\<close>

fun terminals_last :: "entries \<Rightarrow> bool" where
  "terminals_last [] = True"
| "terminals_last (r # rs) =
     ((is_terminal r \<and> groupid r \<noteq> None \<longrightarrow> (\<forall>q \<in> set rs. groupid q = groupid r \<longrightarrow> is_terminal q)) \<and> terminals_last rs)"

lemma terminals_last_append:
  "terminals_last (xs @ ys) \<longleftrightarrow> terminals_last xs \<and> terminals_last ys \<and>
     (\<forall>r \<in> set xs. \<forall>q \<in> set ys. is_terminal r \<and> groupid r \<noteq> None \<and> groupid q = groupid r \<longrightarrow> is_terminal q)"
  by (induction xs) auto

lemma suffix_visibility:
  assumes "terminals_last (pre @ r # suf)" "\<not> is_terminal r"
  shows "record_visible_for_live_row_apply (committed_groups suf) (aborted_groups suf) r =
         record_visible_for_live_row_apply (committed_groups (pre @ r # suf)) (aborted_groups (pre @ r # suf)) r"
proof -
  have "g \<in> committed_groups (pre @ r # suf) \<longleftrightarrow> g \<in> committed_groups suf"
    "g \<in> aborted_groups (pre @ r # suf) \<longleftrightarrow> g \<in> aborted_groups suf" if "groupid r = Some g" for g
    using assms that by (auto simp: group_iffs terminals_last_append is_terminal_def)
  then show ?thesis by (auto simp: record_visible_for_live_row_apply_def split: option.split)
qed

definition lastn :: "nat \<Rightarrow> 'x list \<Rightarrow> 'x list" where
  "lastn n xs = drop (length xs - n) xs"

lemma lastn_append: "length ys = n \<Longrightarrow> lastn n (xs @ ys) = ys"
  by (simp add: lastn_def)

lemma live_spec_append: "\<exists>xs. live_spec dec C A (pre @ suf) = xs @ live_spec dec C A suf"
proof (induction pre)
  case (Cons r pre)
  then obtain xs where "live_spec dec C A (pre @ suf) = xs @ live_spec dec C A suf" by blast
  then show ?case
    by (cases "decode_visible dec C A r"; cases "tx_id r \<in> deleted_refs C A (pre @ suf)")
      (auto intro: exI [of _ xs] exI [of _ "(tx_id r, y) # xs" for y])
qed simp

lemma groups_Cons:
  "committed_groups (r # rs) = (if tx_kind r = WriteCommit then set_option (groupid r) \<union> committed_groups rs else committed_groups rs)"
  "aborted_groups (r # rs) = (if tx_kind r = WriteAbort then set_option (groupid r) \<union> aborted_groups rs else aborted_groups rs)"
  by (auto simp: committed_groups_def aborted_groups_def List.map_filter_simps split: option.split)

lemma deleted_refs_iff:
  "i \<in> deleted_refs C A rs \<longleftrightarrow>
     (\<exists>r \<in> set rs. record_visible_for_live_row_apply C A r \<and> tx_kind r = Delete \<and> refid r = Some i)"
  by (auto simp: deleted_refs_def split: if_splits)

lemma deleted_refs_Cons:
  "deleted_refs C A (r # rs) =
     (if record_visible_for_live_row_apply C A r \<and> tx_kind r = Delete then set_option (refid r) \<union> deleted_refs C A rs
      else deleted_refs C A rs)"
  by (auto simp: deleted_refs_def)

text \<open>One step of the reverse scan moves the record it reads from the prefix to the suffix.\<close>

lemma limited_scan_step:
  assumes "terminals_last (pre @ r # suf)"
    and "C = committed_groups (pre @ r # suf)" "A = aborted_groups (pre @ r # suf)"
    and "length (live_spec dec C A suf) < n"
  shows "limited_scan dec n (committed_groups suf) (aborted_groups suf) (deleted_refs C A suf)
           (rev (live_spec dec C A suf)) (r # rs) =
         (if length (live_spec dec C A (r # suf)) = n then rev (live_spec dec C A (r # suf))
          else limited_scan dec n (committed_groups (r # suf)) (aborted_groups (r # suf)) (deleted_refs C A (r # suf))
                 (rev (live_spec dec C A (r # suf))) rs)"
proof (cases "is_terminal r")
  case True
  then have "decode_visible dec C A r = None" "tx_kind r \<noteq> Delete"
    by (auto simp: decode_visible_def is_terminal_def is_row_kind_def)
  with True assms(4) show ?thesis by (auto simp: groups_Cons deleted_refs_Cons is_terminal_def)
next
  case False
  have v: "record_visible_for_live_row_apply (committed_groups suf) (aborted_groups suf) r = record_visible_for_live_row_apply C A r"
    using suffix_visibility [OF assms(1) False] assms(2,3) by simp
  have t: "tx_kind r \<noteq> WriteCommit" "tx_kind r \<noteq> WriteAbort" using False by (auto simp: is_terminal_def)
  show ?thesis
  proof (cases "decode_visible dec C A r")
    case None
    with t v assms(4) show ?thesis
      by (cases "Option.bind (payload_logical r) dec")
        (auto simp: groups_Cons deleted_refs_Cons decode_visible_def is_row_kind_def)
  next
    case (Some row)
    then have k: "is_row_kind r" "record_visible_for_live_row_apply C A r" "Option.bind (payload_logical r) dec = Some row"
      by (auto simp: decode_visible_def split: if_splits)
    then have "tx_kind r \<noteq> Delete" by (auto simp: is_row_kind_def)
    with k t v Some assms(4) show ?thesis by (auto simp: groups_Cons deleted_refs_Cons)
  qed
qed

lemma limited_scan_spec:
  assumes "terminals_last (pre @ suf)" "C = committed_groups (pre @ suf)" "A = aborted_groups (pre @ suf)"
    and "length (live_spec dec C A suf) < n"
  shows "limited_scan dec n (committed_groups suf) (aborted_groups suf) (deleted_refs C A suf)
           (rev (live_spec dec C A suf)) (rev pre) = rev (lastn n (live_spec dec C A (pre @ suf)))"
  using assms
proof (induction pre arbitrary: suf rule: rev_induct)
  case Nil
  then show ?case by (simp add: lastn_def)
next
  case (snoc r pre)
  note step = limited_scan_step [of pre r suf C A dec n "rev pre"]
  show ?case
  proof (cases "length (live_spec dec C A (r # suf)) = n")
    case True
    obtain xs where "live_spec dec C A (pre @ r # suf) = xs @ live_spec dec C A (r # suf)"
      using live_spec_append by blast
    with True snoc.prems step show ?thesis by (simp add: lastn_append)
  next
    case False
    have "length (live_spec dec C A (r # suf)) \<le> Suc (length (live_spec dec C A suf))"
      by (simp split: option.split)
    with False snoc.prems(4) have "length (live_spec dec C A (r # suf)) < n" by simp
    with snoc.IH [of "r # suf"] snoc.prems step False show ?thesis by simp
  qed
qed

text \<open>
  C7. The bounded scan returns the newest rows: reading the log backwards and stopping after
  \<open>max_rows\<close> rows gives the last \<open>max_rows\<close> rows of the full scan, in the same order, when row
  identifiers are unique and the terminal record of a group comes behind its data records.
\<close>

theorem limited_scan_newest_rows:
  assumes "distinct_row_ids rs" "terminals_last rs" "0 < max_rows"
  shows "collect_live_rows_from_records_limited dec max_rows rs =
         lastn max_rows (collect_live_rows_from_records dec threads rs)"
proof -
  have "limited_scan dec max_rows {} {} {} [] (rev rs) =
        rev (lastn max_rows (live_spec dec (committed_groups rs) (aborted_groups rs) rs))"
    using limited_scan_spec [of rs "[]" "committed_groups rs" "aborted_groups rs" dec max_rows] assms(2,3)
    by (simp add: committed_groups_def aborted_groups_def deleted_refs_def List.map_filter_simps)
  with collect_spec [OF assms(1)] show ?thesis
    by (simp add: collect_live_rows_from_records_limited_def)
qed

section \<open>A concrete log\<close>

text \<open>Two rows, the second in a write group that commits, and a deletion of the first.\<close>

definition demo_log :: entries where
  "demo_log =
     [with_payload 1 None None 0 [] Insert [1, 65],
      with_payload 2 (Some 7) None 0 [] Insert [1, 66],
      without_payload 3 (Some 7) None 0 [] WriteCommit,
      without_payload 4 None (Some 1) 0 [] Delete,
      with_payload 5 None None 0 [] Insert [1, 65]]"

lemmas demo_log_simps =
  demo_log_def with_payload_def without_payload_def is_row_kind_def is_terminal_def

lemma demo_log_ok: "distinct_row_ids demo_log" "terminals_last demo_log"
  by (simp_all add: demo_log_simps distinct_row_ids_def)

theorem limited_scan_newest_rows_witness:
  "collect_live_rows_from_records_limited (\<lambda>p. Some [lit ''name'' \<mapsto> p]) 1 demo_log =
     lastn 1 (collect_live_rows_from_records (\<lambda>p. Some [lit ''name'' \<mapsto> p]) 4 demo_log)
   \<and> map fst (collect_live_rows_from_records_limited (\<lambda>p. Some [lit ''name'' \<mapsto> p]) 1 demo_log) = [5]"
proof -
  have "map fst (collect_live_rows_from_records (\<lambda>p. Some [lit ''name'' \<mapsto> p]) 4 demo_log) = [2, 5]"
    unfolding collect_spec [OF demo_log_ok(1)]
    by (simp add: demo_log_simps committed_groups_def aborted_groups_def List.map_filter_simps deleted_refs_def
        decode_visible_def record_visible_for_live_row_apply_def payload_logical_def resolved_payload_def)
  then have "map fst (lastn 1 (collect_live_rows_from_records (\<lambda>p. Some [lit ''name'' \<mapsto> p]) 4 demo_log)) = [5]"
    by (simp add: lastn_def drop_map [symmetric] length_map [of fst, symmetric] del: length_map)
  with limited_scan_newest_rows [OF demo_log_ok, of 1 "\<lambda>p. Some [lit ''name'' \<mapsto> p]" 4] show ?thesis by simp
qed

end
