(* ===== verification/ColdScan.thy ===== *)
theory ColdScan
  imports LiveRows
begin

text \<open>
  The filtered scan of a stream that is not in memory, \<open>access.rs\<close>: the single pass of
  \<open>load_live_rows_by_equality_filters_direct_wal_scan_cold_stream\<close> applies a write group when it meets
  its commit record.  It finds the rows of the two-pass scan over the loaded records; and the
  counting scan is compared with both.
\<close>

section \<open>The single pass over a cold stream\<close>

text \<open>
  The order in which the single pass applies records: an ungrouped record at once, the records of a
  group when its commit record is read, and nothing of an aborted group.
\<close>

fun commit_order :: "u64 set \<Rightarrow> u64 set \<Rightarrow> (u64 \<Rightarrow> entries) \<Rightarrow> entries \<Rightarrow> entries" where
  "commit_order C A P [] = []"
| "commit_order C A P (r # rs) =
     (if tx_kind r = WriteCommit then
        (case groupid r of
           None \<Rightarrow> commit_order C A P rs
         | Some g \<Rightarrow> (if g \<in> A then [] else P g) @ commit_order (insert g C) A (P(g := [])) rs)
      else if tx_kind r = WriteAbort then
        (case groupid r of
           None \<Rightarrow> commit_order C A P rs
         | Some g \<Rightarrow> commit_order C (insert g A) (P(g := [])) rs)
      else
        (case groupid r of
           None \<Rightarrow> r # commit_order C A P rs
         | Some g \<Rightarrow>
             if g \<in> A then commit_order C A P rs
             else if g \<in> C then r # commit_order C A P rs
             else commit_order C A (P(g := P g @ [r])) rs))"

definition rows_of :: "cold_state \<Rightarrow> scan_state" where
  "rows_of s = \<lparr>live_rows = live_rows s, row_order = row_order s\<rparr>"

lemma everything_visible [simp]: "record_visible_for_live_row_apply UNIV {} r"
  by (simp add: record_visible_for_live_row_apply_def split: option.split)

lemma rows_of_apply:
  "rows_of (apply_visible_equality_record dec gid r s) = apply_record dec UNIV {} (rows_of s) r"
  by (auto simp: rows_of_def apply_visible_equality_record_def apply_record_def put_row_def delete_row_def Let_def
      split: option.split)

lemma rows_of_apply_all:
  "rows_of (foldl (\<lambda>t staged. apply_visible_equality_record dec gid staged t) s rs) =
     foldl (apply_record dec UNIV {}) (rows_of s) rs"
  by (induction rs arbitrary: s) (simp_all add: rows_of_apply)

lemma apply_visible_sel:
  "cold_committed (apply_visible_equality_record dec gid r s) = cold_committed s"
  "cold_aborted (apply_visible_equality_record dec gid r s) = cold_aborted s"
  "pending_group_records (apply_visible_equality_record dec gid r s) = pending_group_records s"
  "g \<notin> set_option gid \<Longrightarrow> applied_group_row_ids (apply_visible_equality_record dec gid r s) g = applied_group_row_ids s g"
  by (auto simp: apply_visible_equality_record_def Let_def split: option.split)

lemma apply_visible_all_sel:
  "cold_committed (foldl (\<lambda>t staged. apply_visible_equality_record dec gid staged t) s rs) = cold_committed s"
  "cold_aborted (foldl (\<lambda>t staged. apply_visible_equality_record dec gid staged t) s rs) = cold_aborted s"
  "pending_group_records (foldl (\<lambda>t staged. apply_visible_equality_record dec gid staged t) s rs) = pending_group_records s"
  "g \<notin> set_option gid \<Longrightarrow>
   applied_group_row_ids (foldl (\<lambda>t staged. apply_visible_equality_record dec gid staged t) s rs) g = applied_group_row_ids s g"
  by (induction rs arbitrary: s) (simp_all add: apply_visible_sel)

lemma rows_of_updates [simp]:
  "rows_of (s\<lparr>latest_scanned_tx_id := x\<rparr>) = rows_of s" "rows_of (s\<lparr>cold_committed := c\<rparr>) = rows_of s"
  "rows_of (s\<lparr>cold_aborted := c\<rparr>) = rows_of s" "rows_of (s\<lparr>pending_group_records := p\<rparr>) = rows_of s"
  "rows_of (s\<lparr>applied_group_row_ids := a\<rparr>) = rows_of s" "rows_of (clear_pending g s) = rows_of s"
  by (simp_all add: rows_of_def clear_pending_def)

text \<open>Rows were applied for committed groups only, so an abort that follows takes nothing back.\<close>

definition applied_ok :: "cold_state \<Rightarrow> bool" where
  "applied_ok s \<longleftrightarrow> (\<forall>g. g \<notin> cold_committed s \<longrightarrow> applied_group_row_ids s g = [])"

lemma applied_ok_apply:
  assumes "applied_ok s" "set_option gid \<subseteq> cold_committed s"
  shows "applied_ok (apply_visible_equality_record dec gid r s)"
  unfolding applied_ok_def apply_visible_sel
proof (intro allI impI)
  fix g assume g: "g \<notin> cold_committed s"
  then have "applied_group_row_ids (apply_visible_equality_record dec gid r s) g = applied_group_row_ids s g"
    using assms(2) by (intro apply_visible_sel(4)) auto
  with g assms(1) show "applied_group_row_ids (apply_visible_equality_record dec gid r s) g = []"
    by (simp add: applied_ok_def)
qed

lemma applied_ok_latest [simp]: "applied_ok (s\<lparr>latest_scanned_tx_id := x\<rparr>) = applied_ok s"
  by (simp add: applied_ok_def)

lemma applied_ok_pending [simp]: "applied_ok (s\<lparr>pending_group_records := x\<rparr>) = applied_ok s"
  by (simp add: applied_ok_def)

text \<open>One step of the single pass, in terms of the rows and the staged groups only.\<close>

definition steps_to ::
    "row_decoder \<Rightarrow> cold_state \<Rightarrow> TransactionRecord \<Rightarrow> entries \<Rightarrow> u64 set \<Rightarrow> u64 set \<Rightarrow> (u64 \<Rightarrow> entries) \<Rightarrow> bool" where
  "steps_to dec s r now C A P \<longleftrightarrow>
     rows_of (cold_step dec s r) = foldl (apply_record dec UNIV {}) (rows_of s) now \<and> applied_ok (cold_step dec s r) \<and>
     cold_committed (cold_step dec s r) = C \<and> cold_aborted (cold_step dec s r) = A \<and>
     pending_group_records (cold_step dec s r) = P"

lemma step_commit:
  assumes "applied_ok s" "tx_kind r = WriteCommit" "groupid r = Some g" "g \<notin> cold_aborted s"
  shows "steps_to dec s r (pending_group_records s g) (insert g (cold_committed s)) (cold_aborted s)
           ((pending_group_records s)(g := []))"
proof -
  have step: "cold_step dec s r = foldl (\<lambda>t staged. apply_visible_equality_record dec (Some g) staged t)
      (clear_pending g (s\<lparr>latest_scanned_tx_id := max (latest_scanned_tx_id s) (tx_id r),
         cold_committed := insert g (cold_committed s)\<rparr>)) (pending_group_records s g)"
    using assms by (simp add: cold_step_def Let_def)
  have "applied_ok (cold_step dec s r)"
    using assms(1) unfolding applied_ok_def step apply_visible_all_sel
    by (auto simp: clear_pending_def apply_visible_all_sel)
  then show ?thesis
    by (simp add: steps_to_def step rows_of_apply_all apply_visible_all_sel clear_pending_def)
qed

lemma step_abort:
  assumes "applied_ok s" "tx_kind r = WriteAbort" "groupid r = Some g" "g \<notin> cold_committed s"
  shows "steps_to dec s r [] (cold_committed s) (insert g (cold_aborted s)) ((pending_group_records s)(g := []))"
proof -
  have "applied_group_row_ids s g = []" using assms(1,4) by (simp add: applied_ok_def)
  with assms show ?thesis
    by (simp add: steps_to_def cold_step_def Let_def clear_pending_def rows_of_def applied_ok_def restrict_map_def)
qed

lemma step_ungrouped:
  assumes "applied_ok s" "groupid r = None"
  shows "steps_to dec s r (if is_terminal r then [] else [r]) (cold_committed s) (cold_aborted s) (pending_group_records s)"
  using assms
  by (auto simp: steps_to_def cold_step_def Let_def is_terminal_def rows_of_apply apply_visible_sel(1-3) applied_ok_apply)

lemma step_grouped:
  assumes "applied_ok s" "groupid r = Some g" "\<not> is_terminal r"
  shows "g \<in> cold_aborted s \<Longrightarrow> steps_to dec s r [] (cold_committed s) (cold_aborted s) (pending_group_records s)"
    and "g \<notin> cold_aborted s \<Longrightarrow> g \<in> cold_committed s \<Longrightarrow>
      steps_to dec s r [r] (cold_committed s) (cold_aborted s) (pending_group_records s)"
    and "g \<notin> cold_aborted s \<Longrightarrow> g \<notin> cold_committed s \<Longrightarrow>
      steps_to dec s r [] (cold_committed s) (cold_aborted s) ((pending_group_records s)(g := pending_group_records s g @ [r]))"
  using assms
  by (auto simp: steps_to_def cold_step_def Let_def is_terminal_def rows_of_apply apply_visible_sel(1-3) applied_ok_apply)

lemma cold_scan_order:
  assumes "applied_ok s"
    and "(cold_committed s \<union> committed_groups rs) \<inter> (cold_aborted s \<union> aborted_groups rs) = {}"
  shows "rows_of (foldl (cold_step dec) s rs) =
     foldl (apply_record dec UNIV {}) (rows_of s)
       (commit_order (cold_committed s) (cold_aborted s) (pending_group_records s) rs)"
  using assms
proof (induction rs arbitrary: s)
  case (Cons r rs)
  have go: ?case if "steps_to dec s r now C A P" "(C \<union> committed_groups rs) \<inter> (A \<union> aborted_groups rs) = {}"
      "commit_order (cold_committed s) (cold_aborted s) (pending_group_records s) (r # rs) = now @ commit_order C A P rs"
    for now C A P
    using Cons.IH [of "cold_step dec s r"] that by (simp add: steps_to_def del: commit_order.simps)
  show ?case
  proof (cases "groupid r")
    case None
    show ?thesis
      by (rule go [OF step_ungrouped [OF Cons.prems(1) None]])
        (use Cons.prems(2) None in \<open>auto simp: groups_Cons is_terminal_def split: if_splits\<close>)
  next
    case (Some g)
    consider "tx_kind r = WriteCommit" | "tx_kind r = WriteAbort" | "\<not> is_terminal r"
      by (auto simp: is_terminal_def)
    then show ?thesis
    proof cases
      case 1
      then have g: "g \<notin> cold_aborted s" using Cons.prems(2) Some by (auto simp: groups_Cons)
      show ?thesis
        by (rule go [OF step_commit [OF Cons.prems(1) 1 Some g]])
          (use Cons.prems(2) Some 1 g in \<open>auto simp: groups_Cons\<close>)
    next
      case 2
      then have g: "g \<notin> cold_committed s" using Cons.prems(2) Some by (auto simp: groups_Cons)
      show ?thesis
        by (rule go [OF step_abort [OF Cons.prems(1) 2 Some g]])
          (use Cons.prems(2) Some 2 g in \<open>auto simp: groups_Cons\<close>)
    next
      case 3
      then have t: "tx_kind r \<noteq> WriteCommit" "tx_kind r \<noteq> WriteAbort" by (auto simp: is_terminal_def)
      consider "g \<in> cold_aborted s" | "g \<notin> cold_aborted s" "g \<in> cold_committed s"
        | "g \<notin> cold_aborted s" "g \<notin> cold_committed s" by blast
      then show ?thesis
        by cases (rule go, rule step_grouped [OF Cons.prems(1) Some 3];
            use Cons.prems(2) Some t in \<open>auto simp: groups_Cons\<close>)+
    qed
  qed
qed simp

lemma visible_ungrouped: "groupid r = None \<Longrightarrow> record_visible_for_live_row_apply C A r"
  by (simp add: record_visible_for_live_row_apply_def)

lemma visible_grouped:
  "groupid r = Some g \<Longrightarrow> \<not> is_terminal r \<Longrightarrow>
   record_visible_for_live_row_apply C A r \<longleftrightarrow> g \<notin> A \<and> g \<in> C"
  by (simp add: record_visible_for_live_row_apply_def)

lemma groups_Cons_ungrouped:
  "groupid r = None \<Longrightarrow> committed_groups (r # rs) = committed_groups rs"
  "groupid r = None \<Longrightarrow> aborted_groups (r # rs) = aborted_groups rs"
  by (simp_all add: groups_Cons)

lemma set_commit_order:
  assumes "(C \<union> committed_groups rs) \<inter> (A \<union> aborted_groups rs) = {}" "\<forall>g \<in> C \<union> A. P g = []"
  shows "x \<in> set (commit_order C A P rs) \<longleftrightarrow>
     (\<exists>g \<in> committed_groups rs. x \<in> set (P g)) \<or>
     x \<in> set rs \<and> \<not> is_terminal x \<and> record_visible_for_live_row_apply (C \<union> committed_groups rs) (A \<union> aborted_groups rs) x"
  using assms
proof (induction rs arbitrary: C A P)
  case Nil
  then show ?case by (simp add: committed_groups_def List.map_filter_simps)
next
  case (Cons r rs)
  show ?case
  proof (cases "groupid r")
    case None
    have "x \<in> set (commit_order C A P rs) \<longleftrightarrow>
        (\<exists>g' \<in> committed_groups rs. x \<in> set (P g')) \<or>
        x \<in> set rs \<and> \<not> is_terminal x \<and>
        record_visible_for_live_row_apply (C \<union> committed_groups rs) (A \<union> aborted_groups rs) x"
      using Cons.prems None by (intro Cons.IH) (simp_all add: groups_Cons_ungrouped)
    with None show ?thesis
      by (auto simp: groups_Cons_ungrouped visible_ungrouped is_terminal_def)
  next
    case (Some g)
    consider "tx_kind r = WriteCommit" | "tx_kind r = WriteAbort" | "\<not> is_terminal r"
      by (auto simp: is_terminal_def)
    then show ?thesis
    proof cases
      case 1
      have "g \<notin> A" using Cons.prems(1) Some 1 by (auto simp: groups_Cons)
      moreover have "x \<in> set (commit_order (insert g C) A (P(g := [])) rs) \<longleftrightarrow>
          (\<exists>g' \<in> committed_groups rs. x \<in> set ((P(g := [])) g')) \<or>
          x \<in> set rs \<and> \<not> is_terminal x \<and>
          record_visible_for_live_row_apply (insert g C \<union> committed_groups rs) (A \<union> aborted_groups rs) x"
        using Cons.prems Some 1 by (intro Cons.IH) (auto simp: groups_Cons)
      ultimately show ?thesis using Some 1 by (auto simp: groups_Cons is_terminal_def split: if_splits)
    next
      case 2
      have "g \<notin> committed_groups rs" using Cons.prems(1) Some 2 by (auto simp: groups_Cons)
      moreover have "x \<in> set (commit_order C (insert g A) (P(g := [])) rs) \<longleftrightarrow>
          (\<exists>g' \<in> committed_groups rs. x \<in> set ((P(g := [])) g')) \<or>
          x \<in> set rs \<and> \<not> is_terminal x \<and>
          record_visible_for_live_row_apply (C \<union> committed_groups rs) (insert g A \<union> aborted_groups rs) x"
        using Cons.prems Some 2 by (intro Cons.IH) (auto simp: groups_Cons)
      ultimately show ?thesis using Some 2 by (auto simp: groups_Cons is_terminal_def split: if_splits)
    next
      case 3
      then have t: "tx_kind r \<noteq> WriteCommit" "tx_kind r \<noteq> WriteAbort" by (auto simp: is_terminal_def)
      show ?thesis
      proof (cases "g \<in> A \<or> g \<in> C")
        case True
        have "x \<in> set (commit_order C A P rs) \<longleftrightarrow>
            (\<exists>g' \<in> committed_groups rs. x \<in> set (P g')) \<or>
            x \<in> set rs \<and> \<not> is_terminal x \<and>
            record_visible_for_live_row_apply (C \<union> committed_groups rs) (A \<union> aborted_groups rs) x"
          using Cons.prems t by (intro Cons.IH) (simp_all add: groups_Cons)
        moreover have "g \<in> C \<Longrightarrow> g \<notin> A \<and> g \<notin> aborted_groups rs" using Cons.prems(1) t by (auto simp: groups_Cons)
        ultimately show ?thesis using True Some t 3
          by (auto simp: groups_Cons visible_grouped)
      next
        case False
        have "x \<in> set (commit_order C A (P(g := P g @ [r])) rs) \<longleftrightarrow>
          (\<exists>g' \<in> committed_groups rs. x \<in> set ((P(g := P g @ [r])) g')) \<or>
          x \<in> set rs \<and> \<not> is_terminal x \<and>
          record_visible_for_live_row_apply (C \<union> committed_groups rs) (A \<union> aborted_groups rs) x"
          using Cons.prems Some False t by (intro Cons.IH) (auto simp: groups_Cons)
        moreover have "g \<in> committed_groups rs \<longrightarrow> g \<notin> aborted_groups rs"
          using Cons.prems(1) t by (auto simp: groups_Cons)
        ultimately show ?thesis using Some False t 3
          by (auto simp: groups_Cons visible_grouped split: if_splits)
      qed
    qed
  qed
qed

text \<open>The single pass applies no record twice.\<close>

definition row_ids :: "entries \<Rightarrow> u64 set" where
  "row_ids rs = set (map tx_id (filter is_row_kind rs))"

lemma row_ids_simps [simp]:
  "row_ids [] = {}" "row_ids (r # rs) = (if is_row_kind r then insert (tx_id r) (row_ids rs) else row_ids rs)"
  "row_ids (xs @ ys) = row_ids xs \<union> row_ids ys"
  by (auto simp: row_ids_def)

lemma distinct_row_ids_simps [simp]:
  "distinct_row_ids []"
  "distinct_row_ids (r # rs) \<longleftrightarrow> (is_row_kind r \<longrightarrow> tx_id r \<notin> row_ids rs) \<and> distinct_row_ids rs"
  "distinct_row_ids (xs @ ys) \<longleftrightarrow> distinct_row_ids xs \<and> distinct_row_ids ys \<and> row_ids xs \<inter> row_ids ys = {}"
  by (auto simp: distinct_row_ids_def row_ids_def)

definition staged_apart :: "(u64 \<Rightarrow> entries) \<Rightarrow> entries \<Rightarrow> bool" where
  "staged_apart P rs \<longleftrightarrow>
     distinct_row_ids rs \<and> (\<forall>g. distinct_row_ids (P g) \<and> row_ids (P g) \<inter> row_ids rs = {}) \<and>
     (\<forall>g g'. g \<noteq> g' \<longrightarrow> row_ids (P g) \<inter> row_ids (P g') = {})"

lemma staged_apart_drop: "staged_apart P (r # rs) \<Longrightarrow> staged_apart P rs"
  by (auto simp: staged_apart_def split: if_splits)

lemma staged_apart_clear: "staged_apart P rs \<Longrightarrow> staged_apart (P(g := [])) rs"
  by (auto simp: staged_apart_def)

lemma staged_apart_stage: "staged_apart P (r # rs) \<Longrightarrow> staged_apart (P(g := P g @ [r])) rs"
  by (auto simp: staged_apart_def split: if_splits)

lemma commit_order_mem:
  "x \<in> set (commit_order C A P rs) \<Longrightarrow> x \<in> set rs \<or> (\<exists>g. x \<in> set (P g))"
proof (induction rs arbitrary: C A P)
  case (Cons r rs)
  have clear: "\<exists>g'. x \<in> set ((P(g := [])) g') \<Longrightarrow> \<exists>g'. x \<in> set (P g')" for g by (auto split: if_splits)
  have stage: "\<exists>g'. x \<in> set ((P(g := P g @ [r])) g') \<Longrightarrow> x = r \<or> (\<exists>g'. x \<in> set (P g'))" for g
    by (auto split: if_splits)
  show ?case
  proof (cases "groupid r")
    case None
    with Cons.prems Cons.IH [of C A P] show ?thesis by (auto split: if_splits)
  next
    case (Some g)
    with Cons.prems consider "x \<in> set (P g)" | "x \<in> set (commit_order (insert g C) A (P(g := [])) rs)"
      | "x \<in> set (commit_order C (insert g A) (P(g := [])) rs)" | "x \<in> set (commit_order C A P rs)" | "x = r"
      | "x \<in> set (commit_order C A (P(g := P g @ [r])) rs)"
      by (auto split: if_splits)
    then show ?thesis
    proof cases
      case 1
      then show ?thesis by blast
    next
      case 2
      with Cons.IH [OF 2] clear [of g] show ?thesis by auto
    next
      case 3
      with Cons.IH [OF 3] clear [of g] show ?thesis by auto
    next
      case 4
      with Cons.IH [OF 4] show ?thesis by auto
    next
      case 5
      then show ?thesis by simp
    next
      case 6
      with Cons.IH [OF 6] stage [of g] show ?thesis by auto
    qed
  qed
qed simp

lemma commit_order_row_ids:
  "row_ids (commit_order C A P rs) \<subseteq> row_ids rs \<union> (\<Union>g. row_ids (P g))"
  by (auto simp: row_ids_def dest!: commit_order_mem)

lemma commit_order_distinct:
  "staged_apart P rs \<Longrightarrow> distinct_row_ids (commit_order C A P rs)"
proof (induction rs arbitrary: C A P)
  case (Cons r rs)
  note d = staged_apart_drop [OF Cons.prems]
  have now: "is_row_kind r \<Longrightarrow> tx_id r \<notin> row_ids (commit_order C A P rs)" for C A
    using commit_order_row_ids [of C A P rs] Cons.prems by (auto simp: staged_apart_def)
  have later: "row_ids (P g) \<inter> row_ids (commit_order C A (P(g := [])) rs) = {}" for g C A
  proof -
    have "row_ids (P g) \<inter> (row_ids rs \<union> (\<Union>g'. row_ids ((P(g := [])) g'))) = {}"
      using d unfolding staged_apart_def by (auto split: if_splits) blast
    then show ?thesis using commit_order_row_ids [of C A "P(g := [])" rs] by blast
  qed
  have P: "distinct_row_ids (P g)" for g using d by (simp add: staged_apart_def)
  have clear: "distinct_row_ids (commit_order C A (P(g := [])) rs)" for C A g
    by (rule Cons.IH [OF staged_apart_clear [OF d]])
  have stage: "distinct_row_ids (commit_order C A (P(g := P g @ [r])) rs)" for C A g
    by (rule Cons.IH [OF staged_apart_stage [OF Cons.prems]])
  show ?case using now later P clear stage Cons.IH [OF d] by (cases "groupid r") simp_all
qed simp

text \<open>A delete record comes behind the row it refers to.\<close>

fun deletes_follow :: "entries \<Rightarrow> bool" where
  "deletes_follow [] = True"
| "deletes_follow (r # rs) =
     ((tx_kind r = Delete \<longrightarrow> (\<forall>q \<in> set rs. is_row_kind q \<longrightarrow> refid r \<noteq> Some (tx_id q))) \<and> deletes_follow rs)"

lemma set_live_spec:
  "deletes_follow rs \<Longrightarrow>
   set (live_spec dec C A rs) =
     {(tx_id r, row) | r row. r \<in> set rs \<and> decode_visible dec C A r = Some row \<and> tx_id r \<notin> deleted_refs C A rs}"
proof (induction rs)
  case (Cons r rs)
  then have IH: "set (live_spec dec C A rs) =
     {(tx_id r, row) | r row. r \<in> set rs \<and> decode_visible dec C A r = Some row \<and> tx_id r \<notin> deleted_refs C A rs}"
    by simp
  have "tx_id q \<in> deleted_refs C A (r # rs) \<longleftrightarrow> tx_id q \<in> deleted_refs C A rs"
    if "q \<in> set rs" "decode_visible dec C A q = Some row" for q row
    using Cons.prems that decode_visible_Some [OF that(2)] by (auto simp: deleted_refs_Cons)
  moreover have "deleted_refs C A (r # rs) = deleted_refs C A rs" if "decode_visible dec C A r = Some row" for row
    using decode_visible_Some [OF that] by (auto simp: deleted_refs_Cons is_row_kind_def)
  ultimately show ?case using IH by (auto split: option.splits)
qed simp

lemma live_spec_distinct_keys:
  "distinct (decoded_ids dec C A rs) \<Longrightarrow> distinct (map fst (live_spec dec C A rs))"
proof (induction rs)
  case (Cons r rs)
  then have "distinct (map fst (live_spec dec C A rs))" by (auto simp: decoded_ids_def split: if_splits)
  moreover have "tx_id r \<notin> fst ` set (live_spec dec C A rs)" if "decode_visible dec C A r \<noteq> None"
    using that Cons.prems live_spec_keys [of dec C A rs] by (auto simp: decoded_ids_def)
  ultimately show ?case by (auto split: option.split)
qed simp

lemma cold_rows_spec:
  assumes "distinct_row_ids rs" "committed_groups rs \<inter> aborted_groups rs = {}"
  shows "snd (equality_scan_cold R schema filters rs) =
     live_spec (filtered_decoder R schema filters) UNIV {} (commit_order {} {} (\<lambda>g. []) rs)"
proof -
  let ?dec = "filtered_decoder R schema filters" let ?ev = "commit_order {} {} (\<lambda>g. []) rs"
  have "applied_ok cold_init" "rows_of cold_init = scan_init"
    by (simp_all add: applied_ok_def cold_init_def rows_of_def scan_init_def)
  then have "rows_of (cold_scan ?dec rs) = foldl (apply_record ?dec UNIV {}) scan_init ?ev"
    using cold_scan_order [of cold_init rs ?dec] assms(2) by (simp add: cold_scan_def) (simp add: cold_init_def)
  moreover have "distinct_row_ids ?ev"
    using assms(1) by (intro commit_order_distinct) (simp add: staged_apart_def)
  ultimately have "finish_scan (rows_of (cold_scan ?dec rs)) = live_spec ?dec UNIV {} ?ev"
    by (simp add: finish_scan_spec distinct_decoded_ids)
  then show ?thesis by (simp add: equality_scan_cold_def finish_scan_def rows_of_def Let_def)
qed

lemma loaded_rows_spec:
  assumes "distinct_row_ids rs"
  shows "equality_scan_loaded R schema filters threads rs =
     live_spec (filtered_decoder R schema filters) (committed_groups rs) (aborted_groups rs) rs"
  using finish_scan_spec [OF distinct_decoded_ids [OF assms]]
  by (simp add: equality_scan_loaded_def apply_parallel_eq matching_decoder_eq apply_sequential_def)

text \<open>
  C5. The filtered scan of a cold stream finds the rows of the loaded scan.  Reading the file once and
  applying each group when its commit record is met returns the same rows, and as many, as two
  passes over the loaded records, when row identifiers are unique, no group is both committed and
  aborted, and a delete record neither precedes nor is committed before the row it deletes.
\<close>

theorem cold_scan_eq_loaded_scan:
  assumes "distinct_row_ids rs" "committed_groups rs \<inter> aborted_groups rs = {}"
    and "deletes_follow rs" "deletes_follow (commit_order {} {} (\<lambda>g. []) rs)"
  shows "set (snd (equality_scan_cold R schema filters rs)) = set (equality_scan_loaded R schema filters threads rs)
       \<and> length (snd (equality_scan_cold R schema filters rs)) = length (equality_scan_loaded R schema filters threads rs)"
proof -
  let ?dec = "filtered_decoder R schema filters" let ?ev = "commit_order {} {} (\<lambda>g. []) rs"
  let ?C = "committed_groups rs" let ?A = "aborted_groups rs"
  have ev: "r \<in> set ?ev \<longleftrightarrow> r \<in> set rs \<and> \<not> is_terminal r \<and> record_visible_for_live_row_apply ?C ?A r" for r
    using set_commit_order [of "{}" rs "{}" "\<lambda>g. []" r] assms(2) by simp
  have dv: "decode_visible ?dec UNIV {} r = decode_visible ?dec ?C ?A r" if "r \<in> set ?ev" for r
    using that ev by (simp add: decode_visible_def)
  have dv': "decode_visible ?dec ?C ?A r = Some row \<Longrightarrow> r \<in> set rs \<Longrightarrow> r \<in> set ?ev" for r row
    unfolding ev by (auto simp: decode_visible_def is_row_kind_def is_terminal_def split: if_splits)
  have same: "r \<in> set ?ev \<and> decode_visible ?dec UNIV {} r = Some row \<and> X \<longleftrightarrow>
      r \<in> set rs \<and> decode_visible ?dec ?C ?A r = Some row \<and> X" for r row X
    using dv dv' ev by metis
  have del: "deleted_refs UNIV {} ?ev = deleted_refs ?C ?A rs"
    unfolding set_eq_iff deleted_refs_iff Bex_def ev by (auto simp: is_terminal_def)
  have "set (live_spec ?dec UNIV {} ?ev) = set (live_spec ?dec ?C ?A rs)"
    unfolding set_live_spec [OF assms(3)] set_live_spec [OF assms(4)] del by (simp only: same)
  moreover have "distinct_row_ids ?ev"
    using assms(1) by (intro commit_order_distinct) (simp add: staged_apart_def)
  then have "distinct (live_spec ?dec UNIV {} ?ev)" "distinct (live_spec ?dec ?C ?A rs)"
    using assms(1) live_spec_distinct_keys distinct_decoded_ids distinct_map by blast+
  ultimately show ?thesis
    using assms(1,2) by (simp add: cold_rows_spec loaded_rows_spec) (metis distinct_card)
qed

section \<open>Counts\<close>

lemma count_step_dom:
  assumes "\<And>r. counts r \<longleftrightarrow> Option.bind (payload_logical r) dec \<noteq> None"
  shows "count_step counts C A (dom (live_rows s)) r = dom (live_rows (apply_record dec C A s r))"
  using assms by (auto simp: count_step_def apply_record_def put_row_def delete_row_def split: option.splits)

lemma count_scan_rows:
  assumes "distinct_row_ids rs" "\<And>r. counts r \<longleftrightarrow> Option.bind (payload_logical r) dec \<noteq> None"
  shows "count_scan counts rs = length (live_spec dec (committed_groups rs) (aborted_groups rs) rs)"
proof -
  let ?C = "committed_groups rs" let ?A = "aborted_groups rs"
  have d: "distinct (decoded_ids dec ?C ?A rs)" using assms(1) by (rule distinct_decoded_ids)
  have fold: "foldl (count_step counts C A) (dom (live_rows s)) xs = dom (live_rows (foldl (apply_record dec C A) s xs))" for s C A xs
    by (induction xs arbitrary: s) (simp_all add: count_step_dom [OF assms(2)])
  have "live_rows (foldl (apply_record dec ?C ?A) scan_init rs) = map_of (live_spec dec ?C ?A rs)"
    using apply_records_live [OF d, of scan_init] by (auto simp: scan_init_def split: option.splits)
  then have "foldl (count_step counts ?C ?A) {} rs = fst ` set (live_spec dec ?C ?A rs)"
    using fold [of ?C ?A scan_init rs] by (simp add: scan_init_def dom_map_of_conv_image_fst)
  then have "count_scan counts rs = card (set (map fst (live_spec dec ?C ?A rs)))"
    by (simp add: count_scan_def)
  then show ?thesis using live_spec_distinct_keys [OF d] distinct_card by fastforce
qed

lemma live_spec_filter:
  "live_spec (\<lambda>p. Option.bind (dec p) (\<lambda>row. if Q row then Some row else None)) C A rs =
     filter (\<lambda>x. Q (snd x)) (live_spec dec C A rs)"
proof (induction rs)
  case (Cons r rs)
  have "decode_visible (\<lambda>p. Option.bind (dec p) (\<lambda>row. if Q row then Some row else None)) C A r =
        Option.bind (decode_visible dec C A r) (\<lambda>row. if Q row then Some row else None)"
    by (cases "payload_logical r") (auto simp: decode_visible_def)
  with Cons show ?case by (cases "decode_visible dec C A r") auto
qed simp

lemma cmp_refl [simp]: "cmp a a = Equal"
  by (simp add: cmp_def)

lemma cmp_bytes_refl [simp]: "cmp_bytes a a = Equal"
  by (induction a) auto

lemma compare_refl: "compare_stored_field_values V a a = Equal"
proof -
  have "compare_mixed_numeric_values x x = Equal" for x
    by (cases x) (simp_all add: f64_partial_cmp_def)
  then have "compare_numeric_values x x = Equal" for x
    by (cases x) (simp_all add: compare_numeric_values_def)
  then show ?thesis by (auto simp: compare_stored_field_values_def split: option.split)
qed

definition same_bytes :: "(ustr \<times> bytes) list \<Rightarrow> row_map \<Rightarrow> bool" where
  "same_bytes filters row = (case filters of [(name, lookup_value)] \<Rightarrow> row name = Some lookup_value | _ \<Rightarrow> True)"

lemma filtered_decoder_eq:
  "filtered_decoder R schema filters p =
     Option.bind (ok (decode_row R schema p))
       (\<lambda>row. if row_matches_equality_filters (value_fns R) filters row then Some row else None)"
proof (cases "\<exists>name v. filters = [(name, v)]")
  case True
  then obtain name v where "filters = [(name, v)]" by blast
  then show ?thesis
    by (cases "decode_row R schema p")
      (auto simp: filtered_decoder_def decode_row_payload_if_field_equals_eq row_matches_equality_filters_def
        equals_lookup_def split: option.split)
next
  case False
  then show ?thesis by (cases filters; cases "tl filters") (auto simp: filtered_decoder_def)
qed

lemma count_decoder_eq:
  "count_decoder R schema filters p \<longleftrightarrow>
     Option.bind (filtered_decoder R schema filters p) (\<lambda>row. if same_bytes filters row then Some row else None) \<noteq> None"
proof (cases "\<exists>name v. filters = [(name, v)]")
  case True
  then obtain name v where f: "filters = [(name, v)]" by blast
  show ?thesis
  proof (cases "decode_row R schema p")
    case (Inr row)
    then show ?thesis
      by (cases "row name")
        (auto simp: f count_decoder_def filtered_decoder_eq decode_row_field_value_eq same_bytes_def
          row_matches_equality_filters_def compare_refl)
  qed (simp add: f count_decoder_def filtered_decoder_eq decode_row_field_value_eq)
next
  case False
  then have "count_decoder R schema filters p \<longleftrightarrow>
      (case decode_row R schema p of Inr row \<Rightarrow> row_matches_equality_filters (value_fns R) filters row | Inl _ \<Rightarrow> False)"
    "same_bytes filters = (\<lambda>row. True)"
    by (cases filters; cases "tl filters";
        auto simp: count_decoder_def decode_row_payload_with_schema_cache_def decode_row_def same_bytes_def)+
  then show ?thesis by (cases "decode_row R schema p") (simp_all add: filtered_decoder_eq)
qed

text \<open>
  C35. What the count of a filtered scan counts: with one filter, among the rows that the scan returns
  only those that hold the very bytes looked for; with several filters all of them.  A number that
  an older release stored as text is found by the scan and missed by the count.
\<close>

theorem equality_count_exact:
  assumes "distinct_row_ids rs"
  shows "equality_count_loaded R schema filters rs =
         length (filter (\<lambda>x. same_bytes filters (snd x)) (equality_scan_loaded R schema filters threads rs))"
proof -
  let ?dec = "\<lambda>p. Option.bind (filtered_decoder R schema filters p) (\<lambda>row. if same_bytes filters row then Some row else None)"
  have "(case payload_logical r of None \<Rightarrow> False | Some payload \<Rightarrow> count_decoder R schema filters payload) \<longleftrightarrow>
        Option.bind (payload_logical r) ?dec \<noteq> None" for r
    using count_decoder_eq [of R schema filters] by (cases "payload_logical r") simp_all
  from count_scan_rows [OF assms this] show ?thesis
    by (simp add: equality_count_loaded_def live_spec_filter loaded_rows_spec [OF assms])
qed

section \<open>The concrete log again\<close>

lemma demo_log_cold:
  "committed_groups demo_log \<inter> aborted_groups demo_log = {}" "deletes_follow demo_log"
  "deletes_follow (commit_order {} {} (\<lambda>g. []) demo_log)"
  by (simp_all add: demo_log_simps committed_groups_def aborted_groups_def List.map_filter_simps)

theorem cold_scan_eq_loaded_scan_witness:
  "set (snd (equality_scan_cold demo_row_env demo_schema [(lit ''name'', [65])] demo_log)) =
     set (equality_scan_loaded demo_row_env demo_schema [(lit ''name'', [65])] 4 demo_log)"
  using cold_scan_eq_loaded_scan [OF demo_log_ok(1) demo_log_cold] by blast

theorem equality_count_exact_witness:
  "equality_count_loaded demo_row_env demo_schema [(lit ''name'', [65])] demo_log =
     length (filter (\<lambda>x. same_bytes [(lit ''name'', [65])] (snd x))
       (equality_scan_loaded demo_row_env demo_schema [(lit ''name'', [65])] 4 demo_log))"
  by (rule equality_count_exact [OF demo_log_ok(1)])

end
