(* ===== verification/Coordinator.thy ===== *)
theory Coordinator
  imports Strings_Util
begin

text \<open>
  \<open>server/src/core/transaction_coordinator.rs\<close>: the coordinator thread that stages the queries of
  explicit transactions and owns the table locks of sessions and of remote owners. The loop takes one
  command at a time from its channel, so a command is one step. What the SQL parser makes of a query,
  the statements with operation and object name, is a parameter.
\<close>

section \<open>Commands and state\<close>

record DataQuery =
  dq_database_id :: ustr
  dq_sql :: ustr

datatype SqlOperation =
    OpSelect | OpExportDatabase | OpUnionQuery | OpInsert | OpUpdate | OpDelete | OpTruncateTable
  | OpCreateDatabase | OpCreateTable | OpCreateView | OpCreateOlapView | OpCreateTrigger
  | OpCreateStoredProcedure | OpCallStoredProcedure | OpCreateOther | OpDropDatabase | OpDropTable
  | OpDropView | OpDropTrigger | OpDropStoredProcedure | OpDropOther | OpAlterTable | OpAlterView
  | OpAlterOther | OpShowSlices

type_synonym sql_parser = "ustr \<Rightarrow> ustr \<Rightarrow> (SqlOperation \<times> ustr option) list option"

datatype QueryRoutingDecision = ExecuteImmediately | Staged | Rejected err

datatype CoordinatorCommand =
    Begin ustr
  | BeginWithTableLocks ustr "ustr list"
  | IsActive ustr
  | RouteQuery ustr DataQuery bool
  | Stage ustr DataQuery
  | GetStaged ustr
  | TakeForCommit ustr
  | RestoreAfterFailedCommit ustr "DataQuery list"
  | FinalizeCommit ustr
  | ApplyRemoteLocks ustr "ustr list"
  | ReleaseRemoteLocks ustr "ustr list"
  | Rollback ustr

datatype CoordinatorReply =
    ReplyResult "unit result"
  | ReplyBool bool
  | ReplyDecision "QueryRoutingDecision result"
  | ReplyQueries "DataQuery list result"
  | ReplyDone

record coordinator_state =
  staged_by_session :: "ustr \<rightharpoonup> DataQuery list"
  table_locks_by_table :: "ustr \<rightharpoonup> ustr"
  locked_tables_by_session :: "ustr \<rightharpoonup> ustr set"

definition coordinator_init :: coordinator_state where
  "coordinator_init = \<lparr>staged_by_session = Map.empty, table_locks_by_table = Map.empty,
     locked_tables_by_session = Map.empty\<rparr>"

section \<open>The loop\<close>

fun push_unique :: "ustr list \<Rightarrow> ustr list \<Rightarrow> ustr list" where
  "push_unique normalized [] = normalized"
| "push_unique normalized (table_id # rest) =
     (let n = normalize_identifier table_id
      in if n = [] then push_unique normalized rest
         else if n \<in> set normalized then push_unique normalized rest
         else push_unique (normalized @ [n]) rest)"

definition normalize_unique_table_ids :: "ustr list \<Rightarrow> ustr list" where
  "normalize_unique_table_ids table_ids = push_unique [] table_ids"

definition dml_table_ids_for_query :: "sql_parser \<Rightarrow> DataQuery \<Rightarrow> ustr list" where
  "dml_table_ids_for_query parse q =
     (case parse (dq_sql q) (dq_database_id q) of
        None \<Rightarrow> []
      | Some statements \<Rightarrow>
          normalize_unique_table_ids
            (List.map_filter (\<lambda>(op, object_name).
               if op \<in> {OpInsert, OpUpdate, OpDelete} then object_name else None) statements))"

definition locked_by_other :: "coordinator_state \<Rightarrow> ustr \<Rightarrow> ustr \<Rightarrow> bool" where
  "locked_by_other s owner table_id =
     (case table_locks_by_table s table_id of None \<Rightarrow> False | Some o' \<Rightarrow> o' \<noteq> owner)"

definition release_session_locks :: "ustr \<Rightarrow> coordinator_state \<Rightarrow> coordinator_state" where
  "release_session_locks owner s =
     (case locked_tables_by_session s owner of
        None \<Rightarrow> s
      | Some locked \<Rightarrow>
          s\<lparr>locked_tables_by_session := (locked_tables_by_session s)(owner := None),
            table_locks_by_table := (\<lambda>t. if t \<in> locked \<and> table_locks_by_table s t = Some owner then None
                                         else table_locks_by_table s t)\<rparr>)"

text \<open>\<open>entry(owner).or_default()\<close> and the insertions into the two maps.\<close>

definition owned_tables :: "coordinator_state \<Rightarrow> ustr \<Rightarrow> ustr set" where
  "owned_tables s owner = (case locked_tables_by_session s owner of None \<Rightarrow> {} | Some ts \<Rightarrow> ts)"

definition grant_locks :: "ustr \<Rightarrow> ustr list \<Rightarrow> coordinator_state \<Rightarrow> coordinator_state" where
  "grant_locks owner tables s =
     s\<lparr>table_locks_by_table := (\<lambda>t. if t \<in> set tables then Some owner else table_locks_by_table s t),
       locked_tables_by_session := (locked_tables_by_session s)(owner \<mapsto> owned_tables s owner \<union> set tables)\<rparr>"

text \<open>One definition per command. Each returns what is sent on the reply channel of its command.\<close>

definition handle_begin :: "ustr \<Rightarrow> coordinator_state \<Rightarrow> unit result \<times> coordinator_state" where
  "handle_begin session_id s =
     (if session_id \<in> dom (staged_by_session s)
      then (Err ''transaction already active for this session'', s)
      else (Ok (), s\<lparr>staged_by_session := (staged_by_session s)(session_id \<mapsto> [])\<rparr>))"

definition handle_begin_with_table_locks ::
    "ustr \<Rightarrow> ustr list \<Rightarrow> coordinator_state \<Rightarrow> unit result \<times> coordinator_state" where
  "handle_begin_with_table_locks session_id table_ids s =
     (if session_id \<in> dom (staged_by_session s)
      then (Err ''transaction already active for this session'', s)
      else let tables = normalize_unique_table_ids table_ids
           in if tables = [] then (Err ''lock tables requires at least one table name'', s)
              else if list_ex (locked_by_other s session_id) tables
              then (Err ''one or more requested tables are locked by another session'', s)
              else let s1 = grant_locks session_id tables s
                   in (Ok (), s1\<lparr>staged_by_session := (staged_by_session s1)(session_id \<mapsto> [])\<rparr>))"

definition handle_is_active :: "ustr \<Rightarrow> coordinator_state \<Rightarrow> bool \<times> coordinator_state" where
  "handle_is_active session_id s = (session_id \<in> dom (staged_by_session s), s)"

definition handle_route_query ::
    "sql_parser \<Rightarrow> ustr \<Rightarrow> DataQuery \<Rightarrow> bool \<Rightarrow> coordinator_state \<Rightarrow>
     QueryRoutingDecision result \<times> coordinator_state" where
  "handle_route_query parse session_id q can_stage s =
     (if list_ex (locked_by_other s session_id) (dml_table_ids_for_query parse q)
      then (Ok (Rejected ''table is locked by another session''), s)
      else case staged_by_session s session_id of
             Some staged \<Rightarrow>
               if \<not> can_stage
               then (Ok (Rejected
                 ''only single-statement insert/update/delete queries are allowed inside explicit transactions''), s)
               else (Ok Staged, s\<lparr>staged_by_session := (staged_by_session s)(session_id \<mapsto> staged @ [q])\<rparr>)
           | None \<Rightarrow> (Ok ExecuteImmediately, s))"

definition handle_stage :: "ustr \<Rightarrow> DataQuery \<Rightarrow> coordinator_state \<Rightarrow> unit result \<times> coordinator_state" where
  "handle_stage session_id q s =
     (case staged_by_session s session_id of
        None \<Rightarrow> (Err ''no active transaction for this session'', s)
      | Some staged \<Rightarrow>
          (Ok (), s\<lparr>staged_by_session := (staged_by_session s)(session_id \<mapsto> staged @ [q])\<rparr>))"

definition handle_get_staged :: "ustr \<Rightarrow> coordinator_state \<Rightarrow> DataQuery list result \<times> coordinator_state" where
  "handle_get_staged session_id s =
     (case staged_by_session s session_id of
        None \<Rightarrow> (Err ''no active transaction for this session'', s)
      | Some staged \<Rightarrow> (Ok staged, s))"

definition handle_take_for_commit ::
    "ustr \<Rightarrow> coordinator_state \<Rightarrow> DataQuery list result \<times> coordinator_state" where
  "handle_take_for_commit session_id s =
     (case staged_by_session s session_id of
        None \<Rightarrow> (Err ''no active transaction for this session'', s)
      | Some staged \<Rightarrow> (Ok staged, s\<lparr>staged_by_session := (staged_by_session s)(session_id := None)\<rparr>))"

definition handle_restore_after_failed_commit ::
    "ustr \<Rightarrow> DataQuery list \<Rightarrow> coordinator_state \<Rightarrow> unit result \<times> coordinator_state" where
  "handle_restore_after_failed_commit session_id staged s =
     (if session_id \<in> dom (staged_by_session s)
      then (Err ''transaction already active for this session'', s)
      else (Ok (), s\<lparr>staged_by_session := (staged_by_session s)(session_id \<mapsto> staged)\<rparr>))"

definition handle_rollback :: "ustr \<Rightarrow> coordinator_state \<Rightarrow> bool \<times> coordinator_state" where
  "handle_rollback session_id s =
     (session_id \<in> dom (staged_by_session s),
      release_session_locks session_id
        (s\<lparr>staged_by_session := (staged_by_session s)(session_id := None)\<rparr>))"

definition handle_finalize_commit :: "ustr \<Rightarrow> coordinator_state \<Rightarrow> unit result \<times> coordinator_state" where
  "handle_finalize_commit session_id s =
     (Ok (),
      release_session_locks session_id
        (s\<lparr>staged_by_session := (staged_by_session s)(session_id := None)\<rparr>))"

definition handle_apply_remote_locks :: "ustr \<Rightarrow> ustr list \<Rightarrow> coordinator_state \<Rightarrow> coordinator_state" where
  "handle_apply_remote_locks owner table_ids s =
     grant_locks owner
       (filter (\<lambda>t. \<not> locked_by_other s owner t) (normalize_unique_table_ids table_ids)) s"

definition handle_release_remote_locks :: "ustr \<Rightarrow> ustr list \<Rightarrow> coordinator_state \<Rightarrow> coordinator_state" where
  "handle_release_remote_locks owner table_ids s =
     (let tables = normalize_unique_table_ids table_ids
      in if tables = [] then release_session_locks owner s
         else case locked_tables_by_session s owner of
                None \<Rightarrow> s
              | Some locked \<Rightarrow>
                  let remaining = locked - set tables
                  in s\<lparr>table_locks_by_table :=
                         (\<lambda>t. if t \<in> set tables \<and> table_locks_by_table s t = Some owner then None
                              else table_locks_by_table s t),
                       locked_tables_by_session := (locked_tables_by_session s)
                         (owner := (if remaining = {} then None else Some remaining))\<rparr>)"

fun coordinator_step ::
    "sql_parser \<Rightarrow> coordinator_state \<Rightarrow> CoordinatorCommand \<Rightarrow> CoordinatorReply \<times> coordinator_state" where
  "coordinator_step parse s (Begin session_id) = apfst ReplyResult (handle_begin session_id s)"
| "coordinator_step parse s (BeginWithTableLocks session_id table_ids) =
     apfst ReplyResult (handle_begin_with_table_locks session_id table_ids s)"
| "coordinator_step parse s (IsActive session_id) = apfst ReplyBool (handle_is_active session_id s)"
| "coordinator_step parse s (RouteQuery session_id q can_stage) =
     apfst ReplyDecision (handle_route_query parse session_id q can_stage s)"
| "coordinator_step parse s (Stage session_id q) = apfst ReplyResult (handle_stage session_id q s)"
| "coordinator_step parse s (GetStaged session_id) = apfst ReplyQueries (handle_get_staged session_id s)"
| "coordinator_step parse s (TakeForCommit session_id) =
     apfst ReplyQueries (handle_take_for_commit session_id s)"
| "coordinator_step parse s (RestoreAfterFailedCommit session_id staged) =
     apfst ReplyResult (handle_restore_after_failed_commit session_id staged s)"
| "coordinator_step parse s (Rollback session_id) = apfst ReplyBool (handle_rollback session_id s)"
| "coordinator_step parse s (FinalizeCommit session_id) =
     apfst ReplyResult (handle_finalize_commit session_id s)"
| "coordinator_step parse s (ApplyRemoteLocks owner table_ids) =
     (ReplyDone, handle_apply_remote_locks owner table_ids s)"
| "coordinator_step parse s (ReleaseRemoteLocks owner table_ids) =
     (ReplyDone, handle_release_remote_locks owner table_ids s)"

lemmas handlers [simp] =
  handle_begin_def handle_is_active_def handle_stage_def handle_get_staged_def handle_take_for_commit_def
  handle_restore_after_failed_commit_def handle_rollback_def handle_finalize_commit_def

section \<open>The client methods\<close>

text \<open>
  The handle every session holds: \<open>None\<close> once the thread has ended, in which case the send or the
  receive on the channel fails. The reply channel has the type of the reply of its command, so a
  method meets the handler of its own command; \<open>flatten\<close> is the question mark behind \<open>recv\<close> where
  the reply is itself a result.
\<close>

type_synonym TransactionCoordinator = "coordinator_state option"

definition send_command ::
    "(coordinator_state \<Rightarrow> 'r \<times> coordinator_state) \<Rightarrow> TransactionCoordinator \<Rightarrow>
     'r result \<times> TransactionCoordinator" where
  "send_command handler tc =
     (case tc of
        None \<Rightarrow> (Err ''transaction coordinator unavailable'', None)
      | Some s \<Rightarrow> (case handler s of (reply, s') \<Rightarrow> (Ok reply, Some s')))"

definition flatten :: "'r result result \<Rightarrow> 'r result" where
  "flatten received = try_bind received (\<lambda>reply. reply)"

definition begin_transaction :: "ustr \<Rightarrow> TransactionCoordinator \<Rightarrow> unit result \<times> TransactionCoordinator" where
  "begin_transaction session_id tc = apfst flatten (send_command (handle_begin session_id) tc)"

definition begin_with_table_locks ::
    "ustr \<Rightarrow> ustr list \<Rightarrow> TransactionCoordinator \<Rightarrow> unit result \<times> TransactionCoordinator" where
  "begin_with_table_locks session_id table_ids tc =
     apfst flatten (send_command (handle_begin_with_table_locks session_id table_ids) tc)"

definition is_active :: "ustr \<Rightarrow> TransactionCoordinator \<Rightarrow> bool result \<times> TransactionCoordinator" where
  "is_active session_id tc = send_command (handle_is_active session_id) tc"

definition route_query ::
    "sql_parser \<Rightarrow> ustr \<Rightarrow> DataQuery \<Rightarrow> bool \<Rightarrow> TransactionCoordinator \<Rightarrow>
     QueryRoutingDecision result \<times> TransactionCoordinator" where
  "route_query parse session_id q can_stage tc =
     apfst flatten (send_command (handle_route_query parse session_id q can_stage) tc)"

definition stage_query ::
    "ustr \<Rightarrow> DataQuery \<Rightarrow> TransactionCoordinator \<Rightarrow> unit result \<times> TransactionCoordinator" where
  "stage_query session_id q tc = apfst flatten (send_command (handle_stage session_id q) tc)"

definition staged_queries ::
    "ustr \<Rightarrow> TransactionCoordinator \<Rightarrow> DataQuery list result \<times> TransactionCoordinator" where
  "staged_queries session_id tc = apfst flatten (send_command (handle_get_staged session_id) tc)"

definition take_for_commit ::
    "ustr \<Rightarrow> TransactionCoordinator \<Rightarrow> DataQuery list result \<times> TransactionCoordinator" where
  "take_for_commit session_id tc = apfst flatten (send_command (handle_take_for_commit session_id) tc)"

definition rollback :: "ustr \<Rightarrow> TransactionCoordinator \<Rightarrow> bool result \<times> TransactionCoordinator" where
  "rollback session_id tc = send_command (handle_rollback session_id) tc"

definition restore_after_failed_commit ::
    "ustr \<Rightarrow> DataQuery list \<Rightarrow> TransactionCoordinator \<Rightarrow> unit result \<times> TransactionCoordinator" where
  "restore_after_failed_commit session_id staged tc =
     apfst flatten (send_command (handle_restore_after_failed_commit session_id staged) tc)"

definition finalize_commit :: "ustr \<Rightarrow> TransactionCoordinator \<Rightarrow> unit result \<times> TransactionCoordinator" where
  "finalize_commit session_id tc = apfst flatten (send_command (handle_finalize_commit session_id) tc)"

definition apply_remote_table_locks ::
    "ustr \<Rightarrow> ustr list \<Rightarrow> TransactionCoordinator \<Rightarrow> TransactionCoordinator" where
  "apply_remote_table_locks owner table_ids tc =
     snd (send_command (\<lambda>s. ((), handle_apply_remote_locks owner table_ids s)) tc)"

definition release_remote_table_locks ::
    "ustr \<Rightarrow> ustr list \<Rightarrow> TransactionCoordinator \<Rightarrow> TransactionCoordinator" where
  "release_remote_table_locks owner table_ids tc =
     snd (send_command (\<lambda>s. ((), handle_release_remote_locks owner table_ids s)) tc)"

section \<open>The lock tables agree\<close>

text \<open>The two maps say the same: a table is in the set of its owner, and in no other set.\<close>

definition locks_consistent :: "coordinator_state \<Rightarrow> bool" where
  "locks_consistent s \<longleftrightarrow> (\<forall>t owner. table_locks_by_table s t = Some owner \<longleftrightarrow> t \<in> owned_tables s owner)"

lemma locks_consistentD:
  "locks_consistent s \<Longrightarrow> t \<in> owned_tables s owner \<longleftrightarrow> table_locks_by_table s t = Some owner"
  by (simp add: locks_consistent_def)

lemma owned_tables_staged [simp]: "owned_tables (s\<lparr>staged_by_session := x\<rparr>) = owned_tables s"
  by (rule ext) (simp add: owned_tables_def)

lemma locks_consistent_staged [simp]:
  "locks_consistent (s\<lparr>staged_by_session := x\<rparr>) \<longleftrightarrow> locks_consistent s"
  by (simp add: locks_consistent_def)

lemma release_session_locks_sel:
  assumes "locks_consistent s"
  shows "table_locks_by_table (release_session_locks owner s) =
      (\<lambda>t. if table_locks_by_table s t = Some owner then None else table_locks_by_table s t)"
    and "locked_tables_by_session (release_session_locks owner s) =
      (locked_tables_by_session s)(owner := None)"
proof -
  have own: "table_locks_by_table s t = Some owner \<longleftrightarrow> t \<in> owned_tables s owner" for t
    using locks_consistentD [OF assms] by simp
  show "table_locks_by_table (release_session_locks owner s) =
      (\<lambda>t. if table_locks_by_table s t = Some owner then None else table_locks_by_table s t)"
  proof (cases "locked_tables_by_session s owner")
    case None
    with own have "table_locks_by_table s t \<noteq> Some owner" for t by (simp add: owned_tables_def)
    with None show ?thesis by (simp add: release_session_locks_def)
  next
    case (Some locked)
    then have "owned_tables s owner = locked" by (simp add: owned_tables_def)
    with Some own show ?thesis by (auto simp: release_session_locks_def)
  qed
  show "locked_tables_by_session (release_session_locks owner s) = (locked_tables_by_session s)(owner := None)"
    by (auto simp: release_session_locks_def split: option.splits)
qed

lemma locks_consistent_release:
  assumes "locks_consistent s"
  shows "locks_consistent (release_session_locks owner s)"
proof -
  have "owned_tables (release_session_locks owner s) x = (if x = owner then {} else owned_tables s x)" for x
    by (simp add: owned_tables_def release_session_locks_sel [OF assms])
  with locks_consistentD [OF assms] show ?thesis
    by (auto simp: locks_consistent_def release_session_locks_sel [OF assms])
qed

lemma grant_locks_owned:
  "owned_tables (grant_locks owner tables s) x =
     (if x = owner then owned_tables s owner \<union> set tables else owned_tables s x)"
  by (simp add: grant_locks_def owned_tables_def)

lemma locks_consistent_grant:
  assumes "locks_consistent s" and "\<And>t. t \<in> set tables \<Longrightarrow> \<not> locked_by_other s owner t"
  shows "locks_consistent (grant_locks owner tables s)"
proof -
  have free: "table_locks_by_table s t = None \<or> table_locks_by_table s t = Some owner" if "t \<in> set tables" for t
    using assms(2) [OF that] by (auto simp: locked_by_other_def split: option.splits)
  have "table_locks_by_table (grant_locks owner tables s) t =
      (if t \<in> set tables then Some owner else table_locks_by_table s t)" for t
    by (simp add: grant_locks_def)
  with free locks_consistentD [OF assms(1)] show ?thesis
    by (fastforce simp: locks_consistent_def grant_locks_owned)
qed

lemma locks_consistent_release_remote:
  assumes "locks_consistent s"
  shows "locks_consistent (handle_release_remote_locks owner table_ids s)"
    and "table_locks_by_table (handle_release_remote_locks owner table_ids s) =
      (\<lambda>t. if table_locks_by_table s t = Some owner \<and>
              (normalize_unique_table_ids table_ids = [] \<or> t \<in> set (normalize_unique_table_ids table_ids))
           then None else table_locks_by_table s t)"
proof -
  let ?tables = "normalize_unique_table_ids table_ids" and ?s = "handle_release_remote_locks owner table_ids s"
  have own: "t \<in> owned_tables s x \<longleftrightarrow> table_locks_by_table s t = Some x" for t x
    using locks_consistentD [OF assms] by simp
  consider (all) "?tables = []" | (none) "?tables \<noteq> []" "locked_tables_by_session s owner = None"
    | (some) locked where "?tables \<noteq> []" "locked_tables_by_session s owner = Some locked"
    by (cases "locked_tables_by_session s owner") auto
  then have "locks_consistent ?s \<and> table_locks_by_table ?s =
      (\<lambda>t. if table_locks_by_table s t = Some owner \<and> (?tables = [] \<or> t \<in> set ?tables)
           then None else table_locks_by_table s t)"
  proof cases
    case all
    with assms show ?thesis
      by (auto simp: handle_release_remote_locks_def locks_consistent_release release_session_locks_sel)
  next
    case none
    with own [of _ owner] have "table_locks_by_table s t \<noteq> Some owner" for t by (simp add: owned_tables_def)
    with none assms show ?thesis by (simp add: handle_release_remote_locks_def)
  next
    case some
    let ?rem = "locked - set ?tables"
    have sel: "table_locks_by_table ?s = (\<lambda>t. if t \<in> set ?tables \<and> table_locks_by_table s t = Some owner
        then None else table_locks_by_table s t)"
      using some by (simp add: handle_release_remote_locks_def Let_def)
    have "owned_tables ?s x = (if x = owner then ?rem else owned_tables s x)" for x
      using some by (simp add: handle_release_remote_locks_def Let_def owned_tables_def)
    moreover have "owned_tables s owner = locked" using some by (simp add: owned_tables_def)
    ultimately have "locks_consistent ?s" using own by (auto simp: locks_consistent_def sel)
    with some show ?thesis by (auto simp: sel)
  qed
  then show "locks_consistent ?s" and "table_locks_by_table ?s =
      (\<lambda>t. if table_locks_by_table s t = Some owner \<and> (?tables = [] \<or> t \<in> set ?tables)
           then None else table_locks_by_table s t)" by simp_all
qed

lemma locks_consistent_step:
  assumes "locks_consistent s"
  shows "locks_consistent (snd (coordinator_step parse s c))"
proof (cases c)
  case (BeginWithTableLocks session_id table_ids)
  with assms show ?thesis
    by (auto simp: handle_begin_with_table_locks_def Let_def list_ex_iff intro!: locks_consistent_grant)
next
  case (RouteQuery session_id q can_stage)
  with assms show ?thesis by (auto simp: handle_route_query_def split: option.splits)
next
  case (ApplyRemoteLocks owner table_ids)
  with assms show ?thesis by (auto simp: handle_apply_remote_locks_def intro!: locks_consistent_grant)
qed (use assms in \<open>auto simp: locks_consistent_release locks_consistent_release_remote split: option.splits\<close>)

interpretation lock_machine: command_machine "\<lambda>s c. snd (coordinator_step parse s c)" coordinator_init
    locks_consistent "\<lambda>s c. True"
  for parse
  by standard
    (simp_all add: locks_consistent_step, simp add: locks_consistent_def coordinator_init_def owned_tables_def)

section \<open>Specification\<close>

text \<open>
  The contract of the coordinator: staged queries per session and one owner per table at most. No
  second bookkeeping of locks per session.
\<close>

record coordinator_spec =
  sp_staged :: "ustr \<rightharpoonup> DataQuery list"
  sp_owner :: "ustr \<rightharpoonup> ustr"

definition spec_of :: "coordinator_state \<Rightarrow> coordinator_spec" where
  "spec_of s = \<lparr>sp_staged = staged_by_session s, sp_owner = table_locks_by_table s\<rparr>"

definition spec_taken :: "coordinator_spec \<Rightarrow> ustr \<Rightarrow> ustr \<Rightarrow> bool" where
  "spec_taken a who t \<longleftrightarrow> (\<exists>x. sp_owner a t = Some x \<and> x \<noteq> who)"

definition spec_grant :: "ustr \<Rightarrow> ustr set \<Rightarrow> coordinator_spec \<Rightarrow> coordinator_spec" where
  "spec_grant who ts a = a\<lparr>sp_owner := (\<lambda>t. if t \<in> ts then Some who else sp_owner a t)\<rparr>"

definition spec_release :: "ustr \<Rightarrow> ustr set \<Rightarrow> coordinator_spec \<Rightarrow> coordinator_spec" where
  "spec_release who ts a = a\<lparr>sp_owner := (\<lambda>t. if t \<in> ts \<and> sp_owner a t = Some who then None else sp_owner a t)\<rparr>"

fun spec_step ::
    "sql_parser \<Rightarrow> coordinator_spec \<Rightarrow> CoordinatorCommand \<Rightarrow> CoordinatorReply \<times> coordinator_spec" where
  "spec_step parse a (Begin who) =
     (if sp_staged a who \<noteq> None then (ReplyResult (Err ''transaction already active for this session''), a)
      else (ReplyResult (Ok ()), a\<lparr>sp_staged := (sp_staged a)(who \<mapsto> [])\<rparr>))"
| "spec_step parse a (BeginWithTableLocks who ids) =
     (let ts = set (normalize_unique_table_ids ids)
      in if sp_staged a who \<noteq> None then (ReplyResult (Err ''transaction already active for this session''), a)
         else if ts = {} then (ReplyResult (Err ''lock tables requires at least one table name''), a)
         else if \<exists>t \<in> ts. spec_taken a who t
         then (ReplyResult (Err ''one or more requested tables are locked by another session''), a)
         else (ReplyResult (Ok ()), spec_grant who ts (a\<lparr>sp_staged := (sp_staged a)(who \<mapsto> [])\<rparr>)))"
| "spec_step parse a (IsActive who) = (ReplyBool (sp_staged a who \<noteq> None), a)"
| "spec_step parse a (RouteQuery who q can_stage) =
     (if \<exists>t \<in> set (dml_table_ids_for_query parse q). spec_taken a who t
      then (ReplyDecision (Ok (Rejected ''table is locked by another session'')), a)
      else case sp_staged a who of
             None \<Rightarrow> (ReplyDecision (Ok ExecuteImmediately), a)
           | Some qs \<Rightarrow>
               if can_stage
               then (ReplyDecision (Ok Staged), a\<lparr>sp_staged := (sp_staged a)(who \<mapsto> qs @ [q])\<rparr>)
               else (ReplyDecision (Ok (Rejected
                 ''only single-statement insert/update/delete queries are allowed inside explicit transactions'')), a))"
| "spec_step parse a (Stage who q) =
     (case sp_staged a who of
        None \<Rightarrow> (ReplyResult (Err ''no active transaction for this session''), a)
      | Some qs \<Rightarrow> (ReplyResult (Ok ()), a\<lparr>sp_staged := (sp_staged a)(who \<mapsto> qs @ [q])\<rparr>))"
| "spec_step parse a (GetStaged who) =
     (ReplyQueries (case sp_staged a who of
        None \<Rightarrow> Err ''no active transaction for this session'' | Some qs \<Rightarrow> Ok qs), a)"
| "spec_step parse a (TakeForCommit who) =
     (ReplyQueries (case sp_staged a who of
        None \<Rightarrow> Err ''no active transaction for this session'' | Some qs \<Rightarrow> Ok qs),
      a\<lparr>sp_staged := (sp_staged a)(who := None)\<rparr>)"
| "spec_step parse a (RestoreAfterFailedCommit who qs) =
     (if sp_staged a who \<noteq> None then (ReplyResult (Err ''transaction already active for this session''), a)
      else (ReplyResult (Ok ()), a\<lparr>sp_staged := (sp_staged a)(who \<mapsto> qs)\<rparr>))"
| "spec_step parse a (Rollback who) =
     (ReplyBool (sp_staged a who \<noteq> None), spec_release who UNIV (a\<lparr>sp_staged := (sp_staged a)(who := None)\<rparr>))"
| "spec_step parse a (FinalizeCommit who) =
     (ReplyResult (Ok ()), spec_release who UNIV (a\<lparr>sp_staged := (sp_staged a)(who := None)\<rparr>))"
| "spec_step parse a (ApplyRemoteLocks who ids) =
     (ReplyDone, spec_grant who {t \<in> set (normalize_unique_table_ids ids). \<not> spec_taken a who t} a)"
| "spec_step parse a (ReleaseRemoteLocks who ids) =
     (ReplyDone, spec_release who (if normalize_unique_table_ids ids = [] then UNIV
                                   else set (normalize_unique_table_ids ids)) a)"

lemma spec_of_sel [simp]:
  "sp_staged (spec_of s) = staged_by_session s" "sp_owner (spec_of s) = table_locks_by_table s"
  by (simp_all add: spec_of_def)

lemma spec_eqI: "sp_staged a = sp_staged b \<Longrightarrow> sp_owner a = sp_owner b \<Longrightarrow> (a :: coordinator_spec) = b"
  by simp

lemma spec_taken_iff [simp]: "spec_taken (spec_of s) who t \<longleftrightarrow> locked_by_other s who t"
  by (simp add: spec_taken_def locked_by_other_def split: option.splits)

lemma staged_by_session_locks [simp]:
  "staged_by_session (release_session_locks who s) = staged_by_session s"
  "staged_by_session (handle_release_remote_locks who ids s) = staged_by_session s"
  "staged_by_session (grant_locks who ts s) = staged_by_session s"
  by (auto simp: release_session_locks_def handle_release_remote_locks_def grant_locks_def Let_def
      split: option.splits)

lemma spec_refines:
  assumes "locks_consistent s"
  shows "spec_step parse (spec_of s) c = (fst (coordinator_step parse s c), spec_of (snd (coordinator_step parse s c)))"
proof (cases c)
  case (BeginWithTableLocks who ids)
  then show ?thesis
    by (auto simp: handle_begin_with_table_locks_def Let_def list_ex_iff spec_grant_def grant_locks_def
        spec_of_def domIff spec_taken_def locked_by_other_def split: option.splits)
next
  case (RouteQuery who q can_stage)
  then show ?thesis
    by (auto simp: handle_route_query_def list_ex_iff spec_of_def spec_taken_def locked_by_other_def
        split: option.splits)
next
  case (ApplyRemoteLocks who ids)
  then show ?thesis
    by (auto simp: handle_apply_remote_locks_def spec_grant_def grant_locks_def intro!: spec_eqI)
next
  case (ReleaseRemoteLocks who ids)
  with locks_consistent_release_remote(2) [OF assms, of who ids] show ?thesis
    by (auto simp: spec_release_def intro!: spec_eqI)
next
  case (Rollback who)
  then show ?thesis
    using assms by (auto simp: spec_release_def release_session_locks_sel domIff intro!: spec_eqI)
next
  case (FinalizeCommit who)
  then show ?thesis
    using assms by (auto simp: spec_release_def release_session_locks_sel intro!: spec_eqI)
qed (auto simp: spec_of_def domIff split: option.splits)

interpretation lock_refinement: functional_refinement "coordinator_step parse" "spec_step parse" spec_of
    locks_consistent "\<lambda>c. True"
  for parse
  by standard (simp_all add: locks_consistent_step spec_refines)

text \<open>
  C11. The coordinator refines its specification: whatever commands sessions and remote owners send
  from the start, in whatever order, every reply is the reply of the specification with one owner
  per table.
\<close>

theorem coordinator_refines_spec:
  "run_replies (coordinator_step parse) coordinator_init cs =
   run_replies (spec_step parse) \<lparr>sp_staged = Map.empty, sp_owner = Map.empty\<rparr> cs"
proof -
  have "spec_of coordinator_init = \<lparr>sp_staged = Map.empty, sp_owner = Map.empty\<rparr>"
    by (simp add: spec_of_def coordinator_init_def)
  then show ?thesis
    using lock_refinement.replies_refine [OF lock_machine.inv_init, of cs parse] by (simp add: list_all_iff)
qed

section \<open>Mutual exclusion\<close>

abbreviation run_coordinator :: "sql_parser \<Rightarrow> coordinator_state \<Rightarrow> CoordinatorCommand list \<Rightarrow> coordinator_state" where
  "run_coordinator parse \<equiv> foldl (\<lambda>s c. snd (coordinator_step parse s c))"

fun releases :: "ustr \<Rightarrow> CoordinatorCommand \<Rightarrow> bool" where
  "releases who (Rollback x) = (x = who)"
| "releases who (FinalizeCommit x) = (x = who)"
| "releases who (ReleaseRemoteLocks x ids) = (x = who)"
| "releases who c = False"

lemma spec_lock_kept:
  assumes "sp_owner a t = Some who" and "\<not> releases who c"
  shows "sp_owner (snd (spec_step parse a c)) t = Some who"
proof (cases c)
  case (BeginWithTableLocks x ids)
  with assms show ?thesis by (auto simp: Let_def spec_grant_def spec_taken_def)
next
  case (ApplyRemoteLocks x ids)
  with assms show ?thesis by (auto simp: spec_grant_def spec_taken_def)
next
  case (RouteQuery x q can_stage)
  with assms show ?thesis by (cases "sp_staged a x") auto
qed (use assms in \<open>auto simp: spec_release_def split: option.splits\<close>)

lemma lock_kept_step:
  assumes "locks_consistent s" and "table_locks_by_table s t = Some who" and "\<not> releases who c"
  shows "table_locks_by_table (snd (coordinator_step parse s c)) t = Some who"
  using spec_lock_kept [of "spec_of s" t who c parse] spec_refines [OF assms(1), of parse c] assms(2,3)
  by simp

lemma lock_kept_run:
  assumes "locks_consistent s" and "table_locks_by_table s t = Some who"
    and "list_all (\<lambda>c. \<not> releases who c) cs"
  shows "table_locks_by_table (run_coordinator parse s cs) t = Some who"
  using assms by (induction cs arbitrary: s) (auto simp: lock_kept_step locks_consistent_step)

lemma begin_grants:
  assumes "coordinator_step parse s (BeginWithTableLocks who ids) = (ReplyResult (Ok ()), s1)"
    and "t \<in> set (normalize_unique_table_ids ids)"
  shows "table_locks_by_table s1 t = Some who"
  using assms by (auto simp: handle_begin_with_table_locks_def Let_def grant_locks_def split: if_splits)

lemma locked_route_rejected:
  assumes "table_locks_by_table s t = Some who" and "other \<noteq> who"
    and "t \<in> set (dml_table_ids_for_query parse q)"
  shows "coordinator_step parse s (RouteQuery other q can_stage) =
           (ReplyDecision (Ok (Rejected ''table is locked by another session'')), s)"
  using assms by (auto simp: handle_route_query_def list_ex_iff locked_by_other_def)

lemma locked_begin_rejected:
  assumes "table_locks_by_table s t = Some who" and "other \<noteq> who"
    and "t \<in> set (normalize_unique_table_ids ids)"
  shows "\<exists>e. coordinator_step parse s (BeginWithTableLocks other ids) = (ReplyResult (Err e), s)"
  using assms by (auto simp: handle_begin_with_table_locks_def Let_def list_ex_iff locked_by_other_def)

lemma granted_lock_kept:
  assumes "coordinator_step parse (run_coordinator parse coordinator_init before) (BeginWithTableLocks who ids) =
             (ReplyResult (Ok ()), s1)"
    and "t \<in> set (normalize_unique_table_ids ids)"
    and "list_all (\<lambda>c. \<not> releases who c) cs"
  shows "table_locks_by_table (run_coordinator parse s1 cs) t = Some who"
proof -
  let ?s0 = "run_coordinator parse coordinator_init before"
  have "locks_consistent ?s0" by (rule lock_machine.inv_reachable) simp
  from locks_consistent_step [OF this, of parse "BeginWithTableLocks who ids"]
  have "locks_consistent s1" unfolding assms(1) by simp
  then show ?thesis by (rule lock_kept_run [OF _ begin_grants [OF assms(1,2)] assms(3)])
qed

text \<open>
  C10. A table lock keeps new writes and lock requests of other sessions out: from the moment a
  \<open>BeginWithTableLocks\<close> of session \<open>who\<close> is granted, through any commands of anybody as long as \<open>who\<close>
  neither commits, rolls back nor releases, an INSERT, UPDATE or DELETE of another session that is
  routed to one of the tables is rejected and so is another request for its lock, and neither changes
  the state of the coordinator. Writes that were staged before the lock are not covered.
\<close>

theorem table_lock_exclusive:
  assumes "coordinator_step parse (run_coordinator parse coordinator_init before) (BeginWithTableLocks who ids) =
             (ReplyResult (Ok ()), s1)"
    and "t \<in> set (normalize_unique_table_ids ids)" and "other \<noteq> who"
    and "list_all (\<lambda>c. \<not> releases who c) cs"
    and "t \<in> set (dml_table_ids_for_query parse q)"
    and "t \<in> set (normalize_unique_table_ids ids')"
  shows "coordinator_step parse (run_coordinator parse s1 cs) (RouteQuery other q can_stage) =
           (ReplyDecision (Ok (Rejected ''table is locked by another session'')), run_coordinator parse s1 cs) \<and>
         (\<exists>e. coordinator_step parse (run_coordinator parse s1 cs) (BeginWithTableLocks other ids') =
           (ReplyResult (Err e), run_coordinator parse s1 cs))"
proof -
  have "table_locks_by_table (run_coordinator parse s1 cs) t = Some who"
    by (rule granted_lock_kept [OF assms(1,2,4)])
  with locked_route_rejected locked_begin_rejected assms(3,5,6) show ?thesis by blast
qed

text \<open>
  C31. Ending a transaction frees everything of the session and nothing else: after a rollback or a
  final commit of \<open>who\<close>, in any reachable state, no table is locked by \<open>who\<close>, nothing is staged for it,
  and the locks of all others are as before.
\<close>

theorem transaction_end_releases:
  assumes "c = Rollback who \<or> c = FinalizeCommit who"
    and s: "s = run_coordinator parse coordinator_init cs"
  shows "staged_by_session (snd (coordinator_step parse s c)) who = None \<and>
         locked_tables_by_session (snd (coordinator_step parse s c)) who = None \<and>
         (\<forall>t. table_locks_by_table (snd (coordinator_step parse s c)) t =
                (if table_locks_by_table s t = Some who then None else table_locks_by_table s t))"
proof -
  have "locks_consistent s" unfolding s by (rule lock_machine.inv_reachable) simp
  with assms(1) show ?thesis by (auto simp: release_session_locks_sel)
qed

text \<open>
  A commit that fails can be undone: giving the queries taken for a commit back restores the
  coordinator exactly.
\<close>

theorem take_restore_roundtrip:
  assumes "coordinator_step parse s (TakeForCommit who) = (ReplyQueries (Ok qs), s1)"
  shows "coordinator_step parse s1 (RestoreAfterFailedCommit who qs) = (ReplyResult (Ok ()), s)"
proof -
  from assms have "staged_by_session s who = Some qs"
      and s1: "s1 = s\<lparr>staged_by_session := (staged_by_session s)(who := None)\<rparr>"
    by (auto split: option.splits)
  then have "(staged_by_session s)(who \<mapsto> qs) = staged_by_session s" by (simp add: fun_upd_idem)
  then show ?thesis by (simp add: s1)
qed

section \<open>Staging order\<close>

fun session_of :: "CoordinatorCommand \<Rightarrow> ustr option" where
  "session_of (Begin x) = Some x"
| "session_of (BeginWithTableLocks x ids) = Some x"
| "session_of (IsActive x) = Some x"
| "session_of (RouteQuery x q b) = Some x"
| "session_of (Stage x q) = Some x"
| "session_of (GetStaged x) = Some x"
| "session_of (TakeForCommit x) = Some x"
| "session_of (RestoreAfterFailedCommit x qs) = Some x"
| "session_of (FinalizeCommit x) = Some x"
| "session_of (Rollback x) = Some x"
| "session_of (ApplyRemoteLocks x ids) = None"
| "session_of (ReleaseRemoteLocks x ids) = None"

text \<open>The query a session gets acknowledged as staged, by the command and its reply.\<close>

fun accepted_query :: "ustr \<Rightarrow> CoordinatorCommand \<times> CoordinatorReply \<Rightarrow> DataQuery option" where
  "accepted_query who (Stage x q, ReplyResult (Inr u)) = (if x = who then Some q else None)"
| "accepted_query who (RouteQuery x q b, ReplyDecision (Inr Staged)) = (if x = who then Some q else None)"
| "accepted_query who c = None"

fun ends_transaction :: "ustr \<Rightarrow> CoordinatorCommand \<Rightarrow> bool" where
  "ends_transaction who (TakeForCommit x) = (x = who)"
| "ends_transaction who (Rollback x) = (x = who)"
| "ends_transaction who (FinalizeCommit x) = (x = who)"
| "ends_transaction who c = False"

lemma staged_other_step:
  assumes "session_of c \<noteq> Some who"
  shows "staged_by_session (snd (coordinator_step parse s c)) who = staged_by_session s who"
proof (cases c)
  case (BeginWithTableLocks x ids)
  with assms show ?thesis by (auto simp: handle_begin_with_table_locks_def Let_def)
next
  case (RouteQuery x q b)
  with assms show ?thesis by (auto simp: handle_route_query_def split: option.splits)
next
  case (ApplyRemoteLocks x ids)
  then show ?thesis by (simp add: handle_apply_remote_locks_def)
qed (use assms in \<open>auto split: option.splits\<close>)

lemma staged_other_run:
  assumes "list_all (\<lambda>c. session_of c \<noteq> Some who) cs"
  shows "staged_by_session (run_coordinator parse s cs) who = staged_by_session s who"
  using assms by (induction cs arbitrary: s) (simp_all add: staged_other_step)

lemma accepted_other: "session_of c \<noteq> Some who \<Longrightarrow> accepted_query who (c, r) = None"
  by (cases "(who, c, r)" rule: accepted_query.cases) auto

lemma staged_step:
  assumes "staged_by_session s who = Some qs" and "\<not> ends_transaction who c"
  shows "staged_by_session (snd (coordinator_step parse s c)) who =
    Some (qs @ (case accepted_query who (c, fst (coordinator_step parse s c)) of None \<Rightarrow> [] | Some q \<Rightarrow> [q]))"
proof (cases "session_of c = Some who")
  case True
  with assms show ?thesis
    by (cases c) (auto simp: handle_begin_with_table_locks_def handle_route_query_def)
next
  case False
  with assms staged_other_step [OF False, of parse s] accepted_other [OF False] show ?thesis by simp
qed

lemma staged_run:
  assumes "staged_by_session s who = Some qs" and "list_all (\<lambda>c. \<not> ends_transaction who c) cs"
  shows "staged_by_session (run_coordinator parse s cs) who =
    Some (qs @ List.map_filter (accepted_query who) (zip cs (run_replies (coordinator_step parse) s cs)))"
  using assms
proof (induction cs arbitrary: s qs)
  case (Cons c cs)
  obtain r s1 where step: "coordinator_step parse s c = (r, s1)" by (rule prod.exhaust)
  from staged_step [of s who qs c parse] Cons.prems
  have "staged_by_session s1 who = Some (qs @ (case accepted_query who (c, r) of None \<Rightarrow> [] | Some q \<Rightarrow> [q]))"
    by (simp add: step)
  from Cons.IH [OF this] Cons.prems show ?case
    by (cases "accepted_query who (c, r)") (simp_all add: step List.map_filter_simps)
qed (simp add: List.map_filter_simps)

text \<open>
  C25. Staged queries come back complete and in order. Let a begin of session \<open>who\<close> be granted, with or
  without table locks, and let sessions and remote owners then send any commands, except that \<open>who\<close>
  does not take its queries, roll back or finalize. The commit takes exactly the queries of \<open>who\<close> that
  were acknowledged as staged, by a \<open>Stage\<close> or by the routing of a query, in the order they were sent.
\<close>

theorem commit_takes_staged_in_order:
  assumes "c = Begin who \<or> c = BeginWithTableLocks who ids"
    and "coordinator_step parse s c = (ReplyResult (Ok ()), s1)"
    and "list_all (\<lambda>c. \<not> ends_transaction who c) cs"
  shows "fst (coordinator_step parse (run_coordinator parse s1 cs) (TakeForCommit who)) =
           ReplyQueries (Ok (List.map_filter (accepted_query who)
             (zip cs (run_replies (coordinator_step parse) s1 cs))))"
proof -
  have "staged_by_session s1 who = Some []"
    using assms(1,2) by (auto simp: handle_begin_with_table_locks_def Let_def split: if_splits)
  from staged_run [OF this assms(3), of parse] show ?thesis by simp
qed

text \<open>
  C24. A lock does not reach what is already staged: let session \<open>other\<close> have staged a write \<open>q\<close> to
  a table, and let \<open>who\<close> then be granted the lock of that table. As long as \<open>who\<close> holds it and \<open>other\<close>
  sends nothing, routing \<open>q\<close> again would be rejected, but a commit of \<open>other\<close> is still handed the
  staged queries, \<open>q\<close> among them.
\<close>

theorem staged_write_outlives_lock:
  assumes "staged_by_session (run_coordinator parse coordinator_init before) other = Some qs"
    and "q \<in> set qs" and "t \<in> set (dml_table_ids_for_query parse q)"
    and "coordinator_step parse (run_coordinator parse coordinator_init before) (BeginWithTableLocks who ids) =
           (ReplyResult (Ok ()), s1)"
    and "t \<in> set (normalize_unique_table_ids ids)"
    and "list_all (\<lambda>c. \<not> releases who c \<and> session_of c \<noteq> Some other) cs"
  shows "table_locks_by_table (run_coordinator parse s1 cs) t = Some who \<and>
         fst (coordinator_step parse (run_coordinator parse s1 cs) (RouteQuery other q can_stage)) =
           ReplyDecision (Ok (Rejected ''table is locked by another session'')) \<and>
         fst (coordinator_step parse (run_coordinator parse s1 cs) (TakeForCommit other)) = ReplyQueries (Ok qs)"
proof -
  let ?start = "run_coordinator parse coordinator_init before" and ?s = "run_coordinator parse s1 cs"
  have "staged_by_session ?start who = None"
    using assms(4) by (cases "staged_by_session ?start who") (simp_all add: handle_begin_with_table_locks_def domIff)
  with assms(1) have ne: "other \<noteq> who" by auto
  from assms(6) have cs: "list_all (\<lambda>c. \<not> releases who c) cs" "list_all (\<lambda>c. session_of c \<noteq> Some other) cs"
    by (simp_all add: list_all_iff)
  have lock: "table_locks_by_table ?s t = Some who" by (rule granted_lock_kept [OF assms(4,5) cs(1)])
  have "staged_by_session s1 other = Some qs"
    using staged_other_step [of "BeginWithTableLocks who ids" other parse ?start] ne assms(1)
    unfolding assms(4) by simp
  with staged_other_run [OF cs(2), of parse s1] have "staged_by_session ?s other = Some qs" by simp
  with lock locked_route_rejected [OF lock ne assms(3)] show ?thesis by simp
qed

section \<open>Concrete instances\<close>

definition demo_query :: DataQuery where
  "demo_query = \<lparr>dq_database_id = lit ''d'', dq_sql = lit ''x''\<rparr>"

definition demo_parser :: sql_parser where
  "demo_parser = (\<lambda>text database. Some [(OpInsert, Some (lit ''t''))])"

lemma demo_normalized: "normalize_unique_table_ids [lit ''t''] = [lit ''t'']"
proof -
  have "trim (lit ''t'') = lit ''t''" by (simp add: trim_def lit_def is_whitespace_def)
  moreover have "strip_quotes (lit ''t'') = lit ''t''"
    by (subst strip_quotes.simps) (simp add: quoted_def quoted_by_def lit_def)
  ultimately show ?thesis
    by (simp add: normalize_unique_table_ids_def normalize_identifier_def to_ascii_lowercase_def
        ascii_lower_def lit_def)
qed

lemma demo_dml: "dml_table_ids_for_query demo_parser demo_query = [lit ''t'']"
  by (simp add: dml_table_ids_for_query_def demo_parser_def demo_normalized)

theorem table_lock_exclusive_witness:
  "fst (coordinator_step demo_parser
     (run_coordinator demo_parser
        (snd (coordinator_step demo_parser coordinator_init (BeginWithTableLocks (lit ''a'') [lit ''t''])))
        [Begin (lit ''b'')])
     (RouteQuery (lit ''b'') demo_query True)) =
   ReplyDecision (Ok (Rejected ''table is locked by another session''))"
proof -
  let ?s1 = "snd (coordinator_step demo_parser coordinator_init (BeginWithTableLocks (lit ''a'') [lit ''t'']))"
  have "coordinator_step demo_parser (run_coordinator demo_parser coordinator_init [])
      (BeginWithTableLocks (lit ''a'') [lit ''t'']) = (ReplyResult (Ok ()), ?s1)"
    by (simp add: handle_begin_with_table_locks_def demo_normalized coordinator_init_def locked_by_other_def)
  note lock = table_lock_exclusive [OF this, of "lit ''t''" "lit ''b''" "[Begin (lit ''b'')]" demo_query "[lit ''t'']"]
  have "lit ''b'' \<noteq> lit ''a''" by (simp add: lit_def)
  then have "coordinator_step demo_parser (run_coordinator demo_parser ?s1 [Begin (lit ''b'')])
      (RouteQuery (lit ''b'') demo_query True) =
    (ReplyDecision (Ok (Rejected ''table is locked by another session'')),
     run_coordinator demo_parser ?s1 [Begin (lit ''b'')])"
    by (intro conjunct1 [OF lock]) (simp_all add: demo_normalized demo_dml)
  then show ?thesis by (simp only: fst_conv)
qed

theorem transaction_end_releases_witness:
  "table_locks_by_table (snd (coordinator_step demo_parser
     (run_coordinator demo_parser coordinator_init [BeginWithTableLocks (lit ''a'') [lit ''t'']])
     (Rollback (lit ''a'')))) (lit ''t'') = None"
  using transaction_end_releases [of "Rollback (lit ''a'')" "lit ''a''" _ demo_parser
      "[BeginWithTableLocks (lit ''a'') [lit ''t'']]", OF disjI1 [OF refl] refl]
  by (auto simp: handle_begin_with_table_locks_def demo_normalized coordinator_init_def locked_by_other_def
      grant_locks_def)

theorem take_restore_roundtrip_witness:
  "coordinator_step demo_parser coordinator_init (RestoreAfterFailedCommit (lit ''a'') []) =
     (ReplyResult (Ok ()), coordinator_init\<lparr>staged_by_session := [lit ''a'' \<mapsto> []]\<rparr>)"
  using take_restore_roundtrip [of demo_parser "coordinator_init\<lparr>staged_by_session := [lit ''a'' \<mapsto> []]\<rparr>"
      "lit ''a''" "[]" coordinator_init]
  by (simp add: coordinator_init_def)

theorem commit_takes_staged_in_order_witness:
  "fst (coordinator_step demo_parser (run_coordinator demo_parser
     (snd (coordinator_step demo_parser coordinator_init (BeginWithTableLocks (lit ''a'') [lit ''t''])))
     [Begin (lit ''b''), RouteQuery (lit ''b'') demo_query True, Stage (lit ''a'') demo_query,
      Begin (lit ''a''), RouteQuery (lit ''a'') demo_query True]) (TakeForCommit (lit ''a''))) =
   ReplyQueries (Ok [demo_query, demo_query])"
proof -
  let ?s1 = "snd (coordinator_step demo_parser coordinator_init (BeginWithTableLocks (lit ''a'') [lit ''t'']))"
  let ?cs = "[Begin (lit ''b''), RouteQuery (lit ''b'') demo_query True, Stage (lit ''a'') demo_query,
      Begin (lit ''a''), RouteQuery (lit ''a'') demo_query True]"
  have step: "coordinator_step demo_parser coordinator_init (BeginWithTableLocks (lit ''a'') [lit ''t'']) =
      (ReplyResult (Ok ()), ?s1)"
    by (simp add: handle_begin_with_table_locks_def demo_normalized coordinator_init_def locked_by_other_def)
  have ne: "lit ''a'' \<noteq> lit ''b''" "lit ''b'' \<noteq> lit ''a''" by (simp_all add: lit_def)
  have "List.map_filter (accepted_query (lit ''a''))
      (zip ?cs (run_replies (coordinator_step demo_parser) ?s1 ?cs)) = [demo_query, demo_query]"
    using ne by (simp add: handle_begin_with_table_locks_def handle_route_query_def demo_normalized demo_dml
        coordinator_init_def locked_by_other_def grant_locks_def owned_tables_def List.map_filter_simps)
  with commit_takes_staged_in_order [OF disjI2 [OF refl] step, of ?cs] show ?thesis by simp
qed

theorem staged_write_outlives_lock_witness:
  "fst (coordinator_step demo_parser (run_coordinator demo_parser
     (snd (coordinator_step demo_parser
        (run_coordinator demo_parser coordinator_init [Begin (lit ''b''), RouteQuery (lit ''b'') demo_query True])
        (BeginWithTableLocks (lit ''a'') [lit ''t'']))) [])
     (TakeForCommit (lit ''b''))) = ReplyQueries (Ok [demo_query])"
proof -
  let ?cs = "[Begin (lit ''b''), RouteQuery (lit ''b'') demo_query True]"
  let ?s0 = "run_coordinator demo_parser coordinator_init ?cs"
  let ?s1 = "snd (coordinator_step demo_parser ?s0 (BeginWithTableLocks (lit ''a'') [lit ''t'']))"
  have ne: "lit ''a'' \<noteq> lit ''b''" by (simp add: lit_def)
  have staged: "staged_by_session ?s0 (lit ''b'') = Some [demo_query]"
    by (simp add: handle_route_query_def demo_dml coordinator_init_def locked_by_other_def)
  have "coordinator_step demo_parser ?s0 (BeginWithTableLocks (lit ''a'') [lit ''t'']) =
      (ReplyResult (Ok ()), ?s1)"
    using ne by (simp add: handle_route_query_def demo_dml coordinator_init_def locked_by_other_def
        handle_begin_with_table_locks_def demo_normalized)
  from staged_write_outlives_lock [OF staged _ _ this, of demo_query "lit ''t''" "[]"]
  show ?thesis by (simp only: demo_dml demo_normalized) simp
qed

end
