(* ===== verification/Predicates.thy ===== *)
theory Predicates
  imports Conversion "HOL-Library.Sublist"
begin

text \<open>
  Comparison predicates of queries, \<open>serverlib/src/engine/sql/predicates.rs\<close>: the \<open>LIKE\<close> matcher with
  its fast paths, and the comparison operators.
\<close>

section \<open>Tokens and the backtracking matcher\<close>

datatype LikeToken = AnySingle | AnyMany | Literal nat

abbreviation percent :: nat where "percent \<equiv> 37"
abbreviation underscore :: nat where "underscore \<equiv> 95"

definition like_char_eq :: "nat \<Rightarrow> nat \<Rightarrow> bool \<Rightarrow> bool" where
  "like_char_eq actual pattern case_insensitive =
     (if case_insensitive then ascii_lower actual = ascii_lower pattern else actual = pattern)"

definition char_token :: "nat \<Rightarrow> LikeToken" where
  "char_token c = (if c = underscore then AnySingle else if c = percent then AnyMany else Literal c)"

fun compile_like_tokens :: "ustr \<Rightarrow> nat option \<Rightarrow> LikeToken list" where
  "compile_like_tokens [] escape_char = []"
| "compile_like_tokens (c # cs) escape_char =
     (if escape_char = Some c
      then (case cs of
              [] \<Rightarrow> [Literal c]
            | d # ds \<Rightarrow> Literal d # compile_like_tokens ds escape_char)
      else char_token c # compile_like_tokens cs escape_char)"

abbreviation percent_level :: "nat option \<Rightarrow> nat" where
  "percent_level l \<equiv> (case l of None \<Rightarrow> 0 | Some p \<Rightarrow> Suc p)"

text \<open>
  The matching loop: \<open>i\<close> is \<open>actual_index\<close>, \<open>j\<close> is \<open>pattern_index\<close>.  It is written once over a
  function that reads a pattern element as a token, since \<open>TPHashSet\<close> runs the same loop on characters.

  Termination: a new percent sign moves \<open>last_percent_index\<close> on, a restart moves \<open>retry_index\<close> on, and
  every other step moves \<open>actual_index\<close> on.  The first measure covers states that the loop never
  enters, in which \<open>pattern_index\<close> is not behind the last percent sign.
\<close>

function like_loop ::
    "('p \<Rightarrow> LikeToken) \<Rightarrow> bool \<Rightarrow> ustr \<Rightarrow> 'p list \<Rightarrow> nat \<Rightarrow> nat \<Rightarrow> nat option \<Rightarrow> nat \<Rightarrow> bool" where
  "like_loop token case_insensitive actual pattern i j last_percent_index retry_index =
     (if length actual \<le> i
      then j + length (takeWhile (\<lambda>p. token p = AnyMany) (drop j pattern)) = length pattern
      else case (if j < length pattern then Some (token (pattern ! j)) else None) of
             Some AnySingle \<Rightarrow>
               like_loop token case_insensitive actual pattern (Suc i) (Suc j) last_percent_index retry_index
           | Some AnyMany \<Rightarrow> like_loop token case_insensitive actual pattern i (Suc j) (Some j) i
           | other \<Rightarrow>
               if (case other of
                     Some (Literal expected) \<Rightarrow> like_char_eq (actual ! i) expected case_insensitive
                   | _ \<Rightarrow> False)
               then like_loop token case_insensitive actual pattern (Suc i) (Suc j) last_percent_index retry_index
               else (case last_percent_index of
                       Some percent_index \<Rightarrow>
                         like_loop token case_insensitive actual pattern (Suc retry_index) (Suc percent_index)
                           last_percent_index (Suc retry_index)
                     | None \<Rightarrow> False))"
  by pat_completeness auto

termination
  by (relation "measures
      [\<lambda>(token, ci, actual, pattern, i, j, l, r). if percent_level l \<le> j then 0 else 1,
       \<lambda>(token, ci, actual, pattern, i, j, l, r). length pattern - percent_level l,
       \<lambda>(token, ci, actual, pattern, i, j, l, r). length actual - r,
       \<lambda>(token, ci, actual, pattern, i, j, l, r). length actual - i]")
    (auto split: if_splits option.splits)

declare like_loop.simps [simp del]

definition like_matches :: "ustr \<Rightarrow> LikeToken list \<Rightarrow> bool \<Rightarrow> bool" where
  "like_matches actual pattern case_insensitive = like_loop id case_insensitive actual pattern 0 0 None 0"

text \<open>What a pattern means: the reference definition by recursion on the tokens.\<close>

fun like_spec :: "bool \<Rightarrow> LikeToken list \<Rightarrow> ustr \<Rightarrow> bool" where
  "like_spec ci [] cs = (cs = [])"
| "like_spec ci (AnySingle # ts) cs = (case cs of [] \<Rightarrow> False | c # cs' \<Rightarrow> like_spec ci ts cs')"
| "like_spec ci (Literal e # ts) cs = (case cs of [] \<Rightarrow> False | c # cs' \<Rightarrow> like_char_eq c e ci \<and> like_spec ci ts cs')"
| "like_spec ci (AnyMany # ts) cs = (\<exists>k \<le> length cs. like_spec ci ts (drop k cs))"

section \<open>Literal segments\<close>

text \<open>
  Patterns of ASCII text and percent signs are matched on bytes, segment by segment.  \<open>esc\<close> is the
  escape character as a byte.
\<close>

definition byte_lower :: "byte \<Rightarrow> byte" where
  "byte_lower b = (if 65 \<le> b \<and> b \<le> 90 then b + 32 else b)"

definition eq_ignore_ascii_case :: "bytes \<Rightarrow> bytes \<Rightarrow> bool" where
  "eq_ignore_ascii_case a b \<longleftrightarrow> map byte_lower a = map byte_lower b"

definition is_ascii :: "byte \<Rightarrow> bool" where
  "is_ascii b \<longleftrightarrow> b < 128"

fun parse_segments ::
    "byte option \<Rightarrow> bytes \<Rightarrow> bytes list \<Rightarrow> bytes \<Rightarrow> bool \<Rightarrow> bool \<Rightarrow> (bytes list \<times> bool \<times> bool) option" where
  "parse_segments esc [] segments current leading trailing =
     Some (if current \<noteq> [] then segments @ [current] else segments, leading, trailing)"
| "parse_segments esc (c # cs) segments current leading trailing =
     (if esc = Some c
      then (case cs of
              d # ds \<Rightarrow> if \<not> is_ascii d then None
                        else parse_segments esc ds segments (current @ [d]) leading False
            | [] \<Rightarrow> parse_segments esc [] segments (current @ [c]) leading False)
      else if \<not> is_ascii c then None
      else if c = 95 then None
      else if c = 37
      then parse_segments esc cs (if current \<noteq> [] then segments @ [current] else segments) []
             (leading \<or> segments = [] \<and> current = []) True
      else parse_segments esc cs segments (current @ [c]) leading False)"

definition parse_like_literal_segments :: "bytes \<Rightarrow> nat option \<Rightarrow> (bytes list \<times> bool \<times> bool) option" where
  "parse_like_literal_segments pattern escape_char =
     (case escape_char of
        Some ch \<Rightarrow> if ch < 128 then parse_segments (Some (of_nat ch)) pattern [] [] False False else None
      | None \<Rightarrow> parse_segments None pattern [] [] False False)"

definition matches_segment_at :: "bytes \<Rightarrow> nat \<Rightarrow> bytes \<Rightarrow> bool \<Rightarrow> bool" where
  "matches_segment_at actual start segment case_insensitive \<longleftrightarrow>
     start + length segment \<le> length actual \<and>
     (let window = take (length segment) (drop start actual)
      in if case_insensitive then eq_ignore_ascii_case window segment else window = segment)"

definition find_all_segment_occurrences :: "bytes \<Rightarrow> bytes \<Rightarrow> bool \<Rightarrow> nat list" where
  "find_all_segment_occurrences actual segment case_insensitive =
     (if segment = [] \<or> length actual < length segment then []
      else filter (\<lambda>start. matches_segment_at actual start segment case_insensitive)
             [0..<Suc (length actual - length segment)])"

definition find_segment_from :: "bytes \<Rightarrow> bytes \<Rightarrow> nat \<Rightarrow> bool \<Rightarrow> nat option" where
  "find_segment_from actual segment start case_insensitive =
     (if segment = [] then Some start
      else if length actual < start \<or> length actual - start < length segment then None
      else List.find (\<lambda>candidate_start. matches_segment_at actual candidate_start segment case_insensitive)
             [start..<Suc (length actual - length segment)])"

text \<open>The inner loop over the segments after the first; \<open>None\<close> when one is not found.\<close>

fun follow_segments :: "bytes \<Rightarrow> bool \<Rightarrow> nat \<Rightarrow> bytes list \<Rightarrow> nat option" where
  "follow_segments actual case_insensitive cursor [] = Some cursor"
| "follow_segments actual case_insensitive cursor (segment # segments) =
     (case find_segment_from actual segment cursor case_insensitive of
        None \<Rightarrow> None
      | Some next_start \<Rightarrow> follow_segments actual case_insensitive (next_start + length segment) segments)"

definition compare_like_by_literal_segments :: "bytes \<Rightarrow> bytes \<Rightarrow> bool \<Rightarrow> nat option \<Rightarrow> bool option" where
  "compare_like_by_literal_segments actual pattern case_insensitive escape_char =
     (case parse_like_literal_segments pattern escape_char of
        None \<Rightarrow> None
      | Some ([], leading, trailing) \<Rightarrow> Some True
      | Some (first_segment # segments, leading, trailing) \<Rightarrow>
          if \<not> leading \<and> \<not> matches_segment_at actual 0 first_segment case_insensitive then Some False
          else Some (list_ex
                 (\<lambda>start. case follow_segments actual case_insensitive (start + length first_segment) segments of
                            None \<Rightarrow> False
                          | Some cursor \<Rightarrow> trailing \<or> cursor = length actual)
                 (if leading then find_all_segment_occurrences actual first_segment case_insensitive else [0])))"

section \<open>Fast paths\<close>

datatype LikeAsciiFastPath = AsciiExact bytes | AsciiPrefix bytes

datatype LikeFastPath = Exact ustr | Prefix ustr

fun ascii_fast_path :: "byte option \<Rightarrow> bytes \<Rightarrow> bytes \<Rightarrow> bool \<Rightarrow> LikeAsciiFastPath option" where
  "ascii_fast_path esc [] literal has_trailing_many =
     Some (if has_trailing_many then AsciiPrefix literal else AsciiExact literal)"
| "ascii_fast_path esc (c # cs) literal has_trailing_many =
     (if esc = Some c
      then (case cs of
              d # ds \<Rightarrow> if \<not> is_ascii d then None else ascii_fast_path esc ds (literal @ [d]) has_trailing_many
            | [] \<Rightarrow> ascii_fast_path esc [] (literal @ [c]) has_trailing_many)
      else if \<not> is_ascii c then None
      else if c = 95 then None
      else if c = 37
      then (if cs \<noteq> [] \<or> has_trailing_many then None else ascii_fast_path esc cs literal True)
      else if has_trailing_many then None
      else ascii_fast_path esc cs (literal @ [c]) has_trailing_many)"

definition classify_like_ascii_fast_path :: "bytes \<Rightarrow> nat option \<Rightarrow> LikeAsciiFastPath option" where
  "classify_like_ascii_fast_path pattern escape_char =
     (case escape_char of
        Some ch \<Rightarrow> if ch < 128 then ascii_fast_path (Some (of_nat ch)) pattern [] False else None
      | None \<Rightarrow> ascii_fast_path None pattern [] False)"

fun apply_like_ascii_fast_path :: "bytes \<Rightarrow> LikeAsciiFastPath \<Rightarrow> bool \<Rightarrow> bool" where
  "apply_like_ascii_fast_path actual (AsciiExact expected) case_insensitive =
     (if case_insensitive then eq_ignore_ascii_case actual expected else actual = expected)"
| "apply_like_ascii_fast_path actual (AsciiPrefix p) case_insensitive =
     (if case_insensitive
      then length p \<le> length actual \<and> eq_ignore_ascii_case (take (length p) actual) p
      else take (length p) actual = p)"

fun fast_path :: "nat option \<Rightarrow> ustr \<Rightarrow> ustr \<Rightarrow> bool \<Rightarrow> bool \<Rightarrow> LikeFastPath option" where
  "fast_path escape_char [] literal escaped has_trailing_many =
     (let literal' = literal @ (if escaped then (case escape_char of Some e \<Rightarrow> [e] | None \<Rightarrow> []) else [])
      in Some (if has_trailing_many then Prefix literal' else Exact literal'))"
| "fast_path escape_char (ch # cs) literal escaped has_trailing_many =
     (if escaped then fast_path escape_char cs (literal @ [ch]) False has_trailing_many
      else if escape_char = Some ch then fast_path escape_char cs literal True has_trailing_many
      else if ch = underscore then None
      else if ch = percent
      then (if cs \<noteq> [] \<or> has_trailing_many then None else fast_path escape_char cs literal False True)
      else if has_trailing_many then None
      else fast_path escape_char cs (literal @ [ch]) False has_trailing_many)"

definition classify_like_fast_path :: "ustr \<Rightarrow> nat option \<Rightarrow> LikeFastPath option" where
  "classify_like_fast_path pattern escape_char = fast_path escape_char pattern [] False False"

text \<open>\<open>str::get(..n)\<close>: the prefix of \<open>n\<close> bytes, when \<open>n\<close> is a character boundary.\<close>

fun str_get_to :: "nat \<Rightarrow> ustr \<Rightarrow> ustr option" where
  "str_get_to n [] = (if n = 0 then Some [] else None)"
| "str_get_to n (c # cs) =
     (if n = 0 then Some []
      else if length (utf8_char c) \<le> n then map_option (Cons c) (str_get_to (n - length (utf8_char c)) cs)
      else None)"

fun apply_like_fast_path :: "ustr \<Rightarrow> LikeFastPath \<Rightarrow> bool \<Rightarrow> bool" where
  "apply_like_fast_path actual (Exact expected) case_insensitive =
     (if case_insensitive then to_ascii_lowercase actual = to_ascii_lowercase expected else actual = expected)"
| "apply_like_fast_path actual (Prefix p) case_insensitive =
     (if case_insensitive
      then (case str_get_to (str_len p) actual of
              None \<Rightarrow> False | Some head \<Rightarrow> to_ascii_lowercase head = to_ascii_lowercase p)
      else prefix p actual)"

section \<open>The predicates\<close>

definition compare_like_value :: "value_env \<Rightarrow> bytes \<Rightarrow> bytes \<Rightarrow> bool \<Rightarrow> nat option \<Rightarrow> bool" where
  "compare_like_value V actual pattern case_insensitive escape_char =
     (let actual_rendered = render_stored_field_value V actual;
          pattern_rendered = render_stored_field_value V pattern
      in case compare_like_by_literal_segments actual_rendered pattern_rendered case_insensitive escape_char of
           Some matched \<Rightarrow> matched
         | None \<Rightarrow>
             (case classify_like_ascii_fast_path pattern_rendered escape_char of
                Some path \<Rightarrow> apply_like_ascii_fast_path actual_rendered path case_insensitive
              | None \<Rightarrow>
                  let actual_text = from_utf8_lossy actual_rendered;
                      pattern_text = from_utf8_lossy pattern_rendered
                  in case classify_like_fast_path pattern_text escape_char of
                       Some path \<Rightarrow> apply_like_fast_path actual_text path case_insensitive
                     | None \<Rightarrow> like_matches actual_text (compile_like_tokens pattern_text escape_char) case_insensitive))"

datatype SelectComparisonOp = Eq | NotEq | Gt | GtEq | Lt | LtEq

fun compare_row_value :: "value_env \<Rightarrow> bytes \<Rightarrow> bytes \<Rightarrow> SelectComparisonOp \<Rightarrow> bool" where
  "compare_row_value V actual expected Eq = (compare_stored_field_values V actual expected = Equal)"
| "compare_row_value V actual expected NotEq = (compare_stored_field_values V actual expected \<noteq> Equal)"
| "compare_row_value V actual expected Gt = (compare_stored_field_values V actual expected = Greater)"
| "compare_row_value V actual expected GtEq = (compare_stored_field_values V actual expected \<noteq> Less)"
| "compare_row_value V actual expected Lt = (compare_stored_field_values V actual expected = Less)"
| "compare_row_value V actual expected LtEq = (compare_stored_field_values V actual expected \<noteq> Greater)"

text \<open>\<open>build\<close> stands for the regex crate: \<open>RegexBuilder::build\<close>, giving an error text or \<open>is_match\<close>.\<close>

type_synonym regex_builder = "ustr \<Rightarrow> bool \<Rightarrow> ustr + (ustr \<Rightarrow> bool)"

definition validate_regex_pattern :: "regex_builder \<Rightarrow> bytes \<Rightarrow> ustr + unit" where
  "validate_regex_pattern build pattern =
     (case build (from_utf8_lossy pattern) False of Inl err \<Rightarrow> Err err | Inr _ \<Rightarrow> Ok ())"

definition compare_regex_value :: "regex_builder \<Rightarrow> value_env \<Rightarrow> bytes \<Rightarrow> bytes \<Rightarrow> bool \<Rightarrow> bool" where
  "compare_regex_value build V actual pattern case_insensitive =
     (case build (from_utf8_lossy (render_stored_field_value V pattern)) case_insensitive of
        Inr is_match \<Rightarrow> is_match (from_utf8_lossy (render_stored_field_value V actual))
      | Inl _ \<Rightarrow> False)"

section \<open>The loop decides the relation\<close>

lemma like_spec_many_drop:
  "like_spec ci (AnyMany # ts) (drop k cs) \<Longrightarrow> i \<le> k \<Longrightarrow> like_spec ci (AnyMany # ts) (drop i cs)"
proof -
  assume "like_spec ci (AnyMany # ts) (drop k cs)" "i \<le> k"
  then obtain m where m: "m \<le> length cs - k" "like_spec ci ts (drop (m + k) cs)" by auto
  show ?thesis
  proof (cases "k \<le> length cs")
    case True
    with m \<open>i \<le> k\<close> show ?thesis by (auto intro!: exI [of _ "m + k - i"])
  next
    case False
    with m show ?thesis by (auto intro!: exI [of _ "length cs - i"])
  qed
qed

lemma like_spec_Nil: "like_spec ci ts [] \<longleftrightarrow> (\<forall>t \<in> set ts. t = AnyMany)"
proof (induction ts)
  case (Cons t ts)
  then show ?case by (cases t) auto
qed simp

lemma like_spec_fixed:
  assumes "like_spec ci (us @ ts) cs" "AnyMany \<notin> set us"
  shows "length us \<le> length cs \<and> like_spec ci ts (drop (length us) cs)"
  using assms
proof (induction us arbitrary: cs)
  case (Cons u us)
  then show ?case by (cases u; cases cs) auto
qed simp

text \<open>
  The state of the loop between two steps: the tokens since the last percent sign are no percent
  signs and have been matched one character each, starting at \<open>retry_index\<close>.
\<close>

definition loop_inv :: "LikeToken list \<Rightarrow> nat \<Rightarrow> nat \<Rightarrow> nat \<Rightarrow> nat option \<Rightarrow> nat \<Rightarrow> bool" where
  "loop_inv T n i j l r \<longleftrightarrow> i \<le> n \<and> j \<le> length T \<and>
     (case l of None \<Rightarrow> True
      | Some p \<Rightarrow> p < j \<and> r \<le> i \<and> j - Suc p = i - r \<and> AnyMany \<notin> set (drop (Suc p) (take j T)))"

definition later_start :: "bool \<Rightarrow> LikeToken list \<Rightarrow> ustr \<Rightarrow> nat option \<Rightarrow> nat \<Rightarrow> bool" where
  "later_start ci T cs l r \<longleftrightarrow>
     (case l of None \<Rightarrow> False | Some p \<Rightarrow> \<exists>k. r < k \<and> k \<le> length cs \<and> like_spec ci (drop (Suc p) T) (drop k cs))"

lemma later_start_segment:
  assumes "loop_inv T (length cs) i j l r" "later_start ci T cs l r"
  obtains k where "i < k" "k \<le> length cs" "like_spec ci (drop j T) (drop k cs)"
proof -
  obtain p k where p: "l = Some p" "p < j" "j \<le> length T" "r \<le> i" "j - Suc p = i - r"
      "AnyMany \<notin> set (drop (Suc p) (take j T))"
    and k: "r < k" "k \<le> length cs" "like_spec ci (drop (Suc p) T) (drop k cs)"
    using assms by (auto simp: loop_inv_def later_start_def split: option.splits)
  have "drop (Suc p) T = drop (Suc p) (take j T) @ drop j T"
    using p(2,3) by (metis Suc_leI append_take_drop_id drop_append diff_is_0_eq drop_0 length_take min_absorb2)
  with k(3) like_spec_fixed [of ci "drop (Suc p) (take j T)" "drop j T" "drop k cs"] p
  have "i - r \<le> length cs - k" "like_spec ci (drop j T) (drop (i - r + k) cs)" by auto
  with p k show ?thesis by (intro that [of "i - r + k"]) auto
qed

lemma drop_token: "j < length T \<Longrightarrow> drop j T = T ! j # drop (Suc j) T"
  by (simp add: Cons_nth_drop_Suc)

lemma length_takeWhile_all: "length (takeWhile P xs) = length xs \<longleftrightarrow> (\<forall>x \<in> set xs. P x)"
  by (induction xs) auto

lemma shifted_bound:
  assumes "i \<le> (n::nat)"
  shows "(\<exists>m \<le> n - i. P (m + i)) \<longleftrightarrow> P i \<or> (\<exists>k. i < k \<and> k \<le> n \<and> P k)" (is "?L \<longleftrightarrow> ?R")
proof
  assume ?L
  then obtain m where "m \<le> n - i" "P (m + i)" by blast
  then show ?R using assms by (cases "m = 0") (auto intro!: exI [of _ "m + i"])
next
  assume ?R
  then obtain k where "i \<le> k" "k \<le> n" "P k" using assms by (auto intro: less_imp_le)
  then show ?L by (intro exI [of _ "k - i"]) auto
qed

lemma later_start_at_percent:
  assumes "loop_inv T (length cs) i j l r" "j < length T" "T ! j = AnyMany"
  shows "like_spec ci (drop j T) (drop i cs) \<or> later_start ci T cs l r \<longleftrightarrow>
     like_spec ci (drop (Suc j) T) (drop i cs) \<or> later_start ci T cs (Some j) i"
proof -
  have many: "drop j T = AnyMany # drop (Suc j) T" using assms(2,3) by (simp add: drop_token)
  have "like_spec ci (drop j T) (drop i cs)" if later: "later_start ci T cs l r"
  proof -
    obtain k where "i < k" "like_spec ci (drop j T) (drop k cs)"
      using later_start_segment [OF assms(1) later] .
    then show ?thesis using like_spec_many_drop [of ci "drop (Suc j) T" k cs i] by (simp add: many)
  qed
  moreover have "like_spec ci (drop j T) (drop i cs) \<longleftrightarrow>
      like_spec ci (drop (Suc j) T) (drop i cs) \<or> later_start ci T cs (Some j) i"
  proof -
    have "i \<le> length cs" using assms(1) by (simp add: loop_inv_def)
    then have "(\<exists>m \<le> length cs - i. P (m + i)) \<longleftrightarrow> P i \<or> (\<exists>k. i < k \<and> k \<le> length cs \<and> P k)" for P
      by (rule shifted_bound)
    from this [of "\<lambda>k. like_spec ci (drop (Suc j) T) (drop k cs)"] show ?thesis
      by (simp add: many later_start_def)
  qed
  ultimately show ?thesis by blast
qed

lemma later_start_restart:
  assumes "l = Some p" "r < length cs"
  shows "later_start ci T cs l r \<longleftrightarrow>
     like_spec ci (drop (Suc p) T) (drop (Suc r) cs) \<or> later_start ci T cs l (Suc r)"
  using assms by (auto simp: later_start_def) (metis Suc_lessI, metis Suc_lessD)

lemma loop_inv_advance:
  "loop_inv T n i j l r \<Longrightarrow> i < n \<Longrightarrow> j < length T \<Longrightarrow> T ! j \<noteq> AnyMany \<Longrightarrow> loop_inv T n (Suc i) (Suc j) l r"
  by (auto simp: loop_inv_def take_Suc_conv_app_nth split: option.splits)

lemma loop_inv_percent: "loop_inv T n i j l r \<Longrightarrow> j < length T \<Longrightarrow> loop_inv T n i (Suc j) (Some j) i"
  by (auto simp: loop_inv_def)

lemma loop_inv_restart:
  "loop_inv T n i j (Some p) r \<Longrightarrow> i < n \<Longrightarrow> loop_inv T n (Suc r) (Suc p) (Some p) (Suc r)"
  by (auto simp: loop_inv_def)

lemma later_start_None [simp]: "\<not> later_start ci T cs None r"
  by (simp add: later_start_def)

lemma restart_bound: "loop_inv T n i j l r \<Longrightarrow> i < n \<Longrightarrow> l = Some p \<Longrightarrow> r < n"
  by (simp add: loop_inv_def)

lemma like_loop_correct:
  assumes "loop_inv (map token pattern) (length actual) i j l r"
  shows "like_loop token ci actual pattern i j l r \<longleftrightarrow>
     like_spec ci (drop j (map token pattern)) (drop i actual) \<or> later_start ci (map token pattern) actual l r"
  using assms
proof (induction token ci actual pattern i j l r rule: like_loop.induct)
  case (1 token ci actual pattern i j l r)
  let ?T = "map token pattern"
  note inv = "1.prems"
  show ?case
  proof (cases "length actual \<le> i")
    case True
    with inv have i: "i = length actual" by (simp add: loop_inv_def)
    have "\<not> later_start ci ?T actual l r"
      using later_start_segment [OF inv] i by (metis linorder_not_less)
    moreover have "j + length (takeWhile (\<lambda>p. token p = AnyMany) (drop j pattern)) = length pattern
        \<longleftrightarrow> (\<forall>t \<in> set (drop j ?T). t = AnyMany)"
      using inv length_takeWhile_all [of "\<lambda>p. token p = AnyMany" "drop j pattern"]
      by (auto simp: loop_inv_def drop_map)
    ultimately show ?thesis using True i by (subst like_loop.simps) (simp add: like_spec_Nil)
  next
    case False
    then have rest: "drop i actual = actual ! i # drop (Suc i) actual" by (simp add: Cons_nth_drop_Suc)
    show ?thesis
    proof (cases "j < length pattern")
      case j: True
      then have T: "drop j ?T = token (pattern ! j) # drop (Suc j) ?T" using drop_token [of j ?T] by simp
      show ?thesis
      proof (cases "token (pattern ! j)")
        case AnySingle
        with False j inv "1.IH"(3) show ?thesis
          by (subst like_loop.simps) (simp add: T rest loop_inv_advance)
      next
        case AnyMany
        with False j inv "1.IH"(4) later_start_at_percent [OF inv] show ?thesis
          by (subst like_loop.simps) (simp add: loop_inv_percent)
      next
        case (Literal e)
        show ?thesis
        proof (cases "like_char_eq (actual ! i) e ci")
          case True
          with Literal False j inv "1.IH"(5) show ?thesis
            by (subst like_loop.simps) (simp add: T rest loop_inv_advance)
        next
          case mismatch: False
          with Literal False j "1.IH"(6) show ?thesis using loop_inv_restart [of ?T "length actual" i j _ r] inv
            by (subst like_loop.simps)
              (auto simp: T rest later_start_restart later_start_None restart_bound [OF inv] split: option.splits)
        qed
      qed
    next
      case j: False
      with False "1.IH"(2) show ?thesis using loop_inv_restart [of ?T "length actual" i j _ r] inv
        by (subst like_loop.simps)
          (auto simp: rest later_start_restart later_start_None restart_bound [OF inv] split: option.splits)
    qed
  qed
qed

lemma like_matches_iff: "like_matches actual pattern ci \<longleftrightarrow> like_spec ci pattern actual"
  using like_loop_correct [of id pattern actual 0 0 None 0 ci]
  by (simp add: like_matches_def loop_inv_def)

text \<open>
  C16. The matching loop, which keeps one restart point and drops it at every percent sign, ends for
  all texts and patterns and decides exactly whether the text matches the pattern.
\<close>

theorem like_matches_correct: "like_matches actual pattern ci = like_spec ci pattern actual"
  by (rule like_matches_iff)

section \<open>The segment path\<close>

abbreviation literals :: "bytes \<Rightarrow> LikeToken list" where
  "literals bs \<equiv> map (\<lambda>b. Literal (unat b)) bs"

lemma unat_byte_lower: "ascii_lower (unat b) = unat (byte_lower b)"
proof -
  have "unat (b + 32) = unat b + 32" if "b \<le> 90"
    using that by (subst unat_add_lem [THEN iffD1]) (auto simp: word_le_nat_alt)
  then show ?thesis by (auto simp: ascii_lower_def byte_lower_def word_le_nat_alt)
qed

text \<open>Equality of texts, with or without regard to the case of ASCII letters.\<close>

definition text_eq :: "bool \<Rightarrow> ustr \<Rightarrow> ustr \<Rightarrow> bool" where
  "text_eq ci a b \<longleftrightarrow> (if ci then map ascii_lower a = map ascii_lower b else a = b)"

lemma text_eq_Nil [simp]: "text_eq ci [] []"
  by (simp add: text_eq_def)

lemma text_eq_Cons [simp]: "text_eq ci (a # as) (b # bs) \<longleftrightarrow> like_char_eq a b ci \<and> text_eq ci as bs"
  by (auto simp: text_eq_def like_char_eq_def)

lemma like_spec_text:
  "like_spec ci (map Literal s @ ts) cs \<longleftrightarrow>
     length s \<le> length cs \<and> text_eq ci (take (length s) cs) s \<and> like_spec ci ts (drop (length s) cs)"
proof (induction s arbitrary: cs)
  case (Cons c s)
  then show ?case by (cases cs) auto
qed simp

definition segment_eq :: "bool \<Rightarrow> bytes \<Rightarrow> bytes \<Rightarrow> bool" where
  "segment_eq ci window segment \<longleftrightarrow> (if ci then eq_ignore_ascii_case window segment else window = segment)"

lemma segment_eq_text: "segment_eq ci a b \<longleftrightarrow> text_eq ci (map unat a) (map unat b)"
proof -
  have "map unat a = map unat b \<longleftrightarrow> a = b" for a b :: bytes
    by (rule inj_map_eq_map) (simp add: inj_def word_unat_eq_iff)
  moreover have "map ascii_lower (map unat a) = map unat (map byte_lower a)" for a
    by (simp add: unat_byte_lower)
  ultimately show ?thesis by (simp only: segment_eq_def text_eq_def eq_ignore_ascii_case_def)
qed

lemma like_spec_literals:
  "like_spec ci (literals s @ ts) (map unat bs) \<longleftrightarrow>
     length s \<le> length bs \<and> segment_eq ci (take (length s) bs) s \<and> like_spec ci ts (map unat (drop (length s) bs))"
  using like_spec_text [of ci "map unat s" ts "map unat bs"]
  by (simp add: segment_eq_text take_map drop_map comp_def)

lemma matches_segment_at_iff:
  "matches_segment_at actual start segment ci \<longleftrightarrow>
     start + length segment \<le> length actual \<and> segment_eq ci (take (length segment) (drop start actual)) segment"
  by (simp add: matches_segment_at_def segment_eq_def Let_def)

lemma like_spec_many_many: "like_spec ci (AnyMany # AnyMany # ts) cs \<longleftrightarrow> like_spec ci (AnyMany # ts) cs"
proof
  assume "like_spec ci (AnyMany # AnyMany # ts) cs"
  then obtain k where "like_spec ci (AnyMany # ts) (drop k cs)" by auto
  then show "like_spec ci (AnyMany # ts) cs" using like_spec_many_drop [of ci ts k cs 0] by simp
next
  assume "like_spec ci (AnyMany # ts) cs"
  then have "like_spec ci (AnyMany # ts) (drop 0 cs)" by simp
  then show "like_spec ci (AnyMany # AnyMany # ts) cs" unfolding like_spec.simps(4) [of ci "AnyMany # ts"] by blast
qed

lemma like_spec_cong:
  assumes "\<And>xs. like_spec ci ts xs \<longleftrightarrow> like_spec ci us xs"
  shows "like_spec ci (ps @ ts) xs \<longleftrightarrow> like_spec ci (ps @ us) xs"
proof (induction ps arbitrary: xs)
  case (Cons p ps)
  then show ?case by (cases p) (auto split: list.split)
qed (simp add: assms)

text \<open>The tokens that a list of segments stands for.\<close>

fun rest_tokens :: "bytes list \<Rightarrow> bool \<Rightarrow> LikeToken list" where
  "rest_tokens [] trailing = (if trailing then [AnyMany] else [])"
| "rest_tokens (s # segments) trailing = AnyMany # literals s @ rest_tokens segments trailing"

definition segment_tokens :: "bytes list \<Rightarrow> bool \<Rightarrow> bool \<Rightarrow> LikeToken list" where
  "segment_tokens segments leading trailing =
     (if leading then [AnyMany] else []) @
     (case segments of [] \<Rightarrow> [] | s # rest \<Rightarrow> literals s @ rest_tokens rest trailing)"

definition consumed :: "bytes list \<Rightarrow> bytes \<Rightarrow> bool \<Rightarrow> LikeToken list" where
  "consumed segments current leading =
     (if leading then [AnyMany] else []) @ concat (map (\<lambda>s. literals s @ [AnyMany]) segments) @ literals current"

definition parse_inv :: "bytes list \<Rightarrow> bytes \<Rightarrow> bool \<Rightarrow> bool \<Rightarrow> bool" where
  "parse_inv segments current leading trailing \<longleftrightarrow> [] \<notin> set segments \<and>
     (if trailing then current = [] \<and> (leading \<or> segments \<noteq> [])
      else current = [] \<longrightarrow> segments = [] \<and> \<not> leading)"

lemma rest_tokens_concat:
  "AnyMany # concat (map (\<lambda>s. literals s @ [AnyMany]) segments) = rest_tokens segments True"
  by (induction segments) auto

lemma rest_tokens_snoc: "rest_tokens segments True @ literals current = rest_tokens (segments @ [current]) False"
  by (induction segments) auto

lemma consumed_end:
  assumes "parse_inv segments current leading trailing"
  shows "consumed segments current leading =
     segment_tokens (if current \<noteq> [] then segments @ [current] else segments) leading trailing"
  using assms rest_tokens_concat [of "tl segments"] rest_tokens_snoc [of "tl segments" current]
  by (cases segments) (auto simp: consumed_def segment_tokens_def parse_inv_def split: if_splits)

lemma consumed_trailing:
  assumes "parse_inv segments [] leading True"
  obtains ps where "consumed segments [] leading = ps @ [AnyMany]"
  using assms by (cases segments rule: rev_cases) (auto simp: consumed_def parse_inv_def)

lemma consumed_literal: "consumed segments (current @ [d]) leading = consumed segments current leading @ [Literal (unat d)]"
  by (simp add: consumed_def)

lemma parse_inv_literal:
  "parse_inv segments current leading trailing \<Longrightarrow> parse_inv segments (current @ [d]) leading False"
  by (simp add: parse_inv_def)

lemma parse_inv_percent:
  "parse_inv segments current leading trailing \<Longrightarrow>
   parse_inv (if current \<noteq> [] then segments @ [current] else segments) [] (leading \<or> segments = [] \<and> current = []) True"
  by (auto simp: parse_inv_def)

lemma consumed_percent:
  assumes "parse_inv segments current leading trailing"
  shows "like_spec ci (consumed segments current leading @ AnyMany # ts) xs \<longleftrightarrow>
     like_spec ci (consumed (if current \<noteq> [] then segments @ [current] else segments) []
                     (leading \<or> segments = [] \<and> current = []) @ ts) xs"
proof (cases "current = [] \<and> trailing")
  case True
  then obtain ps where ps: "consumed segments [] leading = ps @ [AnyMany]"
    using consumed_trailing assms by metis
  have "like_spec ci (ps @ AnyMany # AnyMany # ts) xs \<longleftrightarrow> like_spec ci (ps @ AnyMany # ts) xs"
    by (rule like_spec_cong) (rule like_spec_many_many)
  moreover have "leading \<or> segments \<noteq> []" using assms True by (simp add: parse_inv_def)
  ultimately show ?thesis using True ps by auto
next
  case False
  with assms have "consumed segments current leading @ [AnyMany] =
      consumed (if current \<noteq> [] then segments @ [current] else segments) [] (leading \<or> segments = [] \<and> current = [])"
    by (cases "current = []") (simp_all add: consumed_def parse_inv_def)
  from this [symmetric] show ?thesis by (simp del: like_spec.simps)
qed

lemma parse_segments_tokens:
  assumes "parse_segments e cs segments current leading trailing = Some (segs, lead, trail)"
    and "parse_inv segments current leading trailing"
    and "\<And>c. e = Some c \<longleftrightarrow> esc = Some (unat c)"
  shows "[] \<notin> set segs \<and>
     (like_spec ci (consumed segments current leading @ compile_like_tokens (map unat cs) esc) xs \<longleftrightarrow>
      like_spec ci (segment_tokens segs lead trail) xs)"
  using assms
proof (induction e cs segments current leading trailing rule: parse_segments.induct)
  case (1 e segments current leading trailing)
  from "1.prems"(1,2) show ?case by (auto simp: consumed_end parse_inv_def)
next
  case (2 e c cs segments current leading trailing)
  note esc = "2.prems"(3)
  show ?case
  proof (cases "e = Some c")
    case True
    then have c: "esc = Some (unat c)" using esc by blast
    show ?thesis
    proof (cases cs)
      case Nil
      then show ?thesis using "2.IH"(1) [OF True Nil _ _ esc] "2.prems"(1,2) True c
        by (simp add: consumed_literal parse_inv_literal)
    next
      case (Cons d ds)
      then show ?thesis using "2.IH"(2) [OF True Cons _ _ _ esc] "2.prems"(1,2) True c
        by (simp add: consumed_literal parse_inv_literal split: if_splits)
    qed
  next
    case False
    then have c: "esc \<noteq> Some (unat c)" using esc by blast
    show ?thesis
    proof (cases "c = 37")
      case True
      then have "char_token (unat c) = AnyMany" by (simp add: char_token_def)
      then show ?thesis using "2.IH"(3) [OF False _ _ True _ _ esc] "2.prems"(1,2) False c True
          consumed_percent [OF "2.prems"(2), of ci "compile_like_tokens (map unat cs) esc" xs] parse_inv_percent [OF "2.prems"(2)]
        by (simp add: is_ascii_def split del: if_split)
    next
      case literal: False
      with "2.prems"(1) False have c': "is_ascii c" "c \<noteq> 95" by (auto split: if_splits)
      then have "char_token (unat c) = Literal (unat c)" using literal
        by (simp add: char_token_def word_unat_eq_iff)
      then show ?thesis using "2.IH"(4) [OF False _ _ literal _ _ esc] "2.prems"(1,2) False c c' literal
        by (simp add: consumed_literal parse_inv_literal)
    qed
  qed
qed

lemma segment_tokens_correct:
  assumes "parse_like_literal_segments pattern esc = Some (segs, lead, trail)"
  shows "[] \<notin> set segs"
    and "like_spec ci (compile_like_tokens (map unat pattern) esc) xs \<longleftrightarrow> like_spec ci (segment_tokens segs lead trail) xs"
proof -
  define e :: "byte option" where "e = map_option of_nat esc"
  have "parse_segments e pattern [] [] False False = Some (segs, lead, trail)"
      and small: "esc = Some ch \<Longrightarrow> ch < 128" for ch
    using assms by (auto simp: parse_like_literal_segments_def e_def split: option.splits if_splits)
  moreover have "e = Some c \<longleftrightarrow> esc = Some (unat c)" for c
  proof (cases esc)
    case (Some ch)
    then have "unat (of_nat ch :: byte) = ch" using small [OF Some] by (simp add: unat_of_nat)
    then show ?thesis using Some by (auto simp: e_def)
  qed (simp add: e_def)
  moreover have "parse_inv [] [] False False" by (simp add: parse_inv_def)
  ultimately have "[] \<notin> set segs \<and>
      (like_spec ci (consumed [] [] False @ compile_like_tokens (map unat pattern) esc) xs \<longleftrightarrow>
       like_spec ci (segment_tokens segs lead trail) xs)"
    by (intro parse_segments_tokens)
  then show "[] \<notin> set segs"
    "like_spec ci (compile_like_tokens (map unat pattern) esc) xs \<longleftrightarrow> like_spec ci (segment_tokens segs lead trail) xs"
    by (simp_all add: consumed_def del: like_spec.simps)
qed

text \<open>Soundness: a run of the loop shows how the pattern matches.\<close>

lemma find_Some_least:
  assumes "List.find P [a..<b] = Some i"
  shows "a \<le> i" "i < b" "P i" "\<And>j. a \<le> j \<Longrightarrow> j < i \<Longrightarrow> \<not> P j"
  using assms
  by (auto simp: find_Some_iff) (metis add_diff_cancel_left' le_add_diff_inverse nat_add_left_cancel_less less_trans)

lemma find_segment_from_Some:
  assumes "find_segment_from actual s start ci = Some k" "s \<noteq> []"
  shows "start \<le> k" "matches_segment_at actual k s ci"
    and "\<And>j. start \<le> j \<Longrightarrow> matches_segment_at actual j s ci \<Longrightarrow> k \<le> j"
proof -
  have "List.find (\<lambda>k. matches_segment_at actual k s ci) [start..<Suc (length actual - length s)] = Some k"
    using assms by (simp add: find_segment_from_def del: upt_Suc split: if_splits)
  note least = find_Some_least [OF this]
  show "start \<le> k" "matches_segment_at actual k s ci" by (rule least)+
  show "k \<le> j" if "start \<le> j" "matches_segment_at actual j s ci" for j
    using least(4) that linorder_not_less by blast
qed

lemma find_segment_from_None:
  assumes "find_segment_from actual s start ci = None" "start \<le> j"
  shows "\<not> matches_segment_at actual j s ci"
  using assms by (auto simp: find_segment_from_def find_None_iff matches_segment_at_iff
      simp del: upt_Suc split: if_splits)

lemma segment_then_spec:
  "matches_segment_at actual k s ci \<and> like_spec ci ts (map unat (drop (k + length s) actual)) \<longleftrightarrow>
   k \<le> length actual \<and> like_spec ci (literals s @ ts) (map unat (drop k actual))"
  by (auto simp: like_spec_literals matches_segment_at_iff add.commute drop_map)

lemma follow_segments_sound:
  assumes "follow_segments actual ci cursor segs = Some c" "[] \<notin> set segs" "trail \<or> c = length actual" "cursor \<le> length actual"
  shows "like_spec ci (rest_tokens segs trail) (map unat (drop cursor actual))"
  using assms
proof (induction segs arbitrary: cursor)
  case Nil
  then show ?case by auto
next
  case (Cons s segs)
  obtain k where k: "find_segment_from actual s cursor ci = Some k"
      "follow_segments actual ci (k + length s) segs = Some c"
    using Cons.prems(1) by (auto split: option.splits)
  then have m: "cursor \<le> k" "matches_segment_at actual k s ci"
    using find_segment_from_Some [OF k(1)] Cons.prems(2) by auto
  then have "like_spec ci (rest_tokens segs trail) (map unat (drop (k + length s) actual))"
    using Cons k(2) by (simp add: matches_segment_at_iff)
  with m have "k \<le> length actual" "like_spec ci (literals s @ rest_tokens segs trail) (map unat (drop k actual))"
    using segment_then_spec by blast+
  then show ?case using m(1) by (auto simp: drop_map intro!: exI [of _ "k - cursor"])
qed

text \<open>Completeness, when the text may go on behind the last segment: the leftmost choice is good enough.\<close>

lemma rest_tokens_True: obtains ts where "rest_tokens segs True = AnyMany # ts"
  by (cases segs) auto

lemma follow_segments_complete:
  assumes "like_spec ci (rest_tokens segs True) (map unat (drop cursor actual))" "[] \<notin> set segs"
    "cursor \<le> length actual"
  shows "follow_segments actual ci cursor segs \<noteq> None"
  using assms
proof (induction segs arbitrary: cursor)
  case (Cons s segs)
  obtain j where "j \<le> length actual - cursor"
      and j': "like_spec ci (literals s @ rest_tokens segs True) (map unat (drop (j + cursor) actual))"
    using Cons.prems(1) by (auto simp: drop_map)
  then have j: "cursor \<le> j + cursor" "matches_segment_at actual (j + cursor) s ci"
      "like_spec ci (rest_tokens segs True) (map unat (drop (j + cursor + length s) actual))"
    using segment_then_spec [of actual "j + cursor" s ci "rest_tokens segs True"] Cons.prems(3) by auto
  then obtain k where k: "find_segment_from actual s cursor ci = Some k"
    using find_segment_from_None by (cases "find_segment_from actual s cursor ci") auto
  have least: "k \<le> j + cursor" "k + length s \<le> length actual"
    using find_segment_from_Some [OF k] j Cons.prems(2) by (auto simp: matches_segment_at_iff)
  obtain ts where ts: "rest_tokens segs True = AnyMany # ts" by (rule rest_tokens_True)
  have "like_spec ci (rest_tokens segs True) (map unat (drop (k + length s) actual))"
    using like_spec_many_drop [of ci ts "j + cursor + length s" "map unat actual" "k + length s"] j(3) least
    by (simp add: ts drop_map del: like_spec.simps)
  with Cons.IH [of "k + length s"] Cons.prems(2) least k show ?case by simp
qed simp

lemma parse_segments_leading:
  "parse_segments e cs segs cur lead trail = Some (segs', lead', trail') \<Longrightarrow>
   (lead \<longrightarrow> lead') \<and> (segs \<noteq> [] \<or> cur \<noteq> [] \<longrightarrow> segs' \<noteq> []) \<and> (segs' = [] \<and> cs \<noteq> [] \<longrightarrow> lead')"
  by (induction e cs segs cur lead trail rule: parse_segments.induct)
    (auto split: if_splits list.splits)

lemma compare_segments_cases:
  assumes "parse_like_literal_segments pattern esc = Some (first # segs, lead, trail)"
  shows "compare_like_by_literal_segments actual pattern ci esc =
     Some (\<exists>start c. (lead \<or> start = 0) \<and> matches_segment_at actual start first ci \<and>
             follow_segments actual ci (start + length first) segs = Some c \<and> (trail \<or> c = length actual))"
proof -
  have "first \<noteq> []" using segment_tokens_correct(1) [OF assms] by auto
  then have "set (find_all_segment_occurrences actual first ci) = {start. matches_segment_at actual start first ci}"
    by (auto simp: find_all_segment_occurrences_def matches_segment_at_iff simp del: upt_Suc)
  then show ?thesis using assms
    by (auto simp: compare_like_by_literal_segments_def list_ex_iff split: option.splits)
qed

lemma segments_sound:
  assumes "parse_like_literal_segments pattern esc = Some (segs, lead, trail)" "pattern \<noteq> []"
    and "compare_like_by_literal_segments actual pattern ci esc = Some True"
  shows "like_spec ci (segment_tokens segs lead trail) (map unat actual)"
proof (cases segs)
  case Nil
  then obtain e where "parse_segments e pattern [] [] False False = Some ([], lead, trail)"
    using assms(1) by (auto simp: parse_like_literal_segments_def split: option.splits if_splits)
  from parse_segments_leading [OF this] assms(2) have lead by simp
  with Nil show ?thesis by (auto simp: segment_tokens_def)
next
  case (Cons first rest)
  then obtain start c where s: "lead \<or> start = 0" "matches_segment_at actual start first ci"
      "follow_segments actual ci (start + length first) rest = Some c" "trail \<or> c = length actual"
    using assms(1,3) compare_segments_cases [of pattern esc first rest lead trail actual ci] by auto
  moreover have "[] \<notin> set rest" using segment_tokens_correct(1) [OF assms(1)] Cons by simp
  ultimately have "start \<le> length actual" "like_spec ci (literals first @ rest_tokens rest trail) (map unat (drop start actual))"
    using follow_segments_sound [of actual ci "start + length first" rest c trail]
      segment_then_spec [of actual start first ci "rest_tokens rest trail"]
    by (auto simp: matches_segment_at_iff)
  then show ?thesis using s(1) Cons by (auto simp: segment_tokens_def drop_map)
qed

lemma segments_complete:
  assumes "parse_like_literal_segments pattern esc = Some (segs, lead, trail)" "trail \<or> length segs \<le> 1"
    and "like_spec ci (segment_tokens segs lead trail) (map unat actual)"
  shows "compare_like_by_literal_segments actual pattern ci esc = Some True"
proof (cases segs)
  case Nil
  with assms(1) show ?thesis by (simp add: compare_like_by_literal_segments_def)
next
  case (Cons first rest)
  have ne: "[] \<notin> set rest" using segment_tokens_correct(1) [OF assms(1)] Cons by simp
  obtain start where s: "lead \<or> start = 0" "start \<le> length actual"
      "like_spec ci (literals first @ rest_tokens rest trail) (map unat (drop start actual))"
    using assms(3) Cons by (cases lead) (auto simp: segment_tokens_def drop_map)
  then have m: "matches_segment_at actual start first ci"
      "like_spec ci (rest_tokens rest trail) (map unat (drop (start + length first) actual))"
    using segment_then_spec [of actual start first ci "rest_tokens rest trail"] by auto
  obtain c where "follow_segments actual ci (start + length first) rest = Some c" "trail \<or> c = length actual"
  proof (cases trail)
    case True
    with m that show ?thesis using follow_segments_complete [of ci rest "start + length first" actual] ne
      by (auto simp: matches_segment_at_iff)
  next
    case False
    with assms(2) Cons have "rest = []" by simp
    with False m that show ?thesis by (auto simp: matches_segment_at_iff)
  qed
  with s m assms(1) Cons show ?thesis using compare_segments_cases by auto
qed

section \<open>The general path\<close>

text \<open>
  After the segment path has declined a pattern, the ASCII fast path declines it too: its scan fails
  at the same byte or before.
\<close>

lemma ascii_fast_path_dead:
  "parse_segments e cs segs cur lead trail = None \<Longrightarrow> ascii_fast_path e cs literal many = None"
  by (induction e cs segs cur lead trail arbitrary: literal many rule: parse_segments.induct)
    (auto split: if_splits list.splits)

lemma classify_like_ascii_fast_path_dead:
  "parse_like_literal_segments pattern esc = None \<Longrightarrow> classify_like_ascii_fast_path pattern esc = None"
  by (auto simp: parse_like_literal_segments_def classify_like_ascii_fast_path_def ascii_fast_path_dead
      split: option.splits if_splits)

text \<open>The tokens of a fast path.\<close>

fun path_tokens :: "LikeFastPath \<Rightarrow> LikeToken list" where
  "path_tokens (Exact s) = map Literal s"
| "path_tokens (Prefix s) = map Literal s @ [AnyMany]"

lemma fast_path_tokens:
  assumes "fast_path esc cs literal escaped many = Some path" "escaped \<Longrightarrow> esc \<noteq> None" "many \<Longrightarrow> cs = [] \<and> \<not> escaped"
  shows "path_tokens path = map Literal literal @ (if many then [AnyMany] else []) @
     compile_like_tokens (if escaped then the esc # cs else cs) esc"
  using assms
proof (induction esc cs literal escaped many rule: fast_path.induct)
  case (1 esc literal escaped many)
  then show ?case by (auto simp: Let_def split: if_splits option.splits)
next
  case (2 esc ch cs literal escaped many)
  show ?case
  proof (cases escaped)
    case True
    then obtain e where e: "esc = Some e" using "2.prems"(2) by auto
    with True "2.IH"(1) "2.prems" show ?thesis by auto
  next
    case False
    show ?thesis
    proof (cases "esc = Some ch")
      case True
      with False "2.IH"(2) "2.prems" show ?thesis by auto
    next
      case other: False
      show ?thesis
      proof (cases "ch = percent")
        case True
        with False other "2.prems"(1) show ?thesis by (auto simp: Let_def char_token_def split: if_splits)
      next
        case literal: False
        with False other "2.prems"(1) have ch: "ch \<noteq> underscore" "\<not> many" by (auto split: if_splits)
        with False other literal "2.prems"(1) "2.IH"(4) [OF False other ch(1) literal ch(2)] show ?thesis
          by (simp add: char_token_def)
      qed
    qed
  qed
qed

lemma utf8_char_lower: "ascii_lower a = ascii_lower c \<Longrightarrow> length (utf8_char a) = length (utf8_char c)"
  by (auto simp: ascii_lower_def utf8_char_def split: if_splits)

lemma utf8_char_pos: "0 < length (utf8_char c)"
  by (simp add: utf8_char_def)

lemma str_get_to_lower:
  "(case str_get_to (str_len p) cs of None \<Rightarrow> False | Some head \<Rightarrow> to_ascii_lowercase head = to_ascii_lowercase p)
     \<longleftrightarrow> length p \<le> length cs \<and> text_eq True (take (length p) cs) p"
proof (induction p arbitrary: cs)
  case Nil
  have "str_get_to 0 cs = Some []" by (cases cs) simp_all
  then show ?case by (simp add: str_len_def as_bytes_def to_ascii_lowercase_def)
next
  case (Cons c p)
  have len: "str_len (c # p) = length (utf8_char c) + str_len p" by (simp add: str_len_def as_bytes_def)
  show ?case
  proof (cases cs)
    case Nil
    with len utf8_char_pos [of c] show ?thesis by simp
  next
    case (Cons a as)
    show ?thesis
    proof (cases "ascii_lower a = ascii_lower c")
      case True
      with Cons len utf8_char_pos [of c] utf8_char_lower [OF True] Cons.IH [of as] show ?thesis
        by (auto simp: like_char_eq_def to_ascii_lowercase_def split: option.splits)
    next
      case False
      with Cons show ?thesis
        by (auto simp: like_char_eq_def to_ascii_lowercase_def split: option.splits if_splits)
    qed
  qed
qed

lemma text_eq_length: "text_eq ci a b \<Longrightarrow> length a = length b"
  by (auto simp: text_eq_def dest: map_eq_imp_length_eq split: if_splits)

lemma apply_like_fast_path_correct: "apply_like_fast_path actual path ci \<longleftrightarrow> like_spec ci (path_tokens path) actual"
proof (cases path)
  case (Exact s)
  have "like_spec ci (map Literal s) actual \<longleftrightarrow>
      length s \<le> length actual \<and> text_eq ci (take (length s) actual) s \<and> length actual \<le> length s"
    using like_spec_text [of ci s "[]" actual] by simp
  also have "\<dots> \<longleftrightarrow> text_eq ci actual s" using text_eq_length [of ci actual s] by auto
  finally show ?thesis using Exact by (simp add: text_eq_def to_ascii_lowercase_def)
next
  case (Prefix s)
  have "like_spec ci (map Literal s @ [AnyMany]) actual \<longleftrightarrow>
      length s \<le> length actual \<and> text_eq ci (take (length s) actual) s"
    unfolding like_spec_text by auto
  moreover have "prefix s actual \<longleftrightarrow> length s \<le> length actual \<and> take (length s) actual = s"
    by (metis append_eq_conv_conj prefix_def prefix_length_le take_is_prefix)
  ultimately show ?thesis using Prefix by (simp add: str_get_to_lower text_eq_def)
qed

lemma compare_like_value_general:
  assumes "parse_like_literal_segments (render_stored_field_value V pattern) esc = None"
  shows "compare_like_value V actual pattern ci esc \<longleftrightarrow>
     like_spec ci (compile_like_tokens (from_utf8_lossy (render_stored_field_value V pattern)) esc)
       (from_utf8_lossy (render_stored_field_value V actual))"
proof -
  let ?p = "from_utf8_lossy (render_stored_field_value V pattern)"
  have "compare_like_by_literal_segments (render_stored_field_value V actual) (render_stored_field_value V pattern) ci esc = None"
    using assms by (simp add: compare_like_by_literal_segments_def)
  moreover have "path_tokens path = compile_like_tokens ?p esc" if "classify_like_fast_path ?p esc = Some path" for path
    using fast_path_tokens [of esc ?p "[]" False False path] that by (simp add: classify_like_fast_path_def)
  ultimately show ?thesis
    by (auto simp: compare_like_value_def Let_def classify_like_ascii_fast_path_dead [OF assms]
        apply_like_fast_path_correct like_matches_iff split: option.split)
qed

end
