(* ===== verification/LikeText.thy ===== *)
theory LikeText
  imports Predicates
begin

text \<open>
  \<open>LIKE\<close> on texts: the byte-wise and the character-wise paths of \<open>compare_like_value\<close> against one
  reference definition, and the patterns for which they differ from it.
\<close>

section \<open>Bytes and characters\<close>

text \<open>
  The segment path compares bytes, the general path characters.  Without \<open>_\<close> and with ASCII literals
  a pattern cannot tell them apart: only the ASCII characters and the runs of others between them
  matter.
\<close>

fun squeeze :: "ustr \<Rightarrow> ustr" where
  "squeeze [] = []"
| "squeeze (x # xs) =
     (if x < 128 then x # squeeze xs
      else case xs of y # _ \<Rightarrow> if 128 \<le> y then squeeze xs else 128 # squeeze xs | [] \<Rightarrow> [128])"

lemma squeeze_Nil_iff [simp]: "squeeze xs = [] \<longleftrightarrow> xs = []"
  by (induction xs) (auto split: list.splits)

lemma squeeze_hd: "xs \<noteq> [] \<Longrightarrow> 128 \<le> hd (squeeze xs) \<longleftrightarrow> 128 \<le> hd xs"
  by (induction xs) (auto split: list.splits)

lemma squeeze_suffix: "suffix s xs \<Longrightarrow> suffix (squeeze s) (squeeze xs)"
proof (induction xs)
  case (Cons x xs)
  then consider "s = x # xs" | "suffix (squeeze s) (squeeze xs)" by (auto simp: suffix_Cons)
  then show ?case
  proof cases
    case 2
    then show ?thesis by (auto simp: suffix_Cons split: list.splits)
  qed simp
qed simp

lemma suffix_squeeze: "suffix t (squeeze xs) \<Longrightarrow> \<exists>s. suffix s xs \<and> squeeze s = t"
proof (induction xs)
  case (Cons x xs)
  show ?case
  proof (cases "t = squeeze (x # xs)")
    case True
    then show ?thesis by blast
  next
    case False
    with Cons.prems have "suffix t (squeeze xs)"
      by (auto simp: suffix_Cons split: if_splits list.splits)
    with Cons.IH show ?thesis by (auto intro: suffix_ConsI)
  qed
qed simp

lemma like_spec_many_suffix: "like_spec ci (AnyMany # ts) xs \<longleftrightarrow> (\<exists>s. suffix s xs \<and> like_spec ci ts s)"
proof -
  have "suffix s xs \<longleftrightarrow> (\<exists>k \<le> length xs. s = drop k xs)" for s
    by (metis suffix_drop suffix_length_le suffix_take diff_le_self append_take_drop_id same_append_eq suffix_def length_append diff_add_inverse2 le_add1)
  then show ?thesis by auto
qed

definition ascii_tokens :: "LikeToken list \<Rightarrow> bool" where
  "ascii_tokens ts \<longleftrightarrow> (\<forall>t \<in> set ts. t = AnyMany \<or> (\<exists>c < 128. t = Literal c))"

lemma like_char_eq_high: "128 \<le> x \<Longrightarrow> c < 128 \<Longrightarrow> \<not> like_char_eq x c ci"
  by (auto simp: like_char_eq_def ascii_lower_def)

lemma like_spec_squeeze: "ascii_tokens ts \<Longrightarrow> like_spec ci ts xs \<longleftrightarrow> like_spec ci ts (squeeze xs)"
proof (induction ts arbitrary: xs)
  case Nil
  then show ?case by simp
next
  case (Cons t ts)
  then have ts: "ascii_tokens ts" by (simp add: ascii_tokens_def)
  consider "t = AnyMany" | c where "t = Literal c" "c < 128" using Cons.prems by (auto simp: ascii_tokens_def)
  then show ?case
  proof cases
    case 1
    have "(\<exists>s. suffix s xs \<and> like_spec ci ts (squeeze s)) \<longleftrightarrow> (\<exists>s. suffix s (squeeze xs) \<and> like_spec ci ts s)"
      using squeeze_suffix suffix_squeeze by metis
    with 1 Cons.IH [OF ts] show ?thesis by (simp add: like_spec_many_suffix del: like_spec.simps)
  next
    case 2
    show ?thesis
    proof (cases "xs \<noteq> [] \<and> 128 \<le> hd xs")
      case True
      then obtain y ys where "squeeze xs = y # ys" "128 \<le> y"
        using squeeze_hd [of xs] by (cases "squeeze xs") auto
      with 2 True show ?thesis by (cases xs) (auto simp: like_char_eq_high)
    next
      case False
      with 2 Cons.IH [OF ts] show ?thesis by (cases xs) auto
    qed
  qed
qed

lemma squeeze_run:
  assumes "us \<noteq> []" "\<forall>u \<in> set us. 128 \<le> u" "128 \<le> c"
  shows "squeeze (us @ xs) = squeeze (c # xs)"
  using assms
proof (induction us)
  case (Cons u us)
  then show ?case by (cases us) (auto split: list.splits)
qed simp

lemma squeeze_Cons_cong: "squeeze xs = squeeze ys \<Longrightarrow> squeeze (x # xs) = squeeze (x # ys)"
proof -
  assume eq: "squeeze xs = squeeze ys"
  then have nil: "xs = [] \<longleftrightarrow> ys = []" by (metis squeeze_Nil_iff)
  have "128 \<le> hd xs \<longleftrightarrow> 128 \<le> hd ys" if "xs \<noteq> []"
    using squeeze_hd [of xs] squeeze_hd [of ys] that nil eq by simp
  with eq nil show ?thesis by (cases xs; cases ys) auto
qed

lemma low6_ge:
  assumes "128 + m \<le> unat b" "unat b \<le> 191"
  shows "m \<le> low6 b"
proof -
  from assms obtain y where y: "unat b = y + 2 * 64" by (metis add_leD1 add.commute le_Suc_ex mult_2 numeral_Bit0)
  then have "low6 b = y mod 64" unfolding low6_def by (simp only: mod_mult_self3 mod_mult_self1)
  with y assms show ?thesis by simp
qed

lemma utf8_char_value:
  "194 \<le> b0 \<Longrightarrow> 128 \<le> (unat b0 - 192) * 64 + low6 b1"
  "224 \<le> b0 \<Longrightarrow> second_ok b0 b1 \<Longrightarrow> 128 \<le> (unat b0 - 224) * 4096 + low6 b1 * 64 + low6 b2"
  "240 \<le> b0 \<Longrightarrow> second_ok b0 b1 \<Longrightarrow> 128 \<le> (unat b0 - 240) * 262144 + low6 b1 * 4096 + low6 b2 * 64 + low6 b3"
proof -
  show "194 \<le> b0 \<Longrightarrow> 128 \<le> (unat b0 - 192) * 64 + low6 b1" by (simp add: word_le_nat_alt)
  assume ok: "second_ok b0 b1"
  show "128 \<le> (unat b0 - 224) * 4096 + low6 b1 * 64 + low6 b2" if "224 \<le> b0"
  proof (cases "b0 = 224")
    case True
    with ok have "32 \<le> low6 b1" by (intro low6_ge) (simp_all add: second_ok_def word_le_nat_alt)
    then show ?thesis by simp
  next
    case False
    with that have "225 \<le> unat b0" by (simp add: word_le_nat_alt word_unat_eq_iff)
    then show ?thesis by simp
  qed
  show "128 \<le> (unat b0 - 240) * 262144 + low6 b1 * 4096 + low6 b2 * 64 + low6 b3" if "240 \<le> b0"
  proof (cases "b0 = 240")
    case True
    with ok have "16 \<le> low6 b1" by (intro low6_ge) (simp_all add: second_ok_def word_le_nat_alt)
    then show ?thesis by simp
  next
    case False
    with that have "241 \<le> unat b0" by (simp add: word_le_nat_alt word_unat_eq_iff)
    then show ?thesis by simp
  qed
qed

definition high_bytes :: "bytes \<Rightarrow> nat \<Rightarrow> bool" where
  "high_bytes bs n \<longleftrightarrow> n \<le> length bs \<and> (\<forall>b \<in> set (take n bs). 128 \<le> unat b)"

lemma high_bytes_Suc: "high_bytes bs n \<Longrightarrow> n < length bs \<Longrightarrow> 128 \<le> unat (bs ! n) \<Longrightarrow> high_bytes bs (Suc n)"
  by (auto simp: high_bytes_def take_Suc_conv_app_nth)

lemma high_bytes_continuation:
  "high_bytes bs n \<Longrightarrow> continuation (byte_at bs n) \<Longrightarrow> high_bytes bs (Suc n)"
  "high_bytes bs n \<Longrightarrow> second_ok b (byte_at bs n) \<Longrightarrow> high_bytes bs (Suc n)"
  by (rule high_bytes_Suc; auto simp: second_ok_def continuation_def byte_at_def word_le_nat_alt split: if_splits)+

lemma utf8_step_bytes:
  assumes "bs \<noteq> []"
  shows "case utf8_step bs of
           Inl n \<Rightarrow> high_bytes bs n
         | Inr (c, n) \<Rightarrow> c = unat (hd bs) \<and> n = 1 \<and> c < 128 \<or> 128 \<le> c \<and> high_bytes bs n"
proof (cases "byte_at bs 0 < 128")
  case True
  with assms show ?thesis by (cases bs) (simp_all add: utf8_step_def byte_at_def word_less_nat_alt)
next
  case False
  with assms have 1: "high_bytes bs 1"
    by (cases bs) (simp_all add: high_bytes_def byte_at_def word_less_nat_alt)
  have 2: "high_bytes bs 2" if "continuation (byte_at bs 1) \<or> second_ok b (byte_at bs 1)" for b
    using high_bytes_continuation [OF 1] that by (auto simp: numeral_2_eq_2)
  have 3: "high_bytes bs 3" if "high_bytes bs 2" "continuation (byte_at bs 2)"
    using high_bytes_continuation(1) [OF that] by (simp add: numeral_3_eq_3 numeral_2_eq_2)
  have 4: "high_bytes bs 4" if "high_bytes bs 3" "continuation (byte_at bs 3)"
    using high_bytes_continuation(1) [OF that] by simp
  define b0 b1 b2 b3 where b: "b0 = byte_at bs 0" "b1 = byte_at bs 1" "b2 = byte_at bs 2" "b3 = byte_at bs 3"
  show ?thesis using False 1 2 [of b0] 3 4
    unfolding utf8_step_def Let_def b [symmetric] by (auto simp: utf8_char_value)
qed

lemma squeeze_lossy: "squeeze (map unat bs) = squeeze (from_utf8_lossy bs)"
proof (induction bs rule: from_utf8_lossy.induct)
  case (1 bs)
  show ?case
  proof (cases "bs = []")
    case True
    then show ?thesis by (simp add: from_utf8_lossy.simps)
  next
    case False
    have split: "map unat bs = map unat (take n bs) @ map unat (drop n bs)" for n
      by (metis append_take_drop_id map_append)
    show ?thesis
    proof (cases "utf8_step bs")
      case (Inl n)
      with False have n: "n \<le> length bs" "\<forall>u \<in> set (map unat (take n bs)). 128 \<le> u" "0 < n"
        using utf8_step_bytes [of bs] utf8_step_length(1) [of bs n] by (auto simp: high_bytes_def)
      then have "squeeze (map unat bs) = squeeze (65533 # map unat (drop n bs))"
        by (subst split [of n], intro squeeze_run) auto
      also have "\<dots> = squeeze (65533 # from_utf8_lossy (drop n bs))"
        by (rule squeeze_Cons_cong) (rule 1(1) [OF False Inl])
      finally show ?thesis using False Inl by (subst from_utf8_lossy.simps) simp
    next
      case (Inr r)
      obtain c n where r: "r = (c, n)" by (cases r)
      have n: "c = unat (hd bs) \<and> n = 1 \<and> c < 128 \<or>
          128 \<le> c \<and> n \<le> length bs \<and> (\<forall>u \<in> set (map unat (take n bs)). 128 \<le> u)" "0 < n"
        using utf8_step_bytes [OF False] utf8_step_length(2) [of bs c n] Inr r by (auto simp: high_bytes_def)
      have "squeeze (map unat bs) = squeeze (c # map unat (drop n bs))"
      proof (cases "c < 128")
        case True
        with n(1) False show ?thesis by (cases bs) auto
      next
        case False
        with n show ?thesis by (subst split [of n], intro squeeze_run) auto
      qed
      also have "\<dots> = squeeze (c # from_utf8_lossy (drop n bs))"
        by (rule squeeze_Cons_cong) (rule 1(2) [OF False Inr r [symmetric]])
      finally show ?thesis using False Inr r by (subst from_utf8_lossy.simps) simp
    qed
  qed
qed

section \<open>The whole predicate\<close>

lemma parse_segments_ascii:
  assumes "parse_segments e cs segs cur lead trail = Some r" "\<And>c. e = Some c \<Longrightarrow> c < 128 \<and> esc = Some (unat c)"
    and "e = None \<Longrightarrow> esc = None"
  shows "(\<forall>b \<in> set cs. b < 128) \<and> ascii_tokens (compile_like_tokens (map unat cs) esc)"
  using assms
proof (induction e cs segs cur lead trail rule: parse_segments.induct)
  case (1 e segs cur lead trail)
  then show ?case by (simp add: ascii_tokens_def)
next
  case (2 e c cs segs cur lead trail)
  note esc = "2.prems"(2,3)
  show ?case
  proof (cases "e = Some c")
    case True
    with esc(1) have c: "c < 128" "esc = Some (unat c)" "unat c < 128" by (auto simp: word_less_nat_alt)
    show ?thesis
    proof (cases cs)
      case Nil
      with c show ?thesis by (simp add: ascii_tokens_def)
    next
      case (Cons d ds)
      with True "2.prems"(1) have d: "is_ascii d" "unat d < 128" by (auto simp: is_ascii_def word_less_nat_alt split: if_splits)
      show ?thesis using "2.IH"(2) [OF True Cons _ _ esc] "2.prems"(1) True Cons c d
        by (simp add: ascii_tokens_def is_ascii_def)
    qed
  next
    case False
    with esc have no: "esc \<noteq> Some (unat c)" by (cases e) (auto simp: word_unat_eq_iff)
    from False "2.prems"(1) have c: "is_ascii c" "c \<noteq> 95" "unat c < 128"
      by (auto simp: is_ascii_def word_less_nat_alt split: if_splits)
    then have tok: "char_token (unat c) = AnyMany \<or> (\<exists>d < 128. char_token (unat c) = Literal d)"
      by (auto simp: char_token_def word_unat_eq_iff)
    have "(\<forall>b \<in> set cs. b < 128) \<and> ascii_tokens (compile_like_tokens (map unat cs) esc)"
      using "2.IH"(3) [OF False _ c(2) _ _ esc] "2.IH"(4) [OF False _ c(2) _ _ esc] "2.prems"(1) False c
      by (cases "c = 37") simp_all
    with tok no c show ?thesis by (simp add: ascii_tokens_def is_ascii_def)
  qed
qed

lemma like_path_ascii:
  assumes "parse_like_literal_segments p esc = Some r"
  shows "from_utf8_lossy p = map unat p" "ascii_tokens (compile_like_tokens (map unat p) esc)"
proof -
  have "(\<forall>b \<in> set p. b < 128) \<and> ascii_tokens (compile_like_tokens (map unat p) esc)"
  proof (cases esc)
    case None
    with assms show ?thesis by (intro parse_segments_ascii) (auto simp: parse_like_literal_segments_def)
  next
    case (Some ch)
    with assms have ch: "ch < 128" and parse: "parse_segments (Some (of_nat ch)) p [] [] False False = Some r"
      by (auto simp: parse_like_literal_segments_def split: if_splits)
    from ch have "unat (of_nat ch :: byte) = ch" by (simp add: unat_of_nat)
    with ch Some show ?thesis by (intro parse_segments_ascii [OF parse]) (auto simp: word_less_nat_alt)
  qed
  then show "from_utf8_lossy p = map unat p" "ascii_tokens (compile_like_tokens (map unat p) esc)"
    by (auto intro: from_utf8_lossy_valid from_utf8_ascii)
qed

lemma like_manyI: "like_spec ci ts (drop k cs) \<Longrightarrow> k \<le> length cs \<Longrightarrow> like_spec ci (AnyMany # ts) cs"
  by auto

lemma like_segments_spec:
  assumes "parse_like_literal_segments p esc = Some (segs, lead, trail)"
  shows "like_spec ci (compile_like_tokens (from_utf8_lossy p) esc) (from_utf8_lossy a) \<longleftrightarrow>
    like_spec ci (segment_tokens segs lead trail) (map unat a)"
  using like_path_ascii [OF assms] segment_tokens_correct(2) [OF assms, of ci "map unat a"]
    like_spec_squeeze [of "compile_like_tokens (map unat p) esc" ci] squeeze_lossy [of a] by metis

lemma like_segments_value:
  assumes "parse_like_literal_segments (render_stored_field_value V pattern) esc = Some (segs, lead, trail)"
  shows "compare_like_by_literal_segments (render_stored_field_value V actual)
      (render_stored_field_value V pattern) ci esc = Some (compare_like_value V actual pattern ci esc)"
  using assms
  by (cases "compare_like_by_literal_segments (render_stored_field_value V actual)
      (render_stored_field_value V pattern) ci esc")
    (auto simp: compare_like_by_literal_segments_def compare_like_value_def split: list.splits if_splits)

text \<open>
  C15. For a pattern that is not empty, \<open>compare_like_value\<close> accepts only texts that match the
  pattern, on every path: literal segments, fast paths and the backtracking matcher, with and without an
  escape character and regard to case.  It accepts all of them unless the pattern is a list of at
  least two literal segments that does not end in a percent sign.
\<close>

theorem compare_like_value_correct:
  assumes "p = render_stored_field_value V pattern" "a = render_stored_field_value V actual" "p \<noteq> []"
  shows "(compare_like_value V actual pattern ci esc \<longrightarrow>
            like_spec ci (compile_like_tokens (from_utf8_lossy p) esc) (from_utf8_lossy a)) \<and>
         ((\<forall>segs lead trail. parse_like_literal_segments p esc = Some (segs, lead, trail) \<longrightarrow> trail \<or> length segs \<le> 1) \<longrightarrow>
            compare_like_value V actual pattern ci esc =
            like_spec ci (compile_like_tokens (from_utf8_lossy p) esc) (from_utf8_lossy a))"
proof (cases "parse_like_literal_segments p esc")
  case None
  then show ?thesis using compare_like_value_general [of V pattern esc actual ci] by (simp add: assms(1,2))
next
  case (Some r)
  obtain segs lead trail where r: "r = (segs, lead, trail)" by (cases r)
  note parse = Some [unfolded r]
  show ?thesis
    using segments_sound [OF parse, of a ci] segments_complete [OF parse, of ci a]
      like_segments_value [OF parse [unfolded assms(1)], of actual ci]
    unfolding like_segments_spec [OF parse] parse
    by (auto simp: assms(1) [symmetric] assms(2) [symmetric] assms(3))
qed

lemma demo_text_rendered:
  assumes "s = ''abc'' \<or> s = ''a%'' \<or> s = ''abab'' \<or> s = ''a%b''"
  shows "render_stored_field_value demo_values (as_bytes (lit s)) = as_bytes (lit s)"
    and "from_utf8_lossy (as_bytes (lit s)) = lit s"
proof -
  have a: "from_utf8 (as_bytes (lit s)) = Some (lit s)" "trim (lit s) = lit s"
    using assms by (auto intro!: from_utf8_as_bytes_ascii trim_no_whitespace simp: lit_def is_whitespace_def)
  have "decode_numeric_value demo_values (as_bytes (lit s)) = None"
    using assms a by (subst plain_text_numeric)
      (auto simp: decode_legacy_numeric_value_def parse_i128_bytes_def parse_u128_bytes_def parse_f64_bytes_def
        parse_i128_def parse_u128_def parse_digits_def is_digit_def demo_values_def lit_def)
  moreover have "decode_tagged_db_uuid_binary (as_bytes (lit s)) = None"
    using assms by (auto simp: decode_tagged_db_uuid_binary_def lit_def as_bytes_def utf8_char_def)
  ultimately show "render_stored_field_value demo_values (as_bytes (lit s)) = as_bytes (lit s)"
    by (simp add: render_stored_field_value_def)
  show "from_utf8_lossy (as_bytes (lit s)) = lit s" by (rule from_utf8_lossy_valid [OF a(1)])
qed

theorem compare_like_value_correct_witness:
  "compare_like_value demo_values (as_bytes (lit ''abc'')) (as_bytes (lit ''a%'')) False None"
proof -
  have "as_bytes (lit ''a%'') = [97, 37]" by (simp add: lit_def as_bytes_def utf8_char_def)
  moreover have "parse_like_literal_segments [97, 37] None = Some ([[97]], False, True)" by code_simp
  moreover have "from_utf8_lossy [97, 37] = lit ''a%''" "from_utf8_lossy (as_bytes (lit ''abc'')) = lit ''abc''"
    using demo_text_rendered(2) [of "''a%''"] demo_text_rendered(2) [of "''abc''"] calculation(1) by simp_all
  moreover have "like_spec False (compile_like_tokens (lit ''a%'') None) (lit ''abc'')"
    by (auto simp: lit_def char_token_def like_char_eq_def)
  ultimately show ?thesis
    using compare_like_value_correct [of "[97, 37]" demo_values "as_bytes (lit ''a%'')" "as_bytes (lit ''abc'')"
        "as_bytes (lit ''abc'')" False None] demo_text_rendered(1) [of "''abc''"] demo_text_rendered(1) [of "''a%''"] by simp
qed

text \<open>
  C38. The segment path takes the leftmost place of every segment and never moves one, so it rejects
  texts that match. For a pattern of the form \<open>p%s\<close>, a text that matches it is rejected exactly if
  behind \<open>p\<close> the segment \<open>s\<close> also occurs at a place that is not the end of the text, as in \<open>abab\<close>
  for \<open>a%b\<close>.
\<close>

theorem like_segments_miss_matches:
  assumes "pat = render_stored_field_value V pattern" and "a = render_stored_field_value V actual"
    and "parse_like_literal_segments pat esc = Some ([p, s], False, False)"
    and "like_spec ci (compile_like_tokens (from_utf8_lossy pat) esc) (from_utf8_lossy a)"
  shows "\<not> compare_like_value V actual pattern ci esc \<longleftrightarrow>
         (\<exists>k \<ge> length p. k + length s < length a \<and> matches_segment_at a k s ci)"
proof -
  from assms(4) have "like_spec ci (literals p @ AnyMany # literals s) (map unat a)"
    by (simp add: like_segments_spec [OF assms(3)] segment_tokens_def)
  then have p: "matches_segment_at a 0 p ci" and "like_spec ci (AnyMany # literals s) (map unat (drop (length p) a))"
    using segment_then_spec [of a 0 p ci "AnyMany # literals s"] by auto
  then obtain d where d: "d \<le> length a - length p" "like_spec ci (literals s @ []) (map unat (drop (length p + d) a))"
    by (auto simp: drop_map add.commute)
  then have e: "matches_segment_at a (length p + d) s ci"
    using segment_then_spec [of a "length p + d" s ci "[]"] p by (auto simp: matches_segment_at_iff)
  have s: "s \<noteq> []" using segment_tokens_correct(1) [OF assms(3)] by auto
  obtain k where k: "find_segment_from a s (length p) ci = Some k"
    using find_segment_from_None [of a s "length p" ci "length p + d"] e
    by (cases "find_segment_from a s (length p) ci") auto
  note least = find_segment_from_Some [OF k s]
  have "compare_like_value V actual pattern ci esc \<longleftrightarrow> k + length s = length a"
    using like_segments_value [OF assms(3) [unfolded assms(1)], of actual ci] p k
    by (simp add: compare_segments_cases [OF assms(3)] assms(1,2) [symmetric])
  moreover have "k + length s \<le> length a" using least(2) by (simp add: matches_segment_at_iff)
  ultimately have not: "\<not> compare_like_value V actual pattern ci esc \<longleftrightarrow> k + length s < length a" by auto
  show ?thesis
  proof
    assume "\<not> compare_like_value V actual pattern ci esc"
    with not least(1,2) show "\<exists>k \<ge> length p. k + length s < length a \<and> matches_segment_at a k s ci" by blast
  next
    assume "\<exists>k \<ge> length p. k + length s < length a \<and> matches_segment_at a k s ci"
    then obtain j where j: "length p \<le> j" "j + length s < length a" "matches_segment_at a j s ci" by blast
    from least(3) [OF j(1,3)] j(2) not show "\<not> compare_like_value V actual pattern ci esc" by simp
  qed
qed

theorem like_segments_miss_matches_witness:
  "like_spec False (compile_like_tokens (lit ''a%b'') None) (lit ''abab'') \<and>
   \<not> compare_like_value demo_values (as_bytes (lit ''abab'')) (as_bytes (lit ''a%b'')) False None"
proof -
  have bytes: "as_bytes (lit ''abab'') = [97, 98, 97, 98]" "as_bytes (lit ''a%b'') = [97, 37, 98]"
    by (simp_all add: lit_def as_bytes_def utf8_char_def)
  have parse: "parse_like_literal_segments [97, 37, 98] None = Some ([[97], [98]], False, False)" by code_simp
  have "like_spec False [Literal 97, AnyMany, Literal 98] [97, 98, 97, 98]"
    using like_manyI [of False "[Literal 98]" 2 "[98, 97, 98]"] by (simp add: like_char_eq_def)
  then have spec: "like_spec False (compile_like_tokens (lit ''a%b'') None) (lit ''abab'')"
    by (simp add: lit_def char_token_def)
  have "matches_segment_at [97, 98, 97, 98] 1 [98] False" by (simp add: matches_segment_at_def)
  then have "\<exists>k \<ge> length [97 :: byte]. k + length [98 :: byte] < length [97 :: byte, 98, 97, 98] \<and>
      matches_segment_at [97, 98, 97, 98] k [98] False"
    by (intro exI [of _ 1]) simp
  with like_segments_miss_matches [of "[97, 37, 98]" demo_values "[97, 37, 98]" "[97, 98, 97, 98]"
      "[97, 98, 97, 98]" None "[97]" "[98]" False] parse spec
    demo_text_rendered [of "''abab''", unfolded bytes] demo_text_rendered [of "''a%b''", unfolded bytes]
  show ?thesis unfolding bytes by simp
qed

end
