(* ===== verification/Settings.thy ===== *)
theory Settings
  imports StdText
begin

text \<open>
  The readers of \<open>common/src/settings.rs\<close>.  The process environment is a map from names to texts; a
  variable that is not valid Unicode is absent from it.
\<close>

type_synonym os_env = "ustr \<rightharpoonup> ustr"

definition usize_max :: nat where
  "usize_max = 2 ^ 64 - 1"

definition flag :: "os_env \<Rightarrow> ustr \<Rightarrow> bool \<Rightarrow> bool" where
  "flag env name default_value =
     (case map_option (\<lambda>value. to_ascii_lowercase (trim value) \<in> {lit ''1'', lit ''true'', lit ''yes'', lit ''on''}) (env name) of
        None \<Rightarrow> default_value | Some v \<Rightarrow> v)"

text \<open>\<open>parse::<usize>\<close>, \<open>parse::<u64>\<close> and \<open>parse::<i64>\<close>.\<close>

definition parse_usize :: "ustr \<Rightarrow> nat option" where
  "parse_usize s =
     (case s of
        [] \<Rightarrow> None
      | c # ds \<Rightarrow> Option.bind (parse_digits (if c = 43 then ds else s)) (\<lambda>n. if n \<le> usize_max then Some n else None))"

definition parse_i64 :: "ustr \<Rightarrow> int option" where
  "parse_i64 s = Option.bind (parse_i128 s) (in_range (- (2 ^ 63)) (2 ^ 63 - 1))"

definition usize_allowing_zero :: "os_env \<Rightarrow> ustr \<Rightarrow> nat \<Rightarrow> nat" where
  "usize_allowing_zero env name default_value =
     (case Option.bind (env name) (\<lambda>value. parse_usize (trim value)) of None \<Rightarrow> default_value | Some v \<Rightarrow> v)"

definition positive_usize :: "os_env \<Rightarrow> ustr \<Rightarrow> nat \<Rightarrow> nat" where
  "positive_usize env name default_value =
     (case Option.bind (env name) (\<lambda>value. Option.bind (parse_usize (trim value)) (\<lambda>v. if 0 < v then Some v else None)) of
        None \<Rightarrow> default_value | Some v \<Rightarrow> v)"

definition positive_u64 :: "os_env \<Rightarrow> ustr \<Rightarrow> nat \<Rightarrow> nat" where
  "positive_u64 env name default_value =
     (case Option.bind (env name) (\<lambda>value. Option.bind (parse_usize (trim value)) (\<lambda>v. if 0 < v then Some v else None)) of
        None \<Rightarrow> default_value | Some v \<Rightarrow> v)"

definition u64_allowing_zero :: "os_env \<Rightarrow> ustr \<Rightarrow> nat \<Rightarrow> nat" where
  "u64_allowing_zero env name default_value =
     (case Option.bind (env name) (\<lambda>value. parse_usize (trim value)) of None \<Rightarrow> default_value | Some v \<Rightarrow> v)"

definition i64_allowing_zero :: "os_env \<Rightarrow> ustr \<Rightarrow> int \<Rightarrow> int" where
  "i64_allowing_zero env name default_value =
     (case Option.bind (env name) (\<lambda>value. parse_i64 (trim value)) of None \<Rightarrow> default_value | Some v \<Rightarrow> v)"

definition text_setting :: "os_env \<Rightarrow> ustr \<Rightarrow> ustr option" where
  "text_setting env name =
     Option.bind (env name) (\<lambda>value. if trim value \<noteq> [] then Some (trim value) else None)"

section \<open>Facts\<close>

lemma positive_usize_pos: "0 < default_value \<Longrightarrow> 0 < positive_usize env name default_value"
  by (auto simp: positive_usize_def bind_eq_Some_conv split: option.splits if_splits)

lemma parse_usize_decimal: "n \<le> usize_max \<Longrightarrow> parse_usize (decimal n) = Some n"
proof -
  assume n: "n \<le> usize_max"
  obtain c ds where d: "decimal n = c # ds" using decimal_digits(2) [of n] by (cases "decimal n") auto
  then have "c \<noteq> 43" using decimal_hd [OF d] by (auto simp: is_digit_def)
  with n d parse_digits_decimal [of n] show ?thesis by (simp add: parse_usize_def)
qed

lemma usize_setting_roundtrip:
  assumes "n \<le> usize_max" "env name = Some (decimal n)"
  shows "usize_allowing_zero env name default_value = n" "positive_usize env name default_value = (if n = 0 then default_value else n)"
proof -
  have "trim (decimal n) = decimal n" using trim_int_to_string [of "int n"] by (simp add: int_to_string_def)
  with assms parse_usize_decimal [OF assms(1)]
  show "usize_allowing_zero env name default_value = n" "positive_usize env name default_value = (if n = 0 then default_value else n)"
    by (simp_all add: usize_allowing_zero_def positive_usize_def)
qed

end
