(* ===== verification/Utf8.thy ===== *)
theory Utf8
  imports StdText
begin

text \<open>
  UTF-8 is injective: a byte string that the decoder accepts is the encoding of the text it returns, and
  two byte strings with the same text are equal.
\<close>

lemma low6_add: "q < 64 \<Longrightarrow> unat b = 128 + q \<Longrightarrow> low6 b = q"
proof -
  assume q: "q < 64" and b: "unat b = 128 + q"
  have "128 + q = q + 64 * 2" by simp
  then have "(128 + q) mod 64 = q mod 64" by (simp only: mod_mult_self2)
  with q b show ?thesis by (simp add: low6_def)
qed

lemma continuation_value: "continuation b \<Longrightarrow> \<exists>q < 64. unat b = 128 + q \<and> low6 b = q"
  using low6_add [of "unat b - 128" b] by (intro exI [of _ "unat b - 128"]) (auto simp: continuation_def word_le_nat_alt)

lemma second_value:
  assumes "second_ok b0 b1"
  shows "\<exists>q < 64. unat b1 = 128 + q \<and> low6 b1 = q \<and> (unat b0 = 224 \<longrightarrow> 32 \<le> q) \<and> (unat b0 = 240 \<longrightarrow> 16 \<le> q)"
proof -
  have "128 \<le> unat b1" "unat b1 \<le> 191" "unat b0 = 224 \<longrightarrow> 160 \<le> unat b1" "unat b0 = 240 \<longrightarrow> 144 \<le> unat b1"
    using assms by (auto simp: second_ok_def continuation_def word_le_nat_alt word_unat_eq_iff split: if_splits)
  then show ?thesis using low6_add [of "unat b1 - 128" b1] by (intro exI [of _ "unat b1 - 128"]) auto
qed

lemma utf8_char_two:
  assumes "2 \<le> p" "p < 32" "q < 64"
  shows "utf8_char (p * 64 + q) = [of_nat (192 + p), of_nat (128 + q)]"
  using assms by (simp add: utf8_char_def)

lemma sextet: "q < 64 \<Longrightarrow> (a * 64 + q) div 64 = a \<and> (a * 64 + q) mod 64 = (q::nat)"
  by simp

lemma utf8_char_three:
  assumes "p < 16" "q < 64" "r < 64" "32 \<le> p * 64 + q"
  shows "utf8_char (p * 4096 + q * 64 + r) = [of_nat (224 + p), of_nat (128 + q), of_nat (128 + r)]"
proof -
  define a where "a = p * 64 + q"
  define c where "c = a * 64 + r"
  have c: "p * 4096 + q * 64 + r = c" "2048 \<le> c" "c < 65536" using assms by (simp_all add: a_def c_def)
  have "c div 64 = a" "c mod 64 = r" using sextet [OF assms(3), of a] by (simp_all add: c_def)
  moreover have "a mod 64 = q" "a div 64 = p" using sextet [OF assms(2), of p] by (simp_all add: a_def)
  moreover have "c div 4096 = c div 64 div 64" by (simp add: div_mult2_eq [symmetric])
  ultimately show ?thesis using c by (simp add: utf8_char_def)
qed

lemma utf8_char_four:
  assumes "p < 5" "q < 64" "r < 64" "s < 64" "16 \<le> p * 64 + q"
  shows "utf8_char (p * 262144 + q * 4096 + r * 64 + s) =
           [of_nat (240 + p), of_nat (128 + q), of_nat (128 + r), of_nat (128 + s)]"
proof -
  define a where "a = p * 64 + q"
  define b where "b = a * 64 + r"
  define c where "c = b * 64 + s"
  have c: "p * 262144 + q * 4096 + r * 64 + s = c" "65536 \<le> c" using assms by (simp_all add: a_def b_def c_def)
  have "c div 64 = b" "c mod 64 = s" using sextet [OF assms(4), of b] by (simp_all add: c_def)
  moreover have "b mod 64 = r" "b div 64 = a" using sextet [OF assms(3), of a] by (simp_all add: b_def)
  moreover have "a mod 64 = q" "a div 64 = p" using sextet [OF assms(2), of p] by (simp_all add: a_def)
  moreover have "c div 4096 = c div 64 div 64" "c div 262144 = c div 64 div 64 div 64"
    by (simp_all add: div_mult2_eq [symmetric])
  ultimately show ?thesis using c by (simp add: utf8_char_def)
qed

lemma utf8_step_inverse:
  assumes "utf8_step bs = Inr (c, n)" "bs \<noteq> []"
  shows "utf8_char c = take n bs"
proof -
  define b0 b1 b2 b3 where b: "b0 = byte_at bs 0" "b1 = byte_at bs 1" "b2 = byte_at bs 2" "b3 = byte_at bs 3"
  have zero: "\<not> continuation 0" "\<not> second_ok b 0" for b
    by (auto simp: continuation_def second_ok_def word_le_nat_alt)
  consider (1) "b0 < 128" "c = unat b0" "n = 1"
    | (2) "194 \<le> b0" "b0 \<le> 223" "continuation b1" "c = (unat b0 - 192) * 64 + low6 b1" "n = 2"
    | (3) "224 \<le> b0" "b0 \<le> 239" "second_ok b0 b1" "continuation b2"
        "c = (unat b0 - 224) * 4096 + low6 b1 * 64 + low6 b2" "n = 3"
    | (4) "240 \<le> b0" "b0 \<le> 244" "second_ok b0 b1" "continuation b2" "continuation b3"
        "c = (unat b0 - 240) * 262144 + low6 b1 * 4096 + low6 b2 * 64 + low6 b3" "n = 4"
    using assms(1) unfolding utf8_step_def Let_def b [symmetric] by (auto split: if_splits)
  then show ?thesis
  proof cases
    case 1
    with assms(2) b(1) show ?thesis by (cases bs) (simp_all add: utf8_char_def byte_at_def word_less_nat_alt)
  next
    case 2
    with assms(2) b zero obtain rest where bs: "bs = b0 # b1 # rest"
      by (cases bs; cases "tl bs") (auto simp: byte_at_def)
    define p where "p = unat b0 - 192"
    obtain q where q: "unat b1 = 128 + q" "q < 64" "low6 b1 = q" using 2(3) continuation_value by blast
    have p: "unat b0 = 192 + p" "2 \<le> p" "p < 32" using 2(1,2) by (simp_all add: p_def word_le_nat_alt)
    have "utf8_char c = [of_nat (unat b0), of_nat (unat b1)]" using utf8_char_two [OF p(2,3) q(2)] 2(4) p q by simp
    with 2 bs show ?thesis by simp
  next
    case 3
    with assms(2) b zero obtain rest where bs: "bs = b0 # b1 # b2 # rest"
      by (cases bs; cases "tl bs"; cases "tl (tl bs)") (auto simp: byte_at_def)
    define p where "p = unat b0 - 224"
    obtain q where q: "unat b1 = 128 + q" "q < 64" "low6 b1 = q" "unat b0 = 224 \<longrightarrow> 32 \<le> q"
      using 3(3) second_value by blast
    obtain r where r: "unat b2 = 128 + r" "r < 64" "low6 b2 = r" using 3(4) continuation_value by blast
    have p: "unat b0 = 224 + p" "p < 16" "32 \<le> p * 64 + q" using 3(1,2) q(4) by (auto simp: p_def word_le_nat_alt)
    have "utf8_char c = [of_nat (unat b0), of_nat (unat b1), of_nat (unat b2)]"
      using utf8_char_three [OF p(2) q(2) r(2) p(3)] 3(5) p q r by simp
    with 3 bs show ?thesis by simp
  next
    case 4
    with assms(2) b zero obtain rest where bs: "bs = b0 # b1 # b2 # b3 # rest"
      by (cases bs; cases "tl bs"; cases "tl (tl bs)"; cases "tl (tl (tl bs))") (auto simp: byte_at_def)
    define p where "p = unat b0 - 240"
    obtain q where q: "unat b1 = 128 + q" "q < 64" "low6 b1 = q" "unat b0 = 240 \<longrightarrow> 16 \<le> q"
      using 4(3) second_value by blast
    obtain r where r: "unat b2 = 128 + r" "r < 64" "low6 b2 = r" using 4(4) continuation_value by blast
    obtain s where s: "unat b3 = 128 + s" "s < 64" "low6 b3 = s" using 4(5) continuation_value by blast
    have p: "unat b0 = 240 + p" "p < 5" "16 \<le> p * 64 + q" using 4(1,2) q(4) by (auto simp: p_def word_le_nat_alt)
    have "utf8_char c = [of_nat (unat b0), of_nat (unat b1), of_nat (unat b2), of_nat (unat b3)]"
      using utf8_char_four [OF p(2) q(2) r(2) s(2) p(3)] 4(6) p q r s by simp
    with 4 bs show ?thesis by simp
  qed
qed

lemma as_bytes_from_utf8: "from_utf8 bs = Some s \<Longrightarrow> as_bytes s = bs"
proof (induction bs arbitrary: s rule: from_utf8.induct)
  case (1 bs)
  show ?case
  proof (cases "bs = []")
    case False
    with 1(2) obtain c n s' where step: "utf8_step bs = Inr (c, n)" and rest: "from_utf8 (drop n bs) = Some s'" and s: "s = c # s'"
      by (subst (asm) from_utf8.simps) (auto split: sum.splits prod.splits option.splits)
    have "as_bytes s' = drop n bs" using 1(1) [OF False step] rest by simp
    then show ?thesis using utf8_step_inverse [OF step False] by (simp add: s as_bytes_def)
  qed (use 1 in \<open>simp add: as_bytes_def\<close>)
qed

lemma from_utf8_inject: "from_utf8 a = Some s \<Longrightarrow> from_utf8 b = Some s \<Longrightarrow> a = b"
  using as_bytes_from_utf8 by metis

end
