(* ===== verification/TPHashSet.thy ===== *)
theory TPHashSet
  imports Predicates "HOL-Library.List_Lexorder" "HOL-Library.AList"
begin

text \<open>
  The text index of \<open>common/src/helpers/tphashset.rs\<close>: items by key, with a second tree from reversed
  keys to keys for suffix searches.  A \<open>BTreeMap\<close> is the list of its pairs in key order; the order of
  strings is the lexicographic order of their characters.
\<close>

section \<open>Ordered maps\<close>

fun bt_insert :: "'k::linorder \<Rightarrow> 'v \<Rightarrow> ('k \<times> 'v) list \<Rightarrow> ('k \<times> 'v) list" where
  "bt_insert k v [] = [(k, v)]"
| "bt_insert k v ((k', v') # xs) =
     (if k < k' then (k, v) # (k', v') # xs
      else if k = k' then (k, v) # xs
      else (k', v') # bt_insert k v xs)"

definition bt_remove :: "'k \<Rightarrow> ('k \<times> 'v) list \<Rightarrow> ('k \<times> 'v) list" where
  "bt_remove k xs = filter (\<lambda>(k', v). k' \<noteq> k) xs"

text \<open>\<open>range\<close> with an included lower and an excluded upper bound.\<close>

definition bt_range :: "'k::linorder \<Rightarrow> 'k \<Rightarrow> ('k \<times> 'v) list \<Rightarrow> ('k \<times> 'v) list" where
  "bt_range lower upper xs = filter (\<lambda>(k, v). lower \<le> k \<and> k < upper) xs"

section \<open>The index\<close>

record 'a TPHashSet =
  items_by_key :: "(ustr \<times> 'a) list"
  reverse_key_to_key :: "(ustr \<times> ustr) list"

definition tp_new :: "'a TPHashSet" where
  "tp_new = \<lparr>items_by_key = [], reverse_key_to_key = []\<rparr>"

definition tp_len :: "'a TPHashSet \<Rightarrow> nat" where
  "tp_len s = length (items_by_key s)"

definition tp_iter :: "'a TPHashSet \<Rightarrow> (ustr \<times> 'a) list" where
  "tp_iter s = items_by_key s"

definition tp_is_empty :: "'a TPHashSet \<Rightarrow> bool" where
  "tp_is_empty s \<longleftrightarrow> items_by_key s = []"

definition reverse_key :: "ustr \<Rightarrow> ustr" where
  "reverse_key key = rev key"

definition tp_insert :: "ustr \<Rightarrow> 'a \<Rightarrow> 'a TPHashSet \<Rightarrow> 'a option \<times> 'a TPHashSet" where
  "tp_insert key value s =
     (map_of (items_by_key s) key,
      s\<lparr>reverse_key_to_key := bt_insert (reverse_key key) key (reverse_key_to_key s),
        items_by_key := bt_insert key value (items_by_key s)\<rparr>)"

definition tp_get :: "'a TPHashSet \<Rightarrow> ustr \<Rightarrow> 'a option" where
  "tp_get s key = map_of (items_by_key s) key"

text \<open>\<open>get_mut\<close> with the update its caller makes through the reference.\<close>

definition tp_get_mut :: "('a \<Rightarrow> 'a) \<Rightarrow> ustr \<Rightarrow> 'a TPHashSet \<Rightarrow> 'a TPHashSet" where
  "tp_get_mut f key s = s\<lparr>items_by_key := map (\<lambda>(k, v). (k, if k = key then f v else v)) (items_by_key s)\<rparr>"

definition get_by_reverse_key :: "'a TPHashSet \<Rightarrow> ustr \<Rightarrow> 'a option" where
  "get_by_reverse_key s rkey = Option.bind (map_of (reverse_key_to_key s) rkey) (map_of (items_by_key s))"

definition tp_contains_key :: "'a TPHashSet \<Rightarrow> ustr \<Rightarrow> bool" where
  "tp_contains_key s key \<longleftrightarrow> map_of (items_by_key s) key \<noteq> None"

definition contains_reverse_key :: "'a TPHashSet \<Rightarrow> ustr \<Rightarrow> bool" where
  "contains_reverse_key s rkey \<longleftrightarrow> map_of (reverse_key_to_key s) rkey \<noteq> None"

definition tp_remove :: "ustr \<Rightarrow> 'a TPHashSet \<Rightarrow> 'a option \<times> 'a TPHashSet" where
  "tp_remove key s =
     (case map_of (items_by_key s) key of
        None \<Rightarrow> (None, s)
      | Some removed \<Rightarrow>
          (Some removed,
           s\<lparr>items_by_key := bt_remove key (items_by_key s),
             reverse_key_to_key := bt_remove (reverse_key key) (reverse_key_to_key s)\<rparr>))"

definition tp_clear :: "'a TPHashSet \<Rightarrow> 'a TPHashSet" where
  "tp_clear s = s\<lparr>items_by_key := [], reverse_key_to_key := []\<rparr>"

section \<open>Searches\<close>

abbreviation char_max :: nat where "char_max \<equiv> 0x10FFFF"

definition prefix_upper_bound :: "ustr \<Rightarrow> ustr" where
  "prefix_upper_bound p = p @ [char_max]"

definition starts_with_ignore_ascii_case :: "ustr \<Rightarrow> ustr \<Rightarrow> bool" where
  "starts_with_ignore_ascii_case value p =
     (let value_bytes = as_bytes value; prefix_bytes = as_bytes p
      in length prefix_bytes \<le> length value_bytes \<and>
         eq_ignore_ascii_case (take (length prefix_bytes) value_bytes) prefix_bytes)"

definition ends_with_ignore_ascii_case :: "ustr \<Rightarrow> ustr \<Rightarrow> bool" where
  "ends_with_ignore_ascii_case value s =
     (let value_bytes = as_bytes value; suffix_bytes = as_bytes s
      in length suffix_bytes \<le> length value_bytes \<and>
         eq_ignore_ascii_case (drop (length value_bytes - length suffix_bytes) value_bytes) suffix_bytes)"

definition search_prefix :: "'a TPHashSet \<Rightarrow> ustr \<Rightarrow> bool \<Rightarrow> (ustr \<times> 'a) list" where
  "search_prefix s p case_insensitive =
     (if \<not> case_insensitive
      then filter (\<lambda>(key, _). prefix p key) (bt_range p (prefix_upper_bound p) (items_by_key s))
      else filter (\<lambda>(key, _). starts_with_ignore_ascii_case key p) (items_by_key s))"

definition search_suffix :: "'a TPHashSet \<Rightarrow> ustr \<Rightarrow> bool \<Rightarrow> (ustr \<times> 'a) list" where
  "search_suffix s sfx case_insensitive =
     (if \<not> case_insensitive
      then let reversed_suffix = reverse_key sfx
           in List.map_filter (\<lambda>(rkey, key).
                if prefix reversed_suffix rkey then map_option (Pair key) (map_of (items_by_key s) key) else None)
              (bt_range reversed_suffix (prefix_upper_bound reversed_suffix) (reverse_key_to_key s))
      else filter (\<lambda>(key, _). ends_with_ignore_ascii_case key sfx) (items_by_key s))"

definition like_matches_chars :: "ustr \<Rightarrow> ustr \<Rightarrow> bool" where
  "like_matches_chars actual pattern = like_loop char_token False actual pattern 0 0 None 0"

definition search_like :: "'a TPHashSet \<Rightarrow> ustr \<Rightarrow> (ustr \<times> 'a) list" where
  "search_like s pattern =
     (if pattern = [] then items_by_key s
      else if percent \<notin> set pattern \<and> underscore \<notin> set pattern
      then (case map_of (items_by_key s) pattern of None \<Rightarrow> [] | Some v \<Rightarrow> [(pattern, v)])
      else if hd pattern = percent \<and> percent \<notin> set (tl pattern) \<and> underscore \<notin> set (tl pattern)
      then search_suffix s (tl pattern) False
      else if last pattern = percent \<and> percent \<notin> set (butlast pattern) \<and> underscore \<notin> set pattern
      then search_prefix s (butlast pattern) False
      else filter (\<lambda>(key, _). like_matches_chars key pattern) (items_by_key s))"

definition search_like_keys :: "'a TPHashSet \<Rightarrow> ustr \<Rightarrow> ustr list" where
  "search_like_keys s pattern = map fst (search_like s pattern)"

section \<open>Ordered maps are maps\<close>

definition bt_sorted :: "('k::linorder \<times> 'v) list \<Rightarrow> bool" where
  "bt_sorted xs \<longleftrightarrow> sorted_wrt (<) (map fst xs)"

lemma bt_sorted_simps [simp]:
  "bt_sorted []" "bt_sorted ((k, v) # xs) \<longleftrightarrow> (\<forall>k' \<in> fst ` set xs. k < k') \<and> bt_sorted xs"
  by (auto simp: bt_sorted_def)

lemma bt_sorted_distinct: "bt_sorted xs \<Longrightarrow> distinct (map fst xs)"
  by (simp add: bt_sorted_def strict_sorted_iff)

lemma map_of_bt_insert: "map_of (bt_insert k v xs) = (map_of xs)(k \<mapsto> v)"
  by (induction xs) (auto simp: fun_eq_iff)

lemma dom_bt_insert: "fst ` set (bt_insert k v xs) = insert k (fst ` set xs)"
  using map_of_bt_insert [of k v xs] by (metis dom_fun_upd dom_map_of_conv_image_fst option.distinct(1))

lemma bt_insert_sorted: "bt_sorted xs \<Longrightarrow> bt_sorted (bt_insert k v xs)"
proof (induction xs)
  case (Cons x xs)
  obtain a b where x: "x = (a, b)" by (cases x)
  consider "k < a" | "k = a" | "a < k" by (rule linorder_cases)
  then show ?case
  proof cases
    case 1
    with Cons x show ?thesis by (auto dest: less_trans)
  next
    case 2
    with Cons x show ?thesis by simp
  next
    case 3
    with Cons x have "\<forall>k' \<in> fst ` set (bt_insert k v xs). a < k'" by (simp only: dom_bt_insert) simp
    with Cons 3 x show ?thesis by auto
  qed
qed simp

lemma map_of_bt_remove: "map_of (bt_remove k xs) = (map_of xs)(k := None)"
  by (induction xs) (auto simp: bt_remove_def fun_eq_iff)

lemma bt_filter_sorted: "bt_sorted xs \<Longrightarrow> bt_sorted (filter P xs)"
  by (simp add: bt_sorted_def sorted_wrt_filter strict_sorted_iff distinct_map_filter sorted_filter)

lemma filter_sorted_items: "bt_sorted xs \<Longrightarrow> (k, v) \<in> set xs \<longleftrightarrow> map_of xs k = Some v"
  by (auto simp: bt_sorted_distinct map_of_eq_Some_iff dest: map_of_SomeD)

section \<open>Prefix and suffix searches\<close>

definition plain_key :: "ustr \<Rightarrow> bool" where
  "plain_key key \<longleftrightarrow> (\<forall>c \<in> set key. c < char_max)"

lemma prefix_range:
  assumes "prefix p key" "plain_key key"
  shows "p \<le> key" "key < prefix_upper_bound p"
proof -
  obtain r where key: "key = p @ r" using assms(1) by (rule prefixE)
  show "p \<le> key" unfolding key by (induction p) auto
  show "key < prefix_upper_bound p"
    using assms(2) unfolding key prefix_upper_bound_def plain_key_def
    by (induction p) (cases r; auto)+
qed

lemma search_prefix_eq:
  assumes "\<forall>key \<in> dom (map_of (items_by_key s)). plain_key key"
  shows "search_prefix s p False = filter (\<lambda>(key, v). prefix p key) (items_by_key s)"
  using assms prefix_range by (fastforce simp: search_prefix_def bt_range_def dom_map_of_conv_image_fst intro!: filter_cong)

text \<open>The invariant: both trees are ordered, and the second one has the reversed key of every item.\<close>

definition tp_inv :: "'a TPHashSet \<Rightarrow> bool" where
  "tp_inv s \<longleftrightarrow> bt_sorted (items_by_key s) \<and> bt_sorted (reverse_key_to_key s) \<and>
     map_of (reverse_key_to_key s) =
       (\<lambda>rkey. if rev rkey \<in> dom (map_of (items_by_key s)) then Some (rev rkey) else None) \<and>
     (\<forall>key \<in> dom (map_of (items_by_key s)). plain_key key)"

lemma plain_key_rev [simp]: "plain_key (rev key) = plain_key key"
  by (simp add: plain_key_def)

lemma in_set_map_filter: "y \<in> set (List.map_filter f xs) \<longleftrightarrow> (\<exists>x \<in> set xs. f x = Some y)"
  by (induction xs) (auto simp: List.map_filter_simps split: option.splits)

lemma search_suffix_set:
  assumes "tp_inv s"
  shows "set (search_suffix s sfx False) = {(key, v). (key, v) \<in> set (items_by_key s) \<and> suffix sfx key}"
proof -
  have rev_entry: "(rkey, key) \<in> set (reverse_key_to_key s) \<longleftrightarrow> rkey = rev key \<and> key \<in> dom (map_of (items_by_key s))" for rkey key
    using assms filter_sorted_items [of "reverse_key_to_key s" rkey key] by (auto simp: tp_inv_def split: if_splits)
  have item: "(key, v) \<in> set (items_by_key s) \<longleftrightarrow> map_of (items_by_key s) key = Some v" for key v
    using assms filter_sorted_items [of "items_by_key s" key v] by (simp add: tp_inv_def)
  have plain: "map_of (items_by_key s) key = Some v \<Longrightarrow> plain_key key" for key v
    using assms by (auto simp: tp_inv_def)
  have pre: "prefix (rev sfx) (rev key) \<longleftrightarrow> suffix sfx key" for key by (simp add: suffix_to_prefix)
  have range: "suffix sfx key \<Longrightarrow> map_of (items_by_key s) key = Some v \<Longrightarrow>
      rev sfx \<le> rev key \<and> rev key < prefix_upper_bound (rev sfx)" for key v
    using prefix_range [of "rev sfx" "rev key"] plain [of key v] by (simp add: pre)
  have "(key, v) \<in> set (search_suffix s sfx False) \<longleftrightarrow> map_of (items_by_key s) key = Some v \<and> suffix sfx key" for key v
    using range [of key v]
    by (auto simp: search_suffix_def bt_range_def in_set_map_filter reverse_key_def rev_entry pre Let_def
        split: if_splits)
  then show ?thesis by (auto simp: item)
qed

text \<open>A search is the LIKE relation of its pattern, on the items of the index.\<close>

abbreviation like_text :: "ustr \<Rightarrow> ustr \<Rightarrow> bool" where
  "like_text pattern key \<equiv> like_spec False (map char_token pattern) key"

lemma like_matches_chars_iff: "like_matches_chars key pattern \<longleftrightarrow> like_text pattern key"
  using like_loop_correct [of char_token pattern key 0 0 None 0 False]
  by (simp add: like_matches_chars_def loop_inv_def)

lemma like_spec_all: "like_spec ci [AnyMany] cs"
  by auto

lemma text_eq_exact: "text_eq False xs ys \<longleftrightarrow> xs = ys"
  by (simp add: text_eq_def)

lemma char_tokens_literal: "percent \<notin> set p \<Longrightarrow> underscore \<notin> set p \<Longrightarrow> map char_token p = map Literal p"
  by (auto simp: char_token_def)

lemma like_text_literal:
  assumes "percent \<notin> set p" "underscore \<notin> set p"
  shows "like_text p key \<longleftrightarrow> key = p"
proof -
  have "like_text p key \<longleftrightarrow> length p \<le> length key \<and> take (length p) key = p \<and> drop (length p) key = []"
    using like_spec_text [of False p "[]" key]
    by (simp only: char_tokens_literal [OF assms] text_eq_exact append_Nil2 like_spec.simps)
  also have "\<dots> \<longleftrightarrow> key = p" by (metis append_Nil2 append_take_drop_id drop_all le_refl take_all)
  finally show ?thesis .
qed

lemma like_text_prefix:
  assumes "percent \<notin> set p" "underscore \<notin> set p"
  shows "like_text (p @ [percent]) key \<longleftrightarrow> prefix p key"
proof -
  have "map char_token (p @ [percent]) = map Literal p @ [AnyMany]"
    using char_tokens_literal [OF assms] by (simp add: char_token_def)
  then have "like_text (p @ [percent]) key \<longleftrightarrow> length p \<le> length key \<and> take (length p) key = p"
    by (simp only: like_spec_text text_eq_exact like_spec_all simp_thms)
  also have "\<dots> \<longleftrightarrow> prefix p key" by (auto simp: prefix_def) (metis append_take_drop_id)
  finally show ?thesis .
qed

lemma drop_eq_suffix: "(\<exists>k \<le> length xs. drop k xs = p) \<longleftrightarrow> suffix p xs"
proof
  assume "suffix p xs"
  then obtain ys where "xs = ys @ p" by (rule suffixE)
  then have "length ys \<le> length xs \<and> drop (length ys) xs = p" by simp
  then show "\<exists>k \<le> length xs. drop k xs = p" by blast
qed (auto simp: suffix_drop)

lemma like_text_suffix:
  assumes "percent \<notin> set p" "underscore \<notin> set p"
  shows "like_text (percent # p) key \<longleftrightarrow> suffix p key"
  using like_text_literal [OF assms] drop_eq_suffix [of key p] by (simp add: char_token_def)

lemma tp_inv_item: "tp_inv s \<Longrightarrow> (key, v) \<in> set (items_by_key s) \<longleftrightarrow> map_of (items_by_key s) key = Some v"
  using filter_sorted_items [of "items_by_key s" key v] by (simp add: tp_inv_def)

lemma search_like_exact:
  assumes inv: "tp_inv s" and pattern: "pattern \<noteq> []"
  shows "set (search_like s pattern) = {(key, v). map_of (items_by_key s) key = Some v \<and> like_text pattern key}"
proof -
  consider (literal) "percent \<notin> set pattern" "underscore \<notin> set pattern"
    | (sfx) "hd pattern = percent" "percent \<notin> set (tl pattern)" "underscore \<notin> set (tl pattern)"
    | (pre) "\<not> (percent \<notin> set pattern \<and> underscore \<notin> set pattern)"
        "\<not> (hd pattern = percent \<and> percent \<notin> set (tl pattern) \<and> underscore \<notin> set (tl pattern))"
        "last pattern = percent" "percent \<notin> set (butlast pattern)" "underscore \<notin> set pattern"
    | (scan) "\<not> (percent \<notin> set pattern \<and> underscore \<notin> set pattern)"
        "\<not> (hd pattern = percent \<and> percent \<notin> set (tl pattern) \<and> underscore \<notin> set (tl pattern))"
        "\<not> (last pattern = percent \<and> percent \<notin> set (butlast pattern) \<and> underscore \<notin> set pattern)"
    by blast
  then show ?thesis
  proof cases
    case literal
    then have "search_like s pattern = (case map_of (items_by_key s) pattern of None \<Rightarrow> [] | Some v \<Rightarrow> [(pattern, v)])"
      using pattern by (simp add: search_like_def)
    then show ?thesis by (auto simp only: like_text_literal [OF literal] split: option.splits) simp_all
  next
    case sfx
    then obtain p where p: "pattern = percent # p" using pattern by (cases pattern) auto
    with sfx have "search_like s pattern = search_suffix s p False" by (simp add: search_like_def)
    then show ?thesis
      using search_suffix_set [OF inv, of p] like_text_suffix [of p] tp_inv_item [OF inv] sfx
      by (simp add: p del: like_spec.simps list.map)
  next
    case pre
    then obtain p where p: "pattern = p @ [percent]" using pattern by (cases pattern rule: rev_cases) auto
    have "search_like s pattern = search_prefix s (butlast pattern) False"
      using pattern pre unfolding search_like_def by (simp only: if_False if_True simp_thms)
    with p show ?thesis
      using search_prefix_eq [of s p] like_text_prefix [of p] tp_inv_item [OF inv] inv pre
      by (auto simp: tp_inv_def simp del: like_spec.simps map_append list.map)
  next
    case scan
    then have "search_like s pattern = filter (\<lambda>(key, _). like_matches_chars key pattern) (items_by_key s)"
      using pattern unfolding search_like_def by (simp only: if_False if_True simp_thms)
    then show ?thesis using tp_inv_item [OF inv] by (auto simp: like_matches_chars_iff simp del: like_spec.simps)
  qed
qed

section \<open>The index is a map with LIKE search\<close>

datatype 'a tp_command =
    PutKey ustr 'a | TakeKey ustr | FindKey ustr | FindReversed ustr | ChangeKey ustr 'a
  | FindPrefix ustr bool | FindSuffix ustr bool | FindLike ustr | WipeAll | CountKeys

datatype 'a tp_reply = Item "'a option" | Items "(ustr \<times> 'a) set" | Amount nat

fun tp_step :: "'a TPHashSet \<Rightarrow> 'a tp_command \<Rightarrow> 'a tp_reply \<times> 'a TPHashSet" where
  "tp_step s (PutKey key v) = (case tp_insert key v s of (old, s') \<Rightarrow> (Item old, s'))"
| "tp_step s (TakeKey key) = (case tp_remove key s of (old, s') \<Rightarrow> (Item old, s'))"
| "tp_step s (FindKey key) = (Item (tp_get s key), s)"
| "tp_step s (FindReversed rkey) = (Item (get_by_reverse_key s rkey), s)"
| "tp_step s (ChangeKey key v) = (Item (tp_get s key), tp_get_mut (\<lambda>_. v) key s)"
| "tp_step s (FindPrefix p ci) = (Items (set (search_prefix s p ci)), s)"
| "tp_step s (FindSuffix p ci) = (Items (set (search_suffix s p ci)), s)"
| "tp_step s (FindLike pattern) = (Items (set (search_like s pattern)), s)"
| "tp_step s WipeAll = (Amount 0, tp_clear s)"
| "tp_step s CountKeys = (Amount (tp_len s), s)"

text \<open>The specification has a plain map and answers every search by scanning it.\<close>

fun map_step :: "(ustr \<rightharpoonup> 'a) \<Rightarrow> 'a tp_command \<Rightarrow> 'a tp_reply \<times> (ustr \<rightharpoonup> 'a)" where
  "map_step m (PutKey key v) = (Item (m key), m(key \<mapsto> v))"
| "map_step m (TakeKey key) = (Item (m key), m(key := None))"
| "map_step m (FindKey key) = (Item (m key), m)"
| "map_step m (FindReversed rkey) = (Item (m (rev rkey)), m)"
| "map_step m (ChangeKey key v) = (Item (m key), if m key = None then m else m(key \<mapsto> v))"
| "map_step m (FindPrefix p ci) =
     (Items {(key, v). m key = Some v \<and> (if ci then starts_with_ignore_ascii_case key p else prefix p key)}, m)"
| "map_step m (FindSuffix p ci) =
     (Items {(key, v). m key = Some v \<and> (if ci then ends_with_ignore_ascii_case key p else suffix p key)}, m)"
| "map_step m (FindLike pattern) = (Items {(key, v). m key = Some v \<and> like_text pattern key}, m)"
| "map_step m WipeAll = (Amount 0, \<lambda>_. None)"
| "map_step m CountKeys = (Amount (card (dom m)), m)"

fun tp_legal :: "'a tp_command \<Rightarrow> bool" where
  "tp_legal (PutKey key v) = plain_key key"
| "tp_legal (FindLike pattern) = (pattern \<noteq> [])"
| "tp_legal _ = True"

definition tp_map :: "'a TPHashSet \<Rightarrow> ustr \<rightharpoonup> 'a" where
  "tp_map s = map_of (items_by_key s)"

lemma tp_inv_new: "tp_inv tp_new"
  by (simp add: tp_inv_def tp_new_def)

lemma tp_inv_plain: "tp_inv s \<Longrightarrow> map_of (items_by_key s) key = Some v \<Longrightarrow> plain_key key"
  by (auto simp: tp_inv_def)

lemma tp_inv_insert: "tp_inv s \<Longrightarrow> plain_key key \<Longrightarrow> tp_inv (snd (tp_insert key v s))"
  by (auto simp: tp_insert_def tp_inv_def bt_insert_sorted map_of_bt_insert reverse_key_def fun_eq_iff)

lemma bt_remove_sorted: "bt_sorted xs \<Longrightarrow> bt_sorted (bt_remove k xs)"
  by (simp add: bt_remove_def bt_filter_sorted)

lemma tp_inv_remove: "tp_inv s \<Longrightarrow> tp_inv (snd (tp_remove key s))"
  by (auto simp: tp_remove_def tp_inv_def bt_remove_sorted map_of_bt_remove reverse_key_def fun_eq_iff split: option.split)

lemma map_of_change:
  "map_of (map (\<lambda>(k, v). (k, if k = key then f v else v)) xs) =
     (\<lambda>k. map_option (if k = key then f else id) (map_of xs k))"
  by (induction xs) (auto simp: fun_eq_iff)

lemma dom_map_option: "dom (\<lambda>k. map_option (g k) (m k)) = dom m"
  by (auto simp: dom_def)

lemma tp_inv_get_mut: "tp_inv s \<Longrightarrow> tp_inv (tp_get_mut f key s)"
  by (simp add: tp_get_mut_def tp_inv_def map_of_change dom_map_option bt_sorted_def comp_def case_prod_beta)

lemma tp_clear_eq: "tp_clear s = tp_new"
  by (simp add: tp_clear_def tp_new_def)

lemma tp_inv_step: "tp_inv s \<Longrightarrow> tp_legal c \<Longrightarrow> tp_inv (snd (tp_step s c))"
  by (cases c) (simp_all add: tp_inv_new tp_inv_insert tp_inv_remove tp_inv_get_mut tp_clear_eq case_prod_beta)

lemma tp_len_card: "tp_inv s \<Longrightarrow> tp_len s = card (dom (tp_map s))"
  using distinct_card [of "map fst (items_by_key s)"] bt_sorted_distinct [of "items_by_key s"]
  by (simp add: tp_len_def tp_map_def tp_inv_def dom_map_of_conv_image_fst)

lemma get_by_reverse_key_eq: "tp_inv s \<Longrightarrow> get_by_reverse_key s rkey = tp_map s (rev rkey)"
  by (cases "map_of (items_by_key s) (rev rkey)") (auto simp: get_by_reverse_key_def tp_inv_def tp_map_def)

lemma tp_step_refines:
  assumes inv: "tp_inv s" and legal: "tp_legal c"
  shows "map_step (tp_map s) c = (fst (tp_step s c), tp_map (snd (tp_step s c)))"
proof (cases c)
  case (TakeKey key)
  then show ?thesis by (auto simp: tp_remove_def tp_map_def map_of_bt_remove split: option.split)
next
  case (FindPrefix p ci)
  then show ?thesis
    using search_prefix_eq [of s p] tp_inv_item [OF inv] inv
    by (auto simp: tp_map_def tp_inv_def search_prefix_def)
next
  case (FindSuffix p ci)
  then show ?thesis
    using search_suffix_set [OF inv, of p] tp_inv_item [OF inv] by (auto simp: tp_map_def search_suffix_def)
next
  case (FindLike pattern)
  then show ?thesis using search_like_exact [OF inv, of pattern] legal by (simp add: tp_map_def del: like_spec.simps)
next
  case (ChangeKey key v)
  then show ?thesis by (auto simp: tp_map_def tp_get_def tp_get_mut_def map_of_change fun_eq_iff option.map_id)
qed (simp_all add: tp_insert_def tp_get_def tp_map_def map_of_bt_insert tp_clear_def fun_eq_iff
    tp_len_card [OF inv] get_by_reverse_key_eq [OF inv])

interpretation text_index: functional_refinement tp_step map_step tp_map tp_inv tp_legal
  by standard (simp_all only: tp_inv_step tp_step_refines)

text \<open>
  C14. The text index is a map.  Whatever items are put, changed and taken, and whatever is searched
  in between -- by key, by reversed key, by prefix, by suffix, by a LIKE pattern -- every reply is that of
  a plain map which is scanned for every search.  Keys must not have the last code point, and a
  LIKE pattern must not be empty.
\<close>

theorem text_index_refines_map:
  "list_all tp_legal cs \<Longrightarrow> run_replies tp_step tp_new cs = run_replies map_step Map.empty cs"
  using text_index.replies_refine [OF tp_inv_new, of cs] by (simp add: tp_map_def tp_new_def)

definition demo_commands :: "nat tp_command list" where
  "demo_commands = [PutKey (lit ''alpha'') 1, PutKey (lit ''beta'') 2, PutKey (lit ''gamma'') 3, TakeKey (lit ''beta''),
     FindReversed (lit ''ahpla''), FindKey (lit ''beta''), CountKeys]"

theorem text_index_refines_map_witness:
  "run_replies tp_step tp_new demo_commands = run_replies map_step Map.empty demo_commands \<and>
   run_replies tp_step tp_new demo_commands =
     [Item None, Item None, Item None, Item (Some 2), Item (Some 1), Item None, Amount 2]"
proof
  have "list_all tp_legal demo_commands" by (simp add: demo_commands_def plain_key_def lit_def)
  then show "run_replies tp_step tp_new demo_commands = run_replies map_step Map.empty demo_commands"
    by (rule text_index_refines_map)
  show "run_replies tp_step tp_new demo_commands =
     [Item None, Item None, Item None, Item (Some 2), Item (Some 1), Item None, Amount 2]"
    by (simp add: demo_commands_def lit_def tp_insert_def tp_remove_def tp_get_def get_by_reverse_key_def tp_new_def
        tp_len_def reverse_key_def bt_remove_def)
qed

lemma bound_not_above: "\<not> p @ char_max # r < prefix_upper_bound p"
  by (induction p) (auto simp: prefix_upper_bound_def)

text \<open>
  The bound of a prefix search is the prefix and one last code point, so a key in which that code
  point follows the prefix is not found, though it has the prefix and a search by key finds it.
\<close>

theorem prefix_search_misses_last_char:
  "let s = snd (tp_insert (p @ char_max # r) v tp_new)
   in tp_get s (p @ char_max # r) = Some v \<and> prefix p (p @ char_max # r) \<and> search_prefix s p False = []"
  using bound_not_above by (simp add: tp_insert_def tp_new_def tp_get_def search_prefix_def bt_range_def)

end
