(* ===== verification/AccessorCache.thy ===== *)
theory AccessorCache
  imports Settings Utf8 TPHashSet ColdScan
begin

text \<open>
  The accessor cache of one table, \<open>EqualityTableCacheEntry\<close> in \<open>serverlib/src/engine/execution/access.rs\<close>:
  the live rows by id, postings from field values to row ids, text indexes for LIKE, and remembered range
  lookups.  A hash map that the code iterates is the list of its pairs, one that it only looks up in is a
  map; no property depends on the order of the pairs.
\<close>

section \<open>State\<close>

type_synonym postings = "(bytes \<times> u64 list) list"

record RangeBound =
  bound_value :: bytes
  inclusive :: bool

record RangeFilterBounds =
  range_field :: ustr
  lower_bound :: "RangeBound option"
  upper_bound :: "RangeBound option"

record EqualityTableCacheEntry =
  latest_tx_id :: u64
  rows_by_id :: "live_row list"
  approx_rows_bytes :: nat
  row_ids_by_field_value :: "ustr \<rightharpoonup> postings"
  string_index_by_field :: "ustr \<rightharpoonup> u64 list TPHashSet"
  string_index_ci_by_field :: "ustr \<rightharpoonup> u64 list TPHashSet"
  range_row_ids_cache :: "ustr \<rightharpoonup> u64 list"

definition default_entry :: EqualityTableCacheEntry where
  "default_entry = \<lparr>latest_tx_id = 0, rows_by_id = [], approx_rows_bytes = 0, row_ids_by_field_value = Map.empty,
     string_index_by_field = Map.empty, string_index_ci_by_field = Map.empty, range_row_ids_cache = Map.empty\<rparr>"

text \<open>
  The environment: the process environment, the number of threads of the machine, the capacity the hash
  map has for its rows, and the size of one of its slots.
\<close>

record acc_env =
  os_vars :: os_env
  available_threads :: nat
  rows_capacity :: "live_row list \<Rightarrow> nat"
  row_slot_size :: nat
  acc_values :: value_env

definition ACCESSOR_CACHE_MAX_ROWS_BYTES :: nat where
  "ACCESSOR_CACHE_MAX_ROWS_BYTES = 32 * 1024 * 1024"

definition ACCESSOR_POSTINGS_PARALLEL_MIN_ROWS :: nat where
  "ACCESSOR_POSTINGS_PARALLEL_MIN_ROWS = 200000"

definition EQUALITY_WARM_PARALLEL_MIN_ROWS :: nat where
  "EQUALITY_WARM_PARALLEL_MIN_ROWS = 250000"

definition EQUALITY_WARM_PARALLEL_MAX_WORKERS :: nat where
  "EQUALITY_WARM_PARALLEL_MAX_WORKERS = 32"

definition ACCESSOR_SNAPSHOT_RESTORE_PARALLEL_MIN_ROWS :: nat where
  "ACCESSOR_SNAPSHOT_RESTORE_PARALLEL_MIN_ROWS = 250000"

definition equality_warm_max_workers :: "acc_env \<Rightarrow> nat" where
  "equality_warm_max_workers E =
     positive_usize (os_vars E) (lit ''DISTDB_RUNTIME_INDEX_WARM_WORKERS'') EQUALITY_WARM_PARALLEL_MAX_WORKERS"

definition accessor_cache_rows_max_bytes :: "acc_env \<Rightarrow> nat" where
  "accessor_cache_rows_max_bytes E =
     usize_allowing_zero (os_vars E) (lit ''DISTDB_ACCESSOR_CACHE_MAX_ROWS_BYTES'') ACCESSOR_CACHE_MAX_ROWS_BYTES"

definition warm_workers :: "acc_env \<Rightarrow> nat" where
  "warm_workers E = min (available_threads E) (equality_warm_max_workers E)"

section \<open>Row budget\<close>

text \<open>Saturating sums are written as one sum cut at the largest \<open>usize\<close>.\<close>

definition saturate :: "nat \<Rightarrow> nat" where
  "saturate n = min n usize_max"

definition estimate_row_map_bytes :: "row_map \<Rightarrow> nat" where
  "estimate_row_map_bytes row =
     saturate (64 + (\<Sum>name \<in> dom row. 48 + str_len name + (case row name of None \<Rightarrow> 0 | Some v \<Rightarrow> length v)))"

definition estimate_rows_by_id_bytes :: "acc_env \<Rightarrow> live_row list \<Rightarrow> nat" where
  "estimate_rows_by_id_bytes E rows =
     saturate (saturate (rows_capacity E rows * row_slot_size E) + 64 +
       (\<Sum>(_, row) \<leftarrow> rows. estimate_row_map_bytes row))"

definition clear_cache_entry_payload :: "EqualityTableCacheEntry \<Rightarrow> EqualityTableCacheEntry" where
  "clear_cache_entry_payload e = default_entry"

definition enforce_entry_row_budget :: "acc_env \<Rightarrow> EqualityTableCacheEntry \<Rightarrow> bool \<times> EqualityTableCacheEntry" where
  "enforce_entry_row_budget E e =
     (let max_bytes = accessor_cache_rows_max_bytes E
      in if max_bytes = 0 \<or> approx_rows_bytes e \<le> max_bytes then (True, e)
         else (False, clear_cache_entry_payload e))"

section \<open>Building an entry\<close>

text \<open>\<open>entry(k).or_default().push(i)\<close> and \<open>entry(k).or_default().append(ids)\<close>.\<close>

definition append_ids :: "'k \<Rightarrow> u64 list \<Rightarrow> ('k \<times> u64 list) list \<Rightarrow> ('k \<times> u64 list) list" where
  "append_ids k ids m = AList.update k ((case map_of m k of None \<Rightarrow> [] | Some old \<Rightarrow> old) @ ids) m"

definition push_id :: "'k \<Rightarrow> u64 \<Rightarrow> ('k \<times> u64 list) list \<Rightarrow> ('k \<times> u64 list) list" where
  "push_id k i m = append_ids k [i] m"

definition post_row :: "ustr \<Rightarrow> live_row \<Rightarrow> postings \<Rightarrow> postings" where
  "post_row name r m = (case snd r name of None \<Rightarrow> m | Some v \<Rightarrow> push_id v (fst r) m)"

definition merge_postings :: "('k \<times> u64 list) list \<Rightarrow> ('k \<times> u64 list) list \<Rightarrow> ('k \<times> u64 list) list" where
  "merge_postings partial m = fold (\<lambda>(v, ids). append_ids v ids) partial m"

definition build_postings_for_field :: "acc_env \<Rightarrow> live_row list \<Rightarrow> ustr \<Rightarrow> postings" where
  "build_postings_for_field E rows name =
     (let workers = warm_workers E
      in if length rows < ACCESSOR_POSTINGS_PARALLEL_MIN_ROWS \<or> workers \<le> 1
         then fold (post_row name) rows []
         else let partials = map (\<lambda>chunk. fold (post_row name) chunk [])
                               (chunks (div_ceil (length rows) workers) rows)
              in fold merge_postings partials [])"

definition normalize_distinct_field_names :: "ustr list \<Rightarrow> ustr list" where
  "normalize_distinct_field_names names =
     fold (\<lambda>name fields. if name = [] \<or> name \<in> set fields then fields else fields @ [name]) names []"

definition insert_rows :: "live_row list \<Rightarrow> live_row list \<Rightarrow> live_row list" where
  "insert_rows new rows = fold (\<lambda>(i, row). AList.update i row) new rows"

text \<open>The loop over the rows, which posts every field of a row and then takes the row.\<close>

definition warm_step :: "ustr list \<Rightarrow> live_row \<Rightarrow> live_row list \<times> postings list \<Rightarrow> live_row list \<times> postings list" where
  "warm_step names r s =
     (case s of (rows, ps) \<Rightarrow> (AList.update (fst r) (snd r) rows, map2 (\<lambda>name. post_row name r) names ps))"

definition warm_rows :: "ustr list \<Rightarrow> live_row list \<Rightarrow> live_row list \<times> postings list" where
  "warm_rows names rows = fold (warm_step names) rows ([], replicate (length names) [])"

definition warm_entry :: "acc_env \<Rightarrow> ustr list \<Rightarrow> live_row list \<times> postings list \<Rightarrow> EqualityTableCacheEntry" where
  "warm_entry E names s =
     (case s of (rows, ps) \<Rightarrow>
        default_entry\<lparr>rows_by_id := rows, approx_rows_bytes := estimate_rows_by_id_bytes E rows,
          row_ids_by_field_value := map_of (rev (zip names ps))\<rparr>)"

definition build_warm_equality_cache_serial :: "acc_env \<Rightarrow> ustr list \<Rightarrow> live_row list \<Rightarrow> EqualityTableCacheEntry" where
  "build_warm_equality_cache_serial E names rows = warm_entry E names (warm_rows names rows)"

definition build_warm_equality_cache_parallel ::
    "acc_env \<Rightarrow> ustr list \<Rightarrow> live_row list \<Rightarrow> nat \<Rightarrow> EqualityTableCacheEntry" where
  "build_warm_equality_cache_parallel E names rows worker_count =
     (let partials = map (warm_rows names) (chunks (div_ceil (length rows) worker_count) rows)
      in warm_entry E names
           (fold (\<lambda>(local_rows, local_ps) (all_rows, ps). (insert_rows local_rows all_rows, map2 merge_postings local_ps ps))
              partials ([], replicate (length names) [])))"

definition string_key_from_value :: "bytes \<Rightarrow> bool \<Rightarrow> ustr" where
  "string_key_from_value value case_insensitive =
     (let key = from_utf8_lossy value in if case_insensitive then to_ascii_lowercase key else key)"

definition build_string_index_for_field :: "live_row list \<Rightarrow> ustr \<Rightarrow> bool \<Rightarrow> u64 list TPHashSet" where
  "build_string_index_for_field rows name case_insensitive =
     (let grouped = fold (\<lambda>(i, row) m. case row name of
                        None \<Rightarrow> m
                      | Some v \<Rightarrow> push_id (string_key_from_value v case_insensitive) i m) rows []
      in fold (\<lambda>(key, ids) index. snd (tp_insert key ids index)) grouped tp_new)"

definition build_string_index_from_postings :: "postings \<Rightarrow> bool \<Rightarrow> u64 list TPHashSet" where
  "build_string_index_from_postings ps case_insensitive =
     fold (\<lambda>(v, ids) index. snd (tp_insert (string_key_from_value v case_insensitive) ids index)) ps tp_new"

definition field_supports_text_like :: "TableSchema \<Rightarrow> ustr \<Rightarrow> bool" where
  "field_supports_text_like schema name =
     (case field schema name of
        None \<Rightarrow> False
      | Some f \<Rightarrow> (case field_type f of StringFixed _ \<Rightarrow> True | Text \<Rightarrow> True | Enum _ \<Rightarrow> True | _ \<Rightarrow> False))"

text \<open>\<open>entry(name).or_insert_with(value)\<close>.\<close>

definition or_insert :: "'k \<Rightarrow> 'v \<Rightarrow> ('k \<rightharpoonup> 'v) \<Rightarrow> ('k \<rightharpoonup> 'v)" where
  "or_insert k v m = (case m k of None \<Rightarrow> m(k \<mapsto> v) | Some _ \<Rightarrow> m)"

definition warm_string_like_accessors ::
    "ustr list \<Rightarrow> TableSchema \<Rightarrow> EqualityTableCacheEntry \<Rightarrow> EqualityTableCacheEntry" where
  "warm_string_like_accessors names schema e =
     fold (\<lambda>name e.
       if \<not> field_supports_text_like schema name then e
       else case row_ids_by_field_value e name of
              None \<Rightarrow> e
            | Some ps \<Rightarrow>
                e\<lparr>string_index_by_field := or_insert name (build_string_index_from_postings ps False) (string_index_by_field e),
                  string_index_ci_by_field := or_insert name (build_string_index_from_postings ps True) (string_index_ci_by_field e)\<rparr>)
       names e"

definition string_index_source :: "EqualityTableCacheEntry \<Rightarrow> ustr \<Rightarrow> bool \<Rightarrow> u64 list TPHashSet" where
  "string_index_source e name case_insensitive =
     (case row_ids_by_field_value e name of
        Some ps \<Rightarrow> build_string_index_from_postings ps case_insensitive
      | None \<Rightarrow> build_string_index_for_field (rows_by_id e) name case_insensitive)"

definition ensure_string_like_index :: "ustr \<Rightarrow> bool \<Rightarrow> EqualityTableCacheEntry \<Rightarrow> EqualityTableCacheEntry" where
  "ensure_string_like_index name case_insensitive e =
     (if case_insensitive then
        (if string_index_ci_by_field e name = None
         then e\<lparr>string_index_ci_by_field := (string_index_ci_by_field e)(name \<mapsto> string_index_source e name True)\<rparr> else e)
      else if string_index_by_field e name = None
      then e\<lparr>string_index_by_field := (string_index_by_field e)(name \<mapsto> string_index_source e name False)\<rparr> else e)"

definition ensure_field_postings :: "acc_env \<Rightarrow> ustr \<Rightarrow> EqualityTableCacheEntry \<Rightarrow> EqualityTableCacheEntry" where
  "ensure_field_postings E name e =
     (if row_ids_by_field_value e name = None
      then e\<lparr>row_ids_by_field_value := (row_ids_by_field_value e)(name \<mapsto> build_postings_for_field E (rows_by_id e) name)\<rparr>
      else e)"

text \<open>
  The restore of rows from a snapshot cuts chunks from the end of the list, so the parallel branch
  inserts later rows first.
\<close>

function split_vec_into_chunks_loop :: "'x list \<Rightarrow> nat \<Rightarrow> 'x list list" where
  "split_vec_into_chunks_loop xs n =
     (if xs = [] \<or> n = 0 then []
      else let split_at = length xs - n
           in drop split_at xs # split_vec_into_chunks_loop (take split_at xs) n)"
  by pat_completeness auto
termination by (relation "measure (\<lambda>(xs, n). length xs)") auto

declare split_vec_into_chunks_loop.simps [simp del]

definition split_vec_into_chunks :: "'x list \<Rightarrow> nat \<Rightarrow> 'x list list" where
  "split_vec_into_chunks xs n = (if xs = [] \<or> n = 0 then [xs] else split_vec_into_chunks_loop xs n)"

definition build_rows_by_id_from_snapshot :: "acc_env \<Rightarrow> live_row list \<Rightarrow> live_row list" where
  "build_rows_by_id_from_snapshot E rows =
     (let workers = warm_workers E
      in if length rows < ACCESSOR_SNAPSHOT_RESTORE_PARALLEL_MIN_ROWS \<or> workers \<le> 1 then insert_rows rows []
         else let partials = map (\<lambda>chunk. insert_rows chunk [])
                               (split_vec_into_chunks rows (div_ceil (length rows) workers))
              in fold insert_rows partials [])"

definition build_cold_accessor_cache_entry ::
    "acc_env \<Rightarrow> u64 \<Rightarrow> live_row list \<Rightarrow> ustr list \<Rightarrow> EqualityTableCacheEntry" where
  "build_cold_accessor_cache_entry E head loaded field_names =
     (let names = normalize_distinct_field_names field_names;
          workers = warm_workers E;
          e = if 1 < workers \<and> EQUALITY_WARM_PARALLEL_MIN_ROWS \<le> length loaded
              then build_warm_equality_cache_parallel E names loaded workers
              else build_warm_equality_cache_serial E names loaded
      in e\<lparr>latest_tx_id := head, approx_rows_bytes := estimate_rows_by_id_bytes E (rows_by_id e)\<rparr>)"

definition build_rows_only_cache_entry :: "acc_env \<Rightarrow> u64 \<Rightarrow> live_row list \<Rightarrow> EqualityTableCacheEntry" where
  "build_rows_only_cache_entry E head loaded =
     (let rows = build_rows_by_id_from_snapshot E loaded
      in default_entry\<lparr>latest_tx_id := head, approx_rows_bytes := estimate_rows_by_id_bytes E rows, rows_by_id := rows\<rparr>)"

section \<open>Lookups\<close>

definition rows_of_ids :: "EqualityTableCacheEntry \<Rightarrow> u64 list \<Rightarrow> live_row list" where
  "rows_of_ids e ids = List.map_filter (\<lambda>i. map_option (Pair i) (map_of (rows_by_id e) i)) ids"

definition rows_for_field_value :: "EqualityTableCacheEntry \<Rightarrow> ustr \<Rightarrow> bytes \<Rightarrow> live_row list" where
  "rows_for_field_value e name lookup_value =
     (case Option.bind (row_ids_by_field_value e name) (\<lambda>ps. map_of ps lookup_value) of
        None \<Rightarrow> [] | Some ids \<Rightarrow> rows_of_ids e ids)"

definition posting_length :: "EqualityTableCacheEntry \<Rightarrow> ustr \<times> bytes \<Rightarrow> nat" where
  "posting_length e f =
     (case Option.bind (row_ids_by_field_value e (fst f)) (\<lambda>ps. map_of ps (snd f)) of
        None \<Rightarrow> usize_max | Some ids \<Rightarrow> length ids)"

text \<open>The loop that picks the shortest posting list, or gives up when a filter has none.\<close>

fun seed_loop :: "EqualityTableCacheEntry \<Rightarrow> (ustr \<times> bytes) list \<Rightarrow> u64 list option \<Rightarrow> u64 list option option" where
  "seed_loop e [] seed = Some seed"
| "seed_loop e ((name, lookup_value) # fs) seed =
     (case Option.bind (row_ids_by_field_value e name) (\<lambda>ps. map_of ps lookup_value) of
        None \<Rightarrow> None
      | Some ids \<Rightarrow>
          seed_loop e fs
            (case seed of None \<Rightarrow> Some ids | Some existing \<Rightarrow> if length ids < length existing then Some ids else seed))"

definition rows_for_field_values :: "EqualityTableCacheEntry \<Rightarrow> (ustr \<times> bytes) list \<Rightarrow> live_row list" where
  "rows_for_field_values e filters =
     (if length filters = 1 then rows_for_field_value e (fst (hd filters)) (snd (hd filters))
      else let ordered_filters = sort_key (posting_length e) filters
           in case seed_loop e ordered_filters None of
                Some (Some seed_row_ids) \<Rightarrow>
                  filter (\<lambda>(i, row). list_all (\<lambda>(name, lookup_value). row name = Some lookup_value) filters)
                    (rows_of_ids e seed_row_ids)
              | _ \<Rightarrow> [])"

definition count_rows_for_field_values :: "EqualityTableCacheEntry \<Rightarrow> (ustr \<times> bytes) list \<Rightarrow> nat" where
  "count_rows_for_field_values e filters =
     (if length filters = 1
      then (case Option.bind (row_ids_by_field_value e (fst (hd filters))) (\<lambda>ps. map_of ps (snd (hd filters))) of
              None \<Rightarrow> 0 | Some ids \<Rightarrow> length ids)
      else length (rows_for_field_values e filters))"

text \<open>LIKE lookups over the text indexes.\<close>

definition rows_for_field_string_like ::
    "EqualityTableCacheEntry \<Rightarrow> ustr \<Rightarrow> ustr \<Rightarrow> live_row list \<times> EqualityTableCacheEntry" where
  "rows_for_field_string_like e name pattern =
     (let e' = ensure_string_like_index name False e
      in (case string_index_by_field e' name of
            None \<Rightarrow> []
          | Some index \<Rightarrow> rows_of_ids e' (concat (map snd (search_like index pattern))), e'))"

definition rows_for_field_string_like_indexed :: "EqualityTableCacheEntry \<Rightarrow> ustr \<Rightarrow> bytes \<Rightarrow> live_row list option" where
  "rows_for_field_string_like_indexed e name pattern =
     map_option (\<lambda>index. rows_of_ids e (concat (map snd (search_like index (from_utf8_lossy pattern)))))
       (string_index_by_field e name)"

definition rows_for_field_string_like_case_insensitive_indexed ::
    "acc_env \<Rightarrow> EqualityTableCacheEntry \<Rightarrow> ustr \<Rightarrow> bytes \<Rightarrow> live_row list" where
  "rows_for_field_string_like_case_insensitive_indexed E e name pattern =
     (case string_index_ci_by_field e name of
        Some index \<Rightarrow>
          let pattern_text = from_utf8_lossy pattern;
              normalized_pattern = to_ascii_lowercase pattern_text;
              matching_keys =
                if percent \<in> set pattern_text \<or> underscore \<in> set pattern_text
                then concat (map (\<lambda>(key, ids). if compare_like_value (acc_values E) (as_bytes key) pattern True None then ids else [])
                       (tp_iter index))
                else (case tp_get index normalized_pattern of None \<Rightarrow> [] | Some ids \<Rightarrow> ids)
          in rows_of_ids e matching_keys
      | None \<Rightarrow>
          filter (\<lambda>(i, row). case row name of
              None \<Rightarrow> False | Some v \<Rightarrow> compare_like_value (acc_values E) v pattern True None) (rows_by_id e))"

definition rows_for_field_prefix ::
    "EqualityTableCacheEntry \<Rightarrow> ustr \<Rightarrow> bytes \<Rightarrow> bool \<Rightarrow> live_row list" where
  "rows_for_field_prefix e name p case_insensitive =
     (case (if case_insensitive then string_index_ci_by_field e name else string_index_by_field e name) of
        Some index \<Rightarrow>
          rows_of_ids e (concat (map snd (search_prefix index
            (if case_insensitive then to_ascii_lowercase (from_utf8_lossy p) else from_utf8_lossy p) False)))
      | None \<Rightarrow>
          (case row_ids_by_field_value e name of
             None \<Rightarrow> []
           | Some ps \<Rightarrow>
               rows_of_ids e (concat (map snd (filter (\<lambda>(v, _).
                 if case_insensitive
                 then length p \<le> length v \<and> eq_ignore_ascii_case (take (length p) v) p
                 else prefix p v) ps)))))"

text \<open>Range lookups, remembered under a textual key.\<close>

definition value_within_range :: "value_env \<Rightarrow> bytes \<Rightarrow> RangeBound option \<Rightarrow> RangeBound option \<Rightarrow> bool" where
  "value_within_range V v lo hi \<longleftrightarrow>
     (case lo of None \<Rightarrow> True
      | Some b \<Rightarrow> compare_row_value V v (bound_value b) (if inclusive b then GtEq else Gt)) \<and>
     (case hi of None \<Rightarrow> True
      | Some b \<Rightarrow> compare_row_value V v (bound_value b) (if inclusive b then LtEq else Lt))"

definition hex_byte :: "byte \<Rightarrow> ustr" where
  "hex_byte b = [hex_char (unat b div 16), hex_char (unat b mod 16)]"

definition append_bound_key :: "ustr \<Rightarrow> RangeBound option \<Rightarrow> ustr" where
  "append_bound_key label bound =
     label @ lit ''='' @
     (case bound of
        None \<Rightarrow> lit ''_''
      | Some b \<Rightarrow> (if inclusive b then lit ''1'' else lit ''0'') @ lit '':'' @ concat (map hex_byte (bound_value b)))"

definition range_bounds_cache_key :: "ustr \<Rightarrow> RangeBound option \<Rightarrow> RangeBound option \<Rightarrow> ustr" where
  "range_bounds_cache_key name lo hi =
     name @ lit ''|'' @ append_bound_key (lit ''l'') lo @ lit ''|'' @ append_bound_key (lit ''u'') hi"

definition row_ids_for_field_range ::
    "acc_env \<Rightarrow> EqualityTableCacheEntry \<Rightarrow> ustr \<Rightarrow> RangeBound option \<Rightarrow> RangeBound option
       \<Rightarrow> u64 list \<times> EqualityTableCacheEntry" where
  "row_ids_for_field_range E e name lo hi =
     (let cache_key = range_bounds_cache_key name lo hi
      in case range_row_ids_cache e cache_key of
           Some cached_row_ids \<Rightarrow> (cached_row_ids, e)
         | None \<Rightarrow>
             (case row_ids_by_field_value e name of
                None \<Rightarrow> ([], e)
              | Some ps \<Rightarrow>
                  let ids = concat (map snd (filter (\<lambda>(v, _). value_within_range (acc_values E) v lo hi) ps))
                  in (ids, e\<lparr>range_row_ids_cache := (range_row_ids_cache e)(cache_key \<mapsto> ids)\<rparr>)))"

definition rows_for_field_range ::
    "acc_env \<Rightarrow> EqualityTableCacheEntry \<Rightarrow> ustr \<Rightarrow> RangeBound option \<Rightarrow> RangeBound option
       \<Rightarrow> live_row list \<times> EqualityTableCacheEntry" where
  "rows_for_field_range E e name lo hi =
     (case row_ids_for_field_range E e name lo hi of (ids, e') \<Rightarrow> (rows_of_ids e' ids, e'))"

definition within_filter :: "acc_env \<Rightarrow> row_map \<Rightarrow> RangeFilterBounds \<Rightarrow> bool" where
  "within_filter E row f =
     (case row (range_field f) of
        None \<Rightarrow> False | Some v \<Rightarrow> value_within_range (acc_values E) v (lower_bound f) (upper_bound f))"

definition rows_for_range_filters ::
    "acc_env \<Rightarrow> EqualityTableCacheEntry \<Rightarrow> RangeFilterBounds list \<Rightarrow> live_row list \<times> EqualityTableCacheEntry" where
  "rows_for_range_filters E e filters =
     (case filters of
        [] \<Rightarrow> (rows_by_id e, e)
      | anchor # remaining \<Rightarrow>
          (case row_ids_for_field_range E e (range_field anchor) (lower_bound anchor) (upper_bound anchor) of
             (ids, e') \<Rightarrow>
               if remaining = [] then (rows_of_ids e' ids, e')
               else (filter (\<lambda>(i, row). list_all (within_filter E row) remaining) (rows_of_ids e' ids), e')))"

section \<open>Mutations\<close>

definition remove_row_id_from_postings :: "bytes \<Rightarrow> u64 \<Rightarrow> postings \<Rightarrow> postings" where
  "remove_row_id_from_postings v i ps =
     (case map_of ps v of
        None \<Rightarrow> ps
      | Some ids \<Rightarrow>
          let kept_ids = filter (\<lambda>x. x \<noteq> i) ids
          in if kept_ids = [] then AList.delete v ps else AList.update v kept_ids ps)"

definition remove_row_id_from_string_index :: "ustr \<Rightarrow> u64 \<Rightarrow> u64 list TPHashSet \<Rightarrow> u64 list TPHashSet" where
  "remove_row_id_from_string_index key i index =
     (case tp_get index key of
        None \<Rightarrow> index
      | Some ids \<Rightarrow>
          let index' = tp_get_mut (filter (\<lambda>x. x \<noteq> i)) key index
          in if filter (\<lambda>x. x \<noteq> i) ids = [] then snd (tp_remove key index') else index')"

definition add_row_id_to_string_index :: "ustr \<Rightarrow> u64 \<Rightarrow> u64 list TPHashSet \<Rightarrow> u64 list TPHashSet" where
  "add_row_id_to_string_index key i index =
     (case tp_get index key of
        Some _ \<Rightarrow> tp_get_mut (\<lambda>ids. ids @ [i]) key index
      | None \<Rightarrow> snd (tp_insert key [i] index))"

text \<open>
  The loop over the fields of the row changes, for every field, the index of that field only; it is
  written as the change of all indexes at once.
\<close>

definition change_fields :: "(bytes \<Rightarrow> 'v \<Rightarrow> 'v) \<Rightarrow> row_map \<Rightarrow> (ustr \<rightharpoonup> 'v) \<Rightarrow> (ustr \<rightharpoonup> 'v)" where
  "change_fields f row m = (\<lambda>name. case row name of None \<Rightarrow> m name | Some v \<Rightarrow> map_option (f v) (m name))"

definition without_previous :: "EqualityTableCacheEntry \<Rightarrow> u64 \<Rightarrow> nat" where
  "without_previous e i =
     (case map_of (rows_by_id e) i of
        None \<Rightarrow> approx_rows_bytes e | Some previous \<Rightarrow> approx_rows_bytes e - estimate_row_map_bytes previous)"

definition apply_cached_row_insert :: "u64 \<Rightarrow> row_map \<Rightarrow> EqualityTableCacheEntry \<Rightarrow> EqualityTableCacheEntry" where
  "apply_cached_row_insert i row e =
     e\<lparr>range_row_ids_cache := Map.empty,
       approx_rows_bytes := saturate (without_previous e i + estimate_row_map_bytes row),
       rows_by_id := AList.update i row (rows_by_id e),
       row_ids_by_field_value := change_fields (\<lambda>v. push_id v i) row (row_ids_by_field_value e),
       string_index_by_field :=
         change_fields (\<lambda>v. add_row_id_to_string_index (string_key_from_value v False) i) row (string_index_by_field e),
       string_index_ci_by_field :=
         change_fields (\<lambda>v. add_row_id_to_string_index (string_key_from_value v True) i) row (string_index_ci_by_field e)\<rparr>"

definition apply_cached_row_delete :: "u64 \<Rightarrow> row_map \<Rightarrow> EqualityTableCacheEntry \<Rightarrow> EqualityTableCacheEntry" where
  "apply_cached_row_delete i row e =
     e\<lparr>range_row_ids_cache := Map.empty,
       approx_rows_bytes := without_previous e i,
       rows_by_id := AList.delete i (rows_by_id e),
       row_ids_by_field_value := change_fields (\<lambda>v. remove_row_id_from_postings v i) row (row_ids_by_field_value e),
       string_index_by_field :=
         change_fields (\<lambda>v. remove_row_id_from_string_index (string_key_from_value v False) i) row (string_index_by_field e),
       string_index_ci_by_field :=
         change_fields (\<lambda>v. remove_row_id_from_string_index (string_key_from_value v True) i) row (string_index_ci_by_field e)\<rparr>"

end
