(* ===== verification/ProbeCache.thy ===== *)
theory ProbeCache
  imports AccessorCache "HOL-Library.List_Lexorder" "HOL-Library.Product_Lexorder"
begin

text \<open>
  The cache of equality probe results in \<open>serverlib/src/engine/execution/access.rs\<close>: the rows that a
  filtered scan returned, by the filters, with the head of the log at that time.  Instants are counted in
  nanoseconds, and one call reads the clock once, as \<open>now\<close>.  The table of a stream is the list of its pairs.
  Debug output and poisoned locks are left out.
\<close>

section \<open>Entries and settings\<close>

record EqualityProbeCacheEntry =
  probe_tx_id :: u64
  cached_at :: nat
  probe_rows :: "live_row list"

type_synonym probe_key = "(ustr \<times> bytes) list"
type_synonym probe_table = "(probe_key \<times> EqualityProbeCacheEntry) list"

definition EQUALITY_PROBE_RESULT_CACHE_MAX_ENTRIES_PER_TABLE :: nat where
  "EQUALITY_PROBE_RESULT_CACHE_MAX_ENTRIES_PER_TABLE = 256"

definition EQUALITY_PROBE_RESULT_CACHE_MAX_ENTRY_ROWS :: nat where
  "EQUALITY_PROBE_RESULT_CACHE_MAX_ENTRY_ROWS = 15000"

definition EQUALITY_PROBE_RESULT_CACHE_MAX_ENTRY_BYTES :: nat where
  "EQUALITY_PROBE_RESULT_CACHE_MAX_ENTRY_BYTES = 16 * 1024 * 1024"

definition EQUALITY_PROBE_RESULT_CACHE_TTL_MS :: int where
  "EQUALITY_PROBE_RESULT_CACHE_TTL_MS = 300000"

definition equality_probe_result_cache_max_entries_per_table :: "acc_env \<Rightarrow> nat" where
  "equality_probe_result_cache_max_entries_per_table E =
     positive_usize (os_vars E) (lit ''DISTDB_EQUALITY_PROBE_RESULT_CACHE_MAX_ENTRIES'') EQUALITY_PROBE_RESULT_CACHE_MAX_ENTRIES_PER_TABLE"

definition equality_probe_result_cache_max_entry_rows :: "acc_env \<Rightarrow> nat" where
  "equality_probe_result_cache_max_entry_rows E =
     usize_allowing_zero (os_vars E) (lit ''DISTDB_EQUALITY_PROBE_RESULT_CACHE_MAX_ROWS'') EQUALITY_PROBE_RESULT_CACHE_MAX_ENTRY_ROWS"

definition equality_probe_result_cache_max_entry_bytes :: "acc_env \<Rightarrow> nat" where
  "equality_probe_result_cache_max_entry_bytes E =
     usize_allowing_zero (os_vars E) (lit ''DISTDB_EQUALITY_PROBE_RESULT_CACHE_MAX_ENTRY_BYTES'') EQUALITY_PROBE_RESULT_CACHE_MAX_ENTRY_BYTES"

text \<open>The time to live, in nanoseconds; a negative setting means none.\<close>

definition equality_probe_result_cache_ttl_ms_from_config :: "int \<Rightarrow> nat option" where
  "equality_probe_result_cache_ttl_ms_from_config ttl_ms = (if ttl_ms < 0 then None else Some (nat ttl_ms * 1000000))"

definition equality_probe_result_cache_ttl :: "acc_env \<Rightarrow> nat option" where
  "equality_probe_result_cache_ttl E =
     equality_probe_result_cache_ttl_ms_from_config
       (i64_allowing_zero (os_vars E) (lit ''DISTDB_EQUALITY_PROBE_RESULT_CACHE_TTL_MS'') EQUALITY_PROBE_RESULT_CACHE_TTL_MS)"

definition equality_probe_cache_entry_is_expired :: "nat \<Rightarrow> EqualityProbeCacheEntry \<Rightarrow> nat option \<Rightarrow> bool" where
  "equality_probe_cache_entry_is_expired now entry ttl =
     (case ttl of None \<Rightarrow> False | Some t \<Rightarrow> t \<le> now - cached_at entry)"

text \<open>The filters of a probe are a hash map, given as the list of its pairs; the key is that list sorted.\<close>

definition equality_probe_cache_key :: "(ustr \<times> bytes) list \<Rightarrow> probe_key" where
  "equality_probe_cache_key filters = sort filters"

section \<open>Lookup and insertion\<close>

definition estimate_live_rows_bytes :: "acc_env \<Rightarrow> live_row list \<Rightarrow> nat" where
  "estimate_live_rows_bytes E rows =
     saturate (saturate (length rows * row_slot_size E) + (\<Sum>(_, row) \<leftarrow> rows. estimate_row_map_bytes row))"

text \<open>
  \<open>head\<close> is the latest transaction id of the stream when its log is loaded.  The lookup drops an empty,
  outdated or expired entry and renews the stamp of the entry it returns.
\<close>

definition probe_lookup ::
    "acc_env \<Rightarrow> nat \<Rightarrow> u64 option \<Rightarrow> probe_key \<Rightarrow> probe_table \<Rightarrow> live_row list option \<times> probe_table" where
  "probe_lookup E now head key table =
     (case map_of table key of
        None \<Rightarrow> (None, table)
      | Some entry \<Rightarrow>
          if probe_rows entry = [] then (None, AList.delete key table)
          else if (case head of None \<Rightarrow> False | Some h \<Rightarrow> probe_tx_id entry \<noteq> h) then (None, AList.delete key table)
          else if equality_probe_cache_entry_is_expired now entry (equality_probe_result_cache_ttl E)
          then (None, AList.delete key table)
          else (Some (probe_rows entry), AList.update key (entry\<lparr>cached_at := now\<rparr>) table))"

text \<open>The tables of all streams, by cache scope and stream.\<close>

type_synonym probe_cache = "(nat \<times> ustr) \<rightharpoonup> probe_table"

definition cached_equality_probe_rows ::
    "acc_env \<Rightarrow> nat \<Rightarrow> u64 option \<Rightarrow> nat \<times> ustr \<Rightarrow> (ustr \<times> bytes) list \<Rightarrow> probe_cache \<Rightarrow> live_row list option \<times> probe_cache" where
  "cached_equality_probe_rows E now head table_key filters cache =
     (case cache table_key of
        None \<Rightarrow> (None, cache)
      | Some table \<Rightarrow>
          (case probe_lookup E now head (equality_probe_cache_key filters) table of
             (found, table') \<Rightarrow> (found, cache(table_key \<mapsto> table'))))"

text \<open>
  The key that \<open>min_by_key\<close> gives for the stamps: the first of the pairs with the least stamp.  The order of
  the pairs of a hash map is not known, and no property depends on it.
\<close>

fun oldest :: "probe_table \<Rightarrow> probe_key option" where
  "oldest [] = None"
| "oldest (x # xs) = Some (fst (foldl (\<lambda>a b. if cached_at (snd b) < cached_at (snd a) then b else a) x xs))"

definition probe_insert ::
    "nat \<Rightarrow> nat option \<Rightarrow> nat \<Rightarrow> probe_key \<Rightarrow> live_row list \<Rightarrow> u64 \<Rightarrow> probe_table \<Rightarrow> probe_table" where
  "probe_insert max_entries ttl now key rows head table =
     (let retained = filter (\<lambda>(_, entry). probe_rows entry \<noteq> [] \<and> probe_tx_id entry = head \<and>
                       \<not> equality_probe_cache_entry_is_expired now entry ttl) table;
          evicted = (if max_entries \<le> length retained
                     then (case oldest retained of None \<Rightarrow> retained | Some k \<Rightarrow> AList.delete k retained)
                     else retained)
      in AList.update key \<lparr>probe_tx_id = head, cached_at = now, probe_rows = rows\<rparr> evicted)"

definition maybe_cache_equality_probe_rows_with_latest_tx_id ::
    "acc_env \<Rightarrow> nat \<Rightarrow> nat \<times> ustr \<Rightarrow> (ustr \<times> bytes) list \<Rightarrow> live_row list \<Rightarrow> u64 option \<Rightarrow> probe_cache \<Rightarrow> probe_cache" where
  "maybe_cache_equality_probe_rows_with_latest_tx_id E now table_key filters rows latest cache =
     (let max_entries = equality_probe_result_cache_max_entries_per_table E;
          max_rows = equality_probe_result_cache_max_entry_rows E;
          max_bytes = equality_probe_result_cache_max_entry_bytes E;
          ttl = equality_probe_result_cache_ttl E
      in if rows = [] then cache
         else if max_entries = 0 \<or> max_rows < length rows then cache
         else if ttl = Some 0 then cache
         else if 0 < max_bytes \<and> max_bytes < estimate_live_rows_bytes E rows then cache
         else case latest of
                None \<Rightarrow> cache
              | Some head \<Rightarrow>
                  cache(table_key \<mapsto> probe_insert max_entries ttl now (equality_probe_cache_key filters) rows head
                    (case cache table_key of None \<Rightarrow> [] | Some table \<Rightarrow> table)))"

section \<open>Soundness\<close>

text \<open>
  What a user of a cache of results relies on: a lookup gives what the cache holds and adds nothing, an
  insertion adds what is inserted.  A relation between keys and results that holds of all that is in the
  cache then holds of every answer.
\<close>

locale result_cache =
  fixes lookup :: "'k \<Rightarrow> 'c \<Rightarrow> 'v option \<times> 'c"
    and store :: "'k \<Rightarrow> 'v \<Rightarrow> 'c \<Rightarrow> 'c"
    and holds :: "'c \<Rightarrow> 'k \<Rightarrow> 'v \<Rightarrow> bool"
  assumes lookup_found: "lookup k c = (Some v, c') \<Longrightarrow> holds c k v"
    and lookup_keeps: "lookup k c = (r, c') \<Longrightarrow> holds c' k' v' \<Longrightarrow> holds c k' v'"
    and store_holds: "holds (store k v c) k' v' \<Longrightarrow> k' = k \<and> v' = v \<or> holds c k' v'"
begin

lemma lookup_sound:
  assumes "\<And>k v. holds c k v \<Longrightarrow> P k v" "lookup k c = (r, c')"
  shows "r = Some v \<Longrightarrow> P k v" and "holds c' k' v' \<Longrightarrow> P k' v'"
  using assms lookup_found lookup_keeps by blast+

lemma store_sound:
  assumes "\<And>k v. holds c k v \<Longrightarrow> P k v" "P k v"
  shows "holds (store k v c) k' v' \<Longrightarrow> P k' v'"
  using assms store_holds by blast

end

definition probe_holds :: "u64 \<Rightarrow> probe_table \<Rightarrow> probe_key \<Rightarrow> live_row list \<Rightarrow> bool" where
  "probe_holds head table key rows \<longleftrightarrow> (\<exists>e. (key, e) \<in> set table \<and> probe_tx_id e = head \<and> probe_rows e = rows)"

lemma probe_holds_subset:
  assumes "set table' \<subseteq> insert (key, x) (set table)" "probe_holds head table' key' rows'"
  shows "key' = key \<and> probe_tx_id x = head \<and> rows' = probe_rows x \<or> probe_holds head table key' rows'"
proof -
  obtain e where e: "(key', e) \<in> set table'" "probe_tx_id e = head" "probe_rows e = rows'"
    using assms(2) by (auto simp: probe_holds_def)
  then have "key' = key \<and> e = x \<or> (key', e) \<in> set table" using assms(1) by blast
  with e show ?thesis by (auto simp: probe_holds_def)
qed

lemma set_alist_update: "set (AList.update k v xs) \<subseteq> insert (k, v) (set xs)"
  by (induction xs) auto

lemma set_alist_delete: "set (AList.delete k xs) \<subseteq> set xs"
  by (auto simp: AList.delete_eq)

lemma probe_lookup_cases:
  assumes "probe_lookup E now head key table = (r, table')"
  obtains "r = None" "set table' \<subseteq> set table"
  | e where "r = Some (probe_rows e)" "(key, e) \<in> set table" "probe_rows e \<noteq> []" "\<forall>h. head = Some h \<longrightarrow> probe_tx_id e = h"
      "\<not> equality_probe_cache_entry_is_expired now e (equality_probe_result_cache_ttl E)"
      "set table' \<subseteq> insert (key, e\<lparr>cached_at := now\<rparr>) (set table)"
proof (cases "map_of table key")
  case None
  with assms that show ?thesis by (simp add: probe_lookup_def)
next
  case (Some e)
  with assms that set_alist_update [of key "e\<lparr>cached_at := now\<rparr>" table] set_alist_delete [of key table] map_of_SomeD [OF Some]
  show ?thesis by (auto simp: probe_lookup_def split: if_splits option.splits)
qed

lemma probe_insert_set:
  "set (probe_insert max_entries ttl now key rows head table) \<subseteq>
     insert (key, \<lparr>probe_tx_id = head, cached_at = now, probe_rows = rows\<rparr>) (set table)"
proof -
  let ?new = "\<lparr>probe_tx_id = head, cached_at = now, probe_rows = rows\<rparr>"
  let ?kept = "filter (\<lambda>(_, entry). probe_rows entry \<noteq> [] \<and> probe_tx_id entry = head \<and>
                 \<not> equality_probe_cache_entry_is_expired now entry ttl) table"
  let ?room = "if max_entries \<le> length ?kept
               then (case oldest ?kept of None \<Rightarrow> ?kept | Some k \<Rightarrow> AList.delete k ?kept) else ?kept"
  have "set ?room \<subseteq> set ?kept" using set_alist_delete [of _ ?kept] by (auto split: option.split)
  also have "\<dots> \<subseteq> set table" by auto
  finally have "insert (key, ?new) (set ?room) \<subseteq> insert (key, ?new) (set table)" by (rule insert_mono)
  with set_alist_update [of key ?new ?room] show ?thesis
    unfolding probe_insert_def Let_def by (rule subset_trans)
qed

interpretation probe: result_cache "probe_lookup E now (Some head)"
    "\<lambda>key rows. probe_insert max_entries ttl now key rows head" "probe_holds head"
  for E now head max_entries ttl
proof
  fix key table r table' key' rows' rows
  show "probe_holds head table key rows" if "probe_lookup E now (Some head) key table = (Some rows, table')"
    using that by (cases rule: probe_lookup_cases) (auto simp: probe_holds_def)
  show "probe_holds head table key' rows'"
    if looked: "probe_lookup E now (Some head) key table = (r, table')" and held: "probe_holds head table' key' rows'"
    using looked
  proof (cases rule: probe_lookup_cases)
    case (2 e)
    with probe_holds_subset [OF 2(6) held] show ?thesis by (auto simp: probe_holds_def)
  qed (use held in \<open>auto simp: probe_holds_def\<close>)
  show "key' = key \<and> rows' = rows \<or> probe_holds head table key' rows'"
    if "probe_holds head (probe_insert max_entries ttl now key rows head table) key' rows'"
    using probe_holds_subset [OF probe_insert_set that] by auto
qed

section \<open>Bounds\<close>

lemma length_alist_update: "length (AList.update k v xs) = (if k \<in> fst ` set xs then length xs else Suc (length xs))"
  by (induction xs) auto

lemma foldl_choice: "(\<And>a b. f a b = a \<or> f a b = b) \<Longrightarrow> foldl f x xs \<in> insert x (set xs)"
proof (induction xs arbitrary: x)
  case (Cons y ys)
  from Cons.IH [OF Cons.prems, of "f x y"] Cons.prems [of x y] show ?case by auto
qed simp

lemma oldest_mem: "oldest table = Some k \<Longrightarrow> k \<in> fst ` set table"
proof (cases table)
  case (Cons x xs)
  assume k: "oldest table = Some k"
  let ?f = "\<lambda>a b. if cached_at (snd b) < cached_at (snd a) then b else a"
  have "foldl ?f x xs \<in> insert x (set xs)" by (rule foldl_choice) auto
  moreover have "k = fst (foldl ?f x xs)" using k Cons by simp
  ultimately show ?thesis using Cons by (simp only: list.set imageI)
qed simp

lemma length_alist_delete: "k \<in> fst ` set xs \<Longrightarrow> length (AList.delete k xs) < length xs"
proof -
  assume "k \<in> fst ` set xs"
  then obtain y where "y \<in> set xs" "k = fst y" by (rule imageE)
  then show ?thesis unfolding AList.delete_eq by (intro length_filter_less [of y]) (simp_all add: case_prod_unfold)
qed

lemma probe_insert_length:
  assumes "0 < max_entries" "length table \<le> max_entries"
  shows "length (probe_insert max_entries ttl now key rows head table) \<le> max_entries"
proof -
  let ?kept = "filter (\<lambda>(_, entry). probe_rows entry \<noteq> [] \<and> probe_tx_id entry = head \<and>
                 \<not> equality_probe_cache_entry_is_expired now entry ttl) table"
  let ?room = "if max_entries \<le> length ?kept
               then (case oldest ?kept of None \<Rightarrow> ?kept | Some k \<Rightarrow> AList.delete k ?kept) else ?kept"
  have "length ?kept \<le> max_entries" using assms(2) length_filter_le le_trans by blast
  moreover have "oldest ?kept \<noteq> None" if "max_entries \<le> length ?kept" using that assms(1) by (cases ?kept) auto
  ultimately have "length ?room < max_entries"
    using length_alist_delete [OF oldest_mem, of ?kept]
    by (cases "oldest ?kept"; cases "max_entries \<le> length ?kept") (simp_all add: less_le_trans)
  then show ?thesis unfolding probe_insert_def Let_def by (simp add: length_alist_update)
qed

lemma probe_lookup_length:
  assumes "probe_lookup E now head key table = (r, table')"
  shows "length table' \<le> length table"
proof (cases "map_of table key")
  case (Some e)
  then have "key \<in> fst ` set table" by (metis map_of_eq_None_iff option.distinct(1))
  then have "length (AList.update key x table) = length table" "length (AList.delete key table) \<le> length table" for x
    by (simp_all add: length_alist_update AList.delete_eq)
  with Some assms show ?thesis by (auto simp: probe_lookup_def simp del: AList.length_delete_le split: if_splits)
qed (use assms in \<open>simp add: probe_lookup_def\<close>)

end
