(* ===== verification/Checkpoints.thy ===== *)
theory Checkpoints
  imports ProbeCache
begin

text \<open>
  \<open>serverlib/src/engine/database/indexing/runtime_index_snapshot.rs\<close>, reading: the files beside the log in
  which the rows, the number of rows and the accessor entry of a table are saved, and the tests a file
  has to pass before it is used. A file names its table, the fingerprint of the schema, and size and
  modification time of the log it was made from. The files are arguments; that a file over the size limit
  is removed, and that a large compressed one is written back uncompressed, changes later arguments.
\<close>

section \<open>What is saved\<close>

record TableLiveRowCheckpoint =
  ckpt_table_id :: ustr
  ckpt_latest_tx_id :: u64
  ckpt_schema_fingerprint :: ustr
  ckpt_wal_size_bytes :: u64
  ckpt_wal_modified_epoch_ms :: u64
  ckpt_live_rows :: "live_row list"

record TableLiveRowCountCheckpoint =
  cnt_table_id :: ustr
  cnt_latest_tx_id :: u64
  cnt_schema_fingerprint :: ustr
  cnt_wal_size_bytes :: u64
  cnt_wal_modified_epoch_ms :: u64
  cnt_live_row_count :: nat

text \<open>
  The lists by field of a cache snapshot have one element per field of the entry and are maps here; the
  lists by value keep their order.
\<close>

record EqualityTableCacheSnapshot =
  snap_latest_tx_id :: u64
  snap_rows_by_id :: "live_row list"
  snap_row_ids_by_field_value :: "ustr \<rightharpoonup> (bytes \<times> u64 list) list"
  snap_string_index_by_field :: "ustr \<rightharpoonup> (ustr \<times> u64 list) list"
  snap_string_index_ci_by_field :: "ustr \<rightharpoonup> (ustr \<times> u64 list) list"

record TableAccessorCacheSnapshot =
  acs_table_id :: ustr
  acs_latest_tx_id :: u64
  acs_schema_fingerprint :: ustr
  acs_wal_size_bytes :: u64
  acs_wal_modified_epoch_ms :: u64
  acs_live_row_count :: nat
  acs_warm_fields :: "ustr list"
  acs_cache :: EqualityTableCacheSnapshot

text \<open>
  The files of a directory by stream, and what the file system says of the log of a stream: its size and
  its modification time in milliseconds.
\<close>

record checkpoint_files =
  row_checkpoint_file :: "ustr \<Rightarrow> bytes option"
  count_checkpoint_file :: "ustr \<Rightarrow> bytes option"
  accessor_snapshot_file :: "ustr \<Rightarrow> bytes option"
  wal_stream_fingerprint :: "ustr \<Rightarrow> (u64 \<times> u64) option"

text \<open>
  The decoders of bincode, over an inflated stream and over plain bytes, its encoder of schemas, and MD5 in
  hexadecimal.
\<close>

record 'c snapshot_codec =
  de_deflated :: "bytes \<Rightarrow> 'c option"
  de_plain :: "bytes \<Rightarrow> 'c option"

record checkpoint_env =
  row_checkpoint_codec :: "TableLiveRowCheckpoint snapshot_codec"
  count_checkpoint_codec :: "TableLiveRowCountCheckpoint snapshot_codec"
  accessor_snapshot_codec :: "TableAccessorCacheSnapshot snapshot_codec"
  ser_schema :: "TableSchema \<Rightarrow> bytes option"
  fingerprint_md5 :: "bytes \<Rightarrow> ustr"

section \<open>Reading a file\<close>

definition LIVE_ROW_CHECKPOINT_MAX_BYTES_DEFAULT :: nat where
  "LIVE_ROW_CHECKPOINT_MAX_BYTES_DEFAULT = 256 * 1024 * 1024"

definition live_row_checkpoint_max_bytes :: "acc_env \<Rightarrow> nat" where
  "live_row_checkpoint_max_bytes E =
     positive_u64 (os_vars E) (lit ''DISTDB_LIVE_ROW_CHECKPOINT_MAX_BYTES'') LIVE_ROW_CHECKPOINT_MAX_BYTES_DEFAULT"

text \<open>The second component says whether the payload was not compressed.\<close>

definition decode_snapshot_payload :: "'c snapshot_codec \<Rightarrow> bytes \<Rightarrow> ('c \<times> bool) option" where
  "decode_snapshot_payload codec payload =
     (case de_deflated codec payload of
        Some decoded \<Rightarrow> Some (decoded, False)
      | None \<Rightarrow> (case de_plain codec payload of Some decoded \<Rightarrow> Some (decoded, True) | None \<Rightarrow> None))"

definition read_snapshot_file :: "'c snapshot_codec \<Rightarrow> bytes option \<Rightarrow> 'c option" where
  "read_snapshot_file codec file =
     (case file of
        None \<Rightarrow> None
      | Some bs \<Rightarrow>
          (case verify_header Entity bs of
             Inl _ \<Rightarrow> None
           | Inr _ \<Rightarrow>
               if length bs \<le> HEADER_SIZE then None
               else map_option fst (decode_snapshot_payload codec (drop HEADER_SIZE bs))))"

definition table_schema_fingerprint_for_parts :: "checkpoint_env \<Rightarrow> ustr \<Rightarrow> TableSchema \<Rightarrow> ustr option" where
  "table_schema_fingerprint_for_parts C table_id schema =
     map_option (\<lambda>encoded. stable_id (fingerprint_md5 C) [table_id, concat (map hex_byte encoded)]) (ser_schema C schema)"

text \<open>The three tests on table, schema and log that all readers share.\<close>

definition made_from ::
    "checkpoint_env \<Rightarrow> ustr \<Rightarrow> TableSchema \<Rightarrow> (u64 \<times> u64) option \<Rightarrow> ustr \<Rightarrow> ustr \<Rightarrow> u64 \<Rightarrow> u64 \<Rightarrow> bool" where
  "made_from C table_id schema wal_fingerprint saved_table_id saved_schema_fingerprint saved_size saved_modified =
     (case table_schema_fingerprint_for_parts C table_id schema of
        None \<Rightarrow> False
      | Some schema_fingerprint \<Rightarrow>
          saved_table_id = table_id \<and> saved_schema_fingerprint = schema_fingerprint \<and>
          (case wal_fingerprint of
             None \<Rightarrow> False
           | Some (wal_size_bytes, wal_modified_epoch_ms) \<Rightarrow>
               saved_size = wal_size_bytes \<and> saved_modified = wal_modified_epoch_ms))"

definition load_live_row_checkpoint_rows ::
    "acc_env \<Rightarrow> checkpoint_env \<Rightarrow> checkpoint_files \<Rightarrow> ustr \<Rightarrow> ustr \<Rightarrow> TableSchema \<Rightarrow> (u64 \<times> live_row list) option" where
  "load_live_row_checkpoint_rows E C dir stream table_id schema =
     (case row_checkpoint_file dir stream of
        None \<Rightarrow> None
      | Some bs \<Rightarrow>
          if live_row_checkpoint_max_bytes E < length bs then None
          else case read_snapshot_file (row_checkpoint_codec C) (Some bs) of
                 None \<Rightarrow> None
               | Some c \<Rightarrow>
                   if made_from C table_id schema (wal_stream_fingerprint dir stream) (ckpt_table_id c)
                        (ckpt_schema_fingerprint c) (ckpt_wal_size_bytes c) (ckpt_wal_modified_epoch_ms c)
                   then Some (ckpt_latest_tx_id c, ckpt_live_rows c) else None)"

definition load_live_row_count_checkpoint ::
    "checkpoint_env \<Rightarrow> checkpoint_files \<Rightarrow> ustr \<Rightarrow> ustr \<Rightarrow> TableSchema \<Rightarrow> (u64 \<times> nat) option" where
  "load_live_row_count_checkpoint C dir stream table_id schema =
     (case read_snapshot_file (count_checkpoint_codec C) (count_checkpoint_file dir stream) of
        None \<Rightarrow> None
      | Some c \<Rightarrow>
          if made_from C table_id schema (wal_stream_fingerprint dir stream) (cnt_table_id c)
               (cnt_schema_fingerprint c) (cnt_wal_size_bytes c) (cnt_wal_modified_epoch_ms c)
          then Some (cnt_latest_tx_id c, cnt_live_row_count c) else None)"

definition load_accessor_cache_snapshot ::
    "checkpoint_env \<Rightarrow> checkpoint_files \<Rightarrow> ustr \<Rightarrow> TableSchema \<Rightarrow> ustr \<Rightarrow> (u64 \<times> u64) option \<Rightarrow> ustr list
       \<Rightarrow> TableAccessorCacheSnapshot option" where
  "load_accessor_cache_snapshot C dir table_id schema stream wal_fingerprint warm_fields =
     (case read_snapshot_file (accessor_snapshot_codec C) (accessor_snapshot_file dir stream) of
        None \<Rightarrow> None
      | Some s \<Rightarrow>
          if \<not> made_from C table_id schema wal_fingerprint (acs_table_id s) (acs_schema_fingerprint s)
                 (acs_wal_size_bytes s) (acs_wal_modified_epoch_ms s) then None
          else if \<not> list_all (\<lambda>name. list_ex (\<lambda>saved. saved = name) (acs_warm_fields s)) warm_fields then None
          else if 0 < acs_live_row_count s \<and> snap_rows_by_id (acs_cache s) = [] then None
          else Some s)"

section \<open>Files of any age\<close>

text \<open>
  What the fingerprint tests are good for. Let \<open>log_of\<close> say which log a pair of size and modification time
  belongs to, and let every file of the table hold the rows of the log it was made from, or for a snapshot
  that was saved without its rows their number. Then whatever passes the tests holds the rows of the log as
  it is now, however old the files are.
\<close>

definition rows_saved :: "(entries \<Rightarrow> u64 \<times> live_row list) \<Rightarrow> entries \<Rightarrow> TableLiveRowCheckpoint \<Rightarrow> bool" where
  "rows_saved view rs c \<longleftrightarrow>
     ckpt_latest_tx_id c = fst (view rs) \<and> mset (ckpt_live_rows c) = mset (snd (view rs))"

definition snapshot_saved :: "(entries \<Rightarrow> u64 \<times> live_row list) \<Rightarrow> entries \<Rightarrow> TableAccessorCacheSnapshot \<Rightarrow> bool" where
  "snapshot_saved view rs s \<longleftrightarrow>
     acs_latest_tx_id s = fst (view rs) \<and> acs_live_row_count s = length (snd (view rs)) \<and>
     (snap_rows_by_id (acs_cache s) = [] \<or> mset (snap_rows_by_id (acs_cache s)) = mset (snd (view rs)))"

definition files_saved ::
    "checkpoint_env \<Rightarrow> checkpoint_files \<Rightarrow> (u64 \<times> u64 \<Rightarrow> entries) \<Rightarrow> (entries \<Rightarrow> u64 \<times> live_row list)
       \<Rightarrow> ustr \<Rightarrow> ustr \<Rightarrow> TableSchema \<Rightarrow> bool" where
  "files_saved C dir log_of view stream table_id schema \<longleftrightarrow>
     (case read_snapshot_file (row_checkpoint_codec C) (row_checkpoint_file dir stream) of
        None \<Rightarrow> True
      | Some c \<Rightarrow>
          ckpt_table_id c = table_id \<and>
          table_schema_fingerprint_for_parts C table_id schema = Some (ckpt_schema_fingerprint c) \<longrightarrow>
          rows_saved view (log_of (ckpt_wal_size_bytes c, ckpt_wal_modified_epoch_ms c)) c) \<and>
     (case read_snapshot_file (accessor_snapshot_codec C) (accessor_snapshot_file dir stream) of
        None \<Rightarrow> True
      | Some s \<Rightarrow>
          acs_table_id s = table_id \<and>
          table_schema_fingerprint_for_parts C table_id schema = Some (acs_schema_fingerprint s) \<longrightarrow>
          snapshot_saved view (log_of (acs_wal_size_bytes s, acs_wal_modified_epoch_ms s)) s)"

lemma made_fromD:
  assumes "made_from C table_id schema fp t f sz modified"
  shows "t = table_id" "table_schema_fingerprint_for_parts C table_id schema = Some f" "fp = Some (sz, modified)"
  using assms by (auto simp: made_from_def split: option.splits)

lemma checkpoint_rows_current:
  assumes "files_saved C dir log_of view stream table_id schema"
    and "\<And>fp. wal_stream_fingerprint dir stream = Some fp \<Longrightarrow> log_of fp = rs"
    and "load_live_row_checkpoint_rows E C dir stream table_id schema = Some (l, loaded)"
  shows "l = fst (view rs)" "mset loaded = mset (snd (view rs))"
proof -
  obtain c where c: "read_snapshot_file (row_checkpoint_codec C) (row_checkpoint_file dir stream) = Some c"
      "made_from C table_id schema (wal_stream_fingerprint dir stream) (ckpt_table_id c)
         (ckpt_schema_fingerprint c) (ckpt_wal_size_bytes c) (ckpt_wal_modified_epoch_ms c)"
      "l = ckpt_latest_tx_id c" "loaded = ckpt_live_rows c"
    using assms(3) by (auto simp: load_live_row_checkpoint_rows_def split: option.splits if_splits)
  note m = made_fromD [OF c(2)]
  have "rows_saved view rs c" using assms(1) c(1) m(1,2) assms(2) [OF m(3)] by (auto simp: files_saved_def)
  with c show "l = fst (view rs)" "mset loaded = mset (snd (view rs))" by (simp_all add: rows_saved_def)
qed

lemma accessor_snapshot_current:
  assumes "files_saved C dir log_of view stream table_id schema"
    and "\<And>fp. wal_stream_fingerprint dir stream = Some fp \<Longrightarrow> log_of fp = rs"
    and "load_accessor_cache_snapshot C dir table_id schema stream (wal_stream_fingerprint dir stream) names = Some s"
  shows "acs_latest_tx_id s = fst (view rs)" "mset (snap_rows_by_id (acs_cache s)) = mset (snd (view rs))"
proof -
  have s: "read_snapshot_file (accessor_snapshot_codec C) (accessor_snapshot_file dir stream) = Some s"
      "made_from C table_id schema (wal_stream_fingerprint dir stream) (acs_table_id s)
         (acs_schema_fingerprint s) (acs_wal_size_bytes s) (acs_wal_modified_epoch_ms s)"
      "\<not> (0 < acs_live_row_count s \<and> snap_rows_by_id (acs_cache s) = [])"
    using assms(3) by (auto simp: load_accessor_cache_snapshot_def split: option.splits if_splits)
  note m = made_fromD [OF s(2)]
  have "snapshot_saved view rs s" using assms(1) s(1) m(1,2) assms(2) [OF m(3)] by (auto simp: files_saved_def)
  with s(3) show "acs_latest_tx_id s = fst (view rs)" "mset (snap_rows_by_id (acs_cache s)) = mset (snd (view rs))"
    by (auto simp: snapshot_saved_def)
qed

end
