(* ===== verification/AccessorStore.thy ===== *)
theory AccessorStore
  imports Checkpoints
begin

text \<open>
  The caches of \<open>serverlib/src/engine/execution/access.rs\<close> over all tables, and the loaders that go
  through them: row counts, accessor entries and probe results by cache scope and stream, beside the
  log manager.  The checkpoint and snapshot files of a table are a parameter of every call, so a call makes
  no assumption on what earlier calls saved there.  The load statistics, log lines and poisoned locks are
  left out.
\<close>

section \<open>State and environment\<close>

record access_env =
  log_env :: wal_env
  log_io :: io_outcomes
  rows_env :: row_env
  cache_env :: acc_env
  cache_scope_id :: nat
  clock_now :: nat
  codecs :: checkpoint_env
  saved :: checkpoint_files

record access_state =
  wal :: ConcurrentWalManager
  live_row_count_cache :: "(nat \<times> ustr) \<rightharpoonup> (u64 \<times> nat)"
  equality_table_cache :: "(nat \<times> ustr) \<rightharpoonup> EqualityTableCacheEntry"
  equality_probe_result_cache :: probe_cache

section \<open>Settings\<close>

definition ACCESSOR_COLD_DIRECT_SCAN_MIN_ROWS :: nat where
  "ACCESSOR_COLD_DIRECT_SCAN_MIN_ROWS = 250000"

definition ACCESSOR_SNAPSHOT_MAX_LIVE_ROWS :: nat where
  "ACCESSOR_SNAPSHOT_MAX_LIVE_ROWS = 150000"

definition accessor_cold_direct_scan_min_rows :: "acc_env \<Rightarrow> nat" where
  "accessor_cold_direct_scan_min_rows E =
     positive_usize (os_vars E) (lit ''DISTDB_ACCESSOR_COLD_DIRECT_SCAN_MIN_ROWS'') ACCESSOR_COLD_DIRECT_SCAN_MIN_ROWS"

definition accessor_snapshot_max_live_rows :: "acc_env \<Rightarrow> nat" where
  "accessor_snapshot_max_live_rows E =
     positive_usize (os_vars E) (lit ''DISTDB_ACCESSOR_SNAPSHOT_MAX_LIVE_ROWS'') ACCESSOR_SNAPSHOT_MAX_LIVE_ROWS"

section \<open>Entries by scope and stream\<close>

text \<open>The nested maps are maps from pairs; an empty map of a scope cannot be told from a missing one.\<close>

definition equality_cache_entry :: "nat \<Rightarrow> ustr \<Rightarrow> access_state \<Rightarrow> EqualityTableCacheEntry option" where
  "equality_cache_entry scope table_id st = equality_table_cache st (scope, table_id)"

definition insert_equality_cache_entry :: "nat \<Rightarrow> ustr \<Rightarrow> EqualityTableCacheEntry \<Rightarrow> access_state \<Rightarrow> access_state" where
  "insert_equality_cache_entry scope table_id entry st =
     st\<lparr>equality_table_cache := (equality_table_cache st)((scope, table_id) \<mapsto> entry)\<rparr>"

definition cached_live_row_count :: "nat \<Rightarrow> ustr \<Rightarrow> access_state \<Rightarrow> (u64 \<times> nat) option" where
  "cached_live_row_count scope table_id st = live_row_count_cache st (scope, table_id)"

definition cache_live_row_count :: "nat \<Rightarrow> ustr \<Rightarrow> u64 \<Rightarrow> nat \<Rightarrow> access_state \<Rightarrow> access_state" where
  "cache_live_row_count scope table_id head n st =
     st\<lparr>live_row_count_cache := (live_row_count_cache st)((scope, table_id) \<mapsto> (head, n))\<rparr>"

definition clear_cached_table_state :: "nat \<Rightarrow> ustr \<Rightarrow> ustr \<Rightarrow> access_state \<Rightarrow> access_state" where
  "clear_cached_table_state scope table_id stream_id st =
     st\<lparr>live_row_count_cache := (live_row_count_cache st)((scope, table_id) := None),
       equality_table_cache := (equality_table_cache st)((scope, table_id) := None),
       equality_probe_result_cache := (equality_probe_result_cache st)((scope, stream_id) := None)\<rparr>"

definition loaded_head :: "access_env \<Rightarrow> ustr \<Rightarrow> access_state \<Rightarrow> u64 option" where
  "loaded_head A stream st = latest_transaction_id_if_loaded (log_env A) stream (wal st)"

definition cache_entry_matches_loaded_wal_head :: "access_env \<Rightarrow> ustr \<Rightarrow> u64 \<Rightarrow> access_state \<Rightarrow> bool" where
  "cache_entry_matches_loaded_wal_head A stream entry_latest_tx_id st =
     (case loaded_head A stream st of None \<Rightarrow> True | Some tx \<Rightarrow> tx = entry_latest_tx_id)"

definition with_matching_equality_cache_entry ::
    "access_env \<Rightarrow> ustr \<Rightarrow> (EqualityTableCacheEntry \<Rightarrow> 'r \<times> EqualityTableCacheEntry) \<Rightarrow> access_state
       \<Rightarrow> 'r option \<times> access_state" where
  "with_matching_equality_cache_entry A stream f st =
     (case equality_cache_entry (cache_scope_id A) stream st of
        None \<Rightarrow> (None, st)
      | Some entry \<Rightarrow>
          if \<not> cache_entry_matches_loaded_wal_head A stream (latest_tx_id entry) st then (None, st)
          else case f entry of (r, entry') \<Rightarrow> (Some r, insert_equality_cache_entry (cache_scope_id A) stream entry' st))"

definition insert_scoped_equality_cache_entry ::
    "access_env \<Rightarrow> ustr \<Rightarrow> EqualityTableCacheEntry \<Rightarrow> access_state \<Rightarrow> access_state" where
  "insert_scoped_equality_cache_entry A stream entry st =
     (case enforce_entry_row_budget (cache_env A) entry of
        (False, _) \<Rightarrow> st
      | (True, entry') \<Rightarrow> insert_equality_cache_entry (cache_scope_id A) stream entry' st)"

section \<open>Warming and mutation\<close>

definition warm_equality_cache_from_live_rows ::
    "acc_env \<Rightarrow> nat \<Rightarrow> ustr \<Rightarrow> TableSchema \<Rightarrow> u64 \<Rightarrow> live_row list \<Rightarrow> ustr list \<Rightarrow> access_state \<Rightarrow> access_state" where
  "warm_equality_cache_from_live_rows E scope table_id schema head loaded field_names st =
     (let names = normalize_distinct_field_names field_names
      in if field_names = [] \<or> names = [] then st
         else let built = (if 1 < warm_workers E \<and> EQUALITY_WARM_PARALLEL_MIN_ROWS \<le> length loaded
                           then build_warm_equality_cache_parallel E names loaded (warm_workers E)
                           else build_warm_equality_cache_serial E names loaded);
                  warmed = warm_string_like_accessors names schema built;
                  entry = warmed\<lparr>latest_tx_id := head, approx_rows_bytes := estimate_rows_by_id_bytes E (rows_by_id warmed)\<rparr>
              in case enforce_entry_row_budget E entry of
                   (False, _) \<Rightarrow> st
                 | (True, entry') \<Rightarrow> insert_equality_cache_entry scope table_id entry' st)"

definition warm_string_like_cache_for_fields ::
    "nat \<Rightarrow> ustr \<Rightarrow> TableSchema \<Rightarrow> ustr list \<Rightarrow> access_state \<Rightarrow> access_state" where
  "warm_string_like_cache_for_fields scope table_id schema field_names st =
     (let names = normalize_distinct_field_names field_names
      in if names = [] then st
         else case equality_cache_entry scope table_id st of
                None \<Rightarrow> st
              | Some entry \<Rightarrow> insert_equality_cache_entry scope table_id (warm_string_like_accessors names schema entry) st)"

text \<open>The change of a cached entry by one row, by the kind of the record.\<close>

definition apply_row_of_kind ::
    "TransactionKind \<Rightarrow> u64 \<Rightarrow> row_map \<Rightarrow> EqualityTableCacheEntry \<Rightarrow> EqualityTableCacheEntry" where
  "apply_row_of_kind kind row_id row entry =
     (case kind of
        Insert \<Rightarrow> apply_cached_row_insert row_id row entry
      | Update \<Rightarrow> apply_cached_row_insert row_id row entry
      | Delete \<Rightarrow> apply_cached_row_delete row_id row entry
      | _ \<Rightarrow> entry)"

definition apply_equality_cache_row_mutation ::
    "acc_env \<Rightarrow> nat \<Rightarrow> ustr \<Rightarrow> u64 \<Rightarrow> TransactionKind \<Rightarrow> u64 \<Rightarrow> row_map \<Rightarrow> access_state \<Rightarrow> access_state" where
  "apply_equality_cache_row_mutation E scope table_id head kind row_id row st =
     (case equality_cache_entry scope table_id st of
        None \<Rightarrow> st
      | Some entry \<Rightarrow>
          insert_equality_cache_entry scope table_id
            (snd (enforce_entry_row_budget E (apply_row_of_kind kind row_id row (entry\<lparr>latest_tx_id := head\<rparr>)))) st)"

definition saturating_u64_add :: "u64 \<Rightarrow> nat \<Rightarrow> u64" where
  "saturating_u64_add i n = (if unat i + n < 2 ^ 64 then i + of_nat n else - 1)"

definition apply_equality_cache_row_mutation_batch ::
    "acc_env \<Rightarrow> nat \<Rightarrow> ustr \<Rightarrow> u64 \<Rightarrow> TransactionKind \<Rightarrow> u64 \<Rightarrow> row_map list \<Rightarrow> access_state \<Rightarrow> access_state" where
  "apply_equality_cache_row_mutation_batch E scope table_id head kind first_row_id row_maps st =
     (if row_maps = [] then st
      else case equality_cache_entry scope table_id st of
             None \<Rightarrow> st
           | Some entry \<Rightarrow>
               insert_equality_cache_entry scope table_id
                 (snd (enforce_entry_row_budget E
                   (fold (\<lambda>(offset, row). apply_row_of_kind kind (saturating_u64_add first_row_id offset) row)
                     (zip [0..<length row_maps] row_maps) (entry\<lparr>latest_tx_id := head\<rparr>)))) st)"

section \<open>Snapshots of an entry\<close>

definition cache_snapshot_from_entry :: "EqualityTableCacheEntry \<Rightarrow> EqualityTableCacheSnapshot" where
  "cache_snapshot_from_entry entry =
     \<lparr>snap_latest_tx_id = latest_tx_id entry,
      snap_rows_by_id = rows_by_id entry,
      snap_row_ids_by_field_value = row_ids_by_field_value entry,
      snap_string_index_by_field = map_option tp_iter \<circ> string_index_by_field entry,
      snap_string_index_ci_by_field = map_option tp_iter \<circ> string_index_ci_by_field entry\<rparr>"

definition index_from_entries :: "(ustr \<times> u64 list) list \<Rightarrow> u64 list TPHashSet" where
  "index_from_entries keyed = fold (\<lambda>(key, ids) index. snd (tp_insert key ids index)) keyed tp_new"

text \<open>Serial and parallel branch build the map of every field alike.\<close>

definition build_row_ids_by_field_value_from_snapshot ::
    "(ustr \<rightharpoonup> (bytes \<times> u64 list) list) \<Rightarrow> (ustr \<rightharpoonup> postings)" where
  "build_row_ids_by_field_value_from_snapshot by_field =
     map_option (\<lambda>ps. fold (\<lambda>(v, ids). AList.update v ids) ps []) \<circ> by_field"

definition cache_entry_from_snapshot :: "acc_env \<Rightarrow> EqualityTableCacheSnapshot \<Rightarrow> EqualityTableCacheEntry" where
  "cache_entry_from_snapshot E snapshot =
     (let rows = build_rows_by_id_from_snapshot E (snap_rows_by_id snapshot)
      in \<lparr>latest_tx_id = snap_latest_tx_id snapshot, rows_by_id = rows,
          approx_rows_bytes = estimate_rows_by_id_bytes E rows,
          row_ids_by_field_value = build_row_ids_by_field_value_from_snapshot (snap_row_ids_by_field_value snapshot),
          string_index_by_field = map_option index_from_entries \<circ> snap_string_index_by_field snapshot,
          string_index_ci_by_field = map_option index_from_entries \<circ> snap_string_index_ci_by_field snapshot,
          range_row_ids_cache = Map.empty\<rparr>)"

definition snapshot_equality_cache :: "nat \<Rightarrow> ustr \<Rightarrow> access_state \<Rightarrow> EqualityTableCacheSnapshot option" where
  "snapshot_equality_cache scope table_id st = map_option cache_snapshot_from_entry (equality_cache_entry scope table_id st)"

definition restore_equality_cache_from_snapshot ::
    "acc_env \<Rightarrow> nat \<Rightarrow> ustr \<Rightarrow> EqualityTableCacheSnapshot \<Rightarrow> access_state \<Rightarrow> access_state" where
  "restore_equality_cache_from_snapshot E scope table_id snapshot st =
     insert_equality_cache_entry scope table_id (cache_entry_from_snapshot E snapshot) st"

section \<open>Loading the rows of a table\<close>

definition load_live_rows_from_accessor_snapshot ::
    "access_env \<Rightarrow> ustr \<Rightarrow> ustr \<Rightarrow> TableSchema \<Rightarrow> ustr list \<Rightarrow> (u64 \<times> live_row list) option" where
  "load_live_rows_from_accessor_snapshot A stream table_id schema warm_fields =
     map_option (\<lambda>s. (acs_latest_tx_id s, snap_rows_by_id (acs_cache s)))
       (load_accessor_cache_snapshot (codecs A) (saved A) table_id schema stream
          (wal_stream_fingerprint (saved A) stream) warm_fields)"

text \<open>The two readers of \<open>RuntimeIndexSnapshotService\<close> as the loaders call them.\<close>

abbreviation checkpoint_rows :: "access_env \<Rightarrow> ustr \<Rightarrow> ustr \<Rightarrow> TableSchema \<Rightarrow> (u64 \<times> live_row list) option" where
  "checkpoint_rows A \<equiv> load_live_row_checkpoint_rows (cache_env A) (codecs A) (saved A)"

abbreviation checkpoint_count :: "access_env \<Rightarrow> ustr \<Rightarrow> ustr \<Rightarrow> TableSchema \<Rightarrow> (u64 \<times> nat) option" where
  "checkpoint_count A \<equiv> load_live_row_count_checkpoint (codecs A) (saved A)"

text \<open>Whether a checkpoint is as new as the loaded log; without a loaded log it is taken.\<close>

definition checkpoint_usable :: "u64 option \<Rightarrow> u64 \<times> live_row list \<Rightarrow> bool" where
  "checkpoint_usable head checkpoint =
     (case checkpoint of (latest, loaded) \<Rightarrow>
        \<not> (case head of None \<Rightarrow> False | Some h \<Rightarrow> latest < h) \<and>
        \<not> (loaded = [] \<and> 0 < (case head of None \<Rightarrow> 0 | Some h \<Rightarrow> h)))"

definition load_live_rows_for_accessor_miss ::
    "access_env \<Rightarrow> ustr \<Rightarrow> ustr \<Rightarrow> TableSchema \<Rightarrow> ustr list \<Rightarrow> access_state \<Rightarrow> (u64 \<times> live_row list) \<times> access_state" where
  "load_live_rows_for_accessor_miss A stream table_id schema warm_fields st =
     (let has_dir = data_dir (wal st) \<noteq> None;
          small = (case checkpoint_count A stream table_id schema of
                     None \<Rightarrow> True | Some (_, n) \<Rightarrow> n \<le> accessor_snapshot_max_live_rows (cache_env A));
          first = (if warm_fields \<noteq> [] \<and> has_dir \<and> small
                   then load_live_rows_from_accessor_snapshot A stream table_id schema warm_fields else None);
          second = (if has_dir then Option.bind (checkpoint_rows A stream table_id schema)
                      (\<lambda>c. if checkpoint_usable (loaded_head A stream st) c then Some c else None) else None);
          third = (if warm_fields = [] \<and> has_dir
                   then load_live_rows_from_accessor_snapshot A stream table_id schema warm_fields else None)
      in case first of
           Some found \<Rightarrow> (found, st)
         | None \<Rightarrow> (case second of
             Some found \<Rightarrow> (found, st)
           | None \<Rightarrow> (case third of
               Some found \<Rightarrow> (found, st)
             | None \<Rightarrow>
                 (case latest_transaction_id (log_env A) (log_io A) stream (wal st) of
                    (latest, m1) \<Rightarrow>
                      (case load_live_rows_in_place (log_env A) (rows_env A) (log_io A)
                              (available_threads (cache_env A)) stream schema m1 of
                         (loaded, m2) \<Rightarrow>
                           ((case latest of None \<Rightarrow> 0 | Some i \<Rightarrow> i, loaded), st\<lparr>wal := m2\<rparr>))))))"

definition load_live_rows :: "access_env \<Rightarrow> ustr \<Rightarrow> ustr \<Rightarrow> TableSchema \<Rightarrow> access_state \<Rightarrow> live_row list \<times> access_state" where
  "load_live_rows A stream table_id schema st = apfst snd (load_live_rows_for_accessor_miss A stream table_id schema [] st)"

section \<open>Loaders\<close>

definition should_use_direct_scan_for_equality_probe ::
    "access_env \<Rightarrow> ustr \<Rightarrow> ustr \<Rightarrow> TableSchema \<Rightarrow> access_state \<Rightarrow> bool" where
  "should_use_direct_scan_for_equality_probe A stream table_id schema st =
     (let large = (\<lambda>n. accessor_snapshot_max_live_rows (cache_env A) < n)
      in if loaded_head A stream st \<noteq> None then True
         else if stream_mode (log_env A) (wal st) stream = Durable
         then (if data_dir (wal st) = None then False
               else if checkpoint_rows A stream table_id schema \<noteq> None then False
               else (case checkpoint_count A stream table_id schema of Some (_, n) \<Rightarrow> large n | None \<Rightarrow> True))
         else if data_dir (wal st) = None then True
         else (case checkpoint_count A stream table_id schema of Some (_, n) \<Rightarrow> large n | None \<Rightarrow> True))"

definition apply_row_limit_if_any :: "live_row list \<Rightarrow> nat option \<Rightarrow> live_row list" where
  "apply_row_limit_if_any rows row_limit = (case row_limit of None \<Rightarrow> rows | Some limit \<Rightarrow> take limit rows)"

definition probe_stream ::
    "access_env \<Rightarrow> ustr \<Rightarrow> (ustr \<times> bytes) list \<Rightarrow> access_state \<Rightarrow> live_row list option \<times> access_state" where
  "probe_stream A stream filters st =
     (case cached_equality_probe_rows (cache_env A) (clock_now A) (loaded_head A stream st) (cache_scope_id A, stream)
             filters (equality_probe_result_cache st) of
        (found, cache) \<Rightarrow> (found, st\<lparr>equality_probe_result_cache := cache\<rparr>))"

definition planner_equality_probe_cache_rows ::
    "access_env \<Rightarrow> ustr \<Rightarrow> ustr \<Rightarrow> (ustr \<times> bytes) list \<Rightarrow> access_state \<Rightarrow> live_row list option \<times> access_state" where
  "planner_equality_probe_cache_rows A stream table_id filters st =
     (case probe_stream A stream filters st of
        (Some found, st1) \<Rightarrow> (Some found, st1)
      | (None, st1) \<Rightarrow> if stream \<noteq> table_id then probe_stream A table_id filters st1 else (None, st1))"

definition maybe_cache_equality_probe_rows ::
    "access_env \<Rightarrow> ustr \<Rightarrow> (ustr \<times> bytes) list \<Rightarrow> live_row list \<Rightarrow> u64 option \<Rightarrow> access_state \<Rightarrow> access_state" where
  "maybe_cache_equality_probe_rows A stream filters rows head st =
     st\<lparr>equality_probe_result_cache :=
         maybe_cache_equality_probe_rows_with_latest_tx_id (cache_env A) (clock_now A) (cache_scope_id A, stream)
           filters rows head (equality_probe_result_cache st)\<rparr>"

text \<open>The direct scan stores its result itself under the head of the log, before its caller stores it again.\<close>

definition cached_direct_wal_scan ::
    "access_env \<Rightarrow> ustr \<Rightarrow> TableSchema \<Rightarrow> (ustr \<times> bytes) list \<Rightarrow> access_state \<Rightarrow> (u64 \<times> live_row list) \<times> access_state" where
  "cached_direct_wal_scan A stream schema filters st =
     (case load_live_rows_by_equality_filters_direct_wal_scan (log_env A) (rows_env A) (log_io A)
             (available_threads (cache_env A)) stream schema filters (wal st) of
        (result, m) \<Rightarrow>
          let st1 = st\<lparr>wal := m\<rparr>
          in (result, maybe_cache_equality_probe_rows A stream filters (snd result) (loaded_head A stream st1) st1))"

definition ensure_postings_of :: "acc_env \<Rightarrow> ustr list \<Rightarrow> EqualityTableCacheEntry \<Rightarrow> EqualityTableCacheEntry" where
  "ensure_postings_of E names entry = fold (ensure_field_postings E) names entry"

text \<open>The entry that is built from loaded rows: rows only and then the postings, above a number of rows.\<close>

definition entry_for_miss :: "acc_env \<Rightarrow> ustr list \<Rightarrow> u64 \<times> live_row list \<Rightarrow> EqualityTableCacheEntry" where
  "entry_for_miss E names loaded =
     (if accessor_cold_direct_scan_min_rows E \<le> length (snd loaded)
      then ensure_postings_of E names (build_rows_only_cache_entry E (fst loaded) (snd loaded))
      else build_cold_accessor_cache_entry E (fst loaded) (snd loaded) names)"

definition load_live_rows_by_equality_filters_with_limit ::
    "access_env \<Rightarrow> ustr \<Rightarrow> ustr \<Rightarrow> TableSchema \<Rightarrow> (ustr \<times> bytes) list \<Rightarrow> nat option \<Rightarrow> access_state
       \<Rightarrow> live_row list \<times> access_state" where
  "load_live_rows_by_equality_filters_with_limit A stream table_id schema filters row_limit st =
     (let E = cache_env A; names = map fst filters in
      if filters = [] then ([], st)
      else case with_matching_equality_cache_entry A stream
             (\<lambda>e. let e' = ensure_postings_of E names e in (rows_for_field_values e' filters, e')) st of
        (Some found, st1) \<Rightarrow> (apply_row_limit_if_any found row_limit, st1)
      | (None, st1) \<Rightarrow>
          (case planner_equality_probe_cache_rows A stream table_id filters st1 of
             (Some found, st2) \<Rightarrow> (apply_row_limit_if_any found row_limit, st2)
           | (None, st2) \<Rightarrow>
               if should_use_direct_scan_for_equality_probe A stream table_id schema st2
               then (case cached_direct_wal_scan A stream schema filters st2 of
                       ((latest, found), st3) \<Rightarrow>
                         (apply_row_limit_if_any found row_limit,
                          maybe_cache_equality_probe_rows A stream filters found (Some latest) st3))
               else (case load_live_rows_for_accessor_miss A stream table_id schema names st2 of
                       (loaded, st3) \<Rightarrow>
                         let entry = entry_for_miss E names loaded;
                             found = rows_for_field_values entry filters;
                             st4 = insert_scoped_equality_cache_entry A stream entry st3
                         in (apply_row_limit_if_any found row_limit,
                             maybe_cache_equality_probe_rows A stream filters found (loaded_head A stream st4) st4))))"

definition load_live_rows_by_equality_filters ::
    "access_env \<Rightarrow> ustr \<Rightarrow> ustr \<Rightarrow> TableSchema \<Rightarrow> (ustr \<times> bytes) list \<Rightarrow> access_state \<Rightarrow> live_row list \<times> access_state" where
  "load_live_rows_by_equality_filters A stream table_id schema filters =
     load_live_rows_by_equality_filters_with_limit A stream table_id schema filters None"

definition load_live_rows_by_equality_with_limit ::
    "access_env \<Rightarrow> ustr \<Rightarrow> ustr \<Rightarrow> TableSchema \<Rightarrow> ustr \<Rightarrow> bytes \<Rightarrow> nat option \<Rightarrow> access_state
       \<Rightarrow> live_row list \<times> access_state" where
  "load_live_rows_by_equality_with_limit A stream table_id schema name lookup_value =
     load_live_rows_by_equality_filters_with_limit A stream table_id schema [(name, lookup_value)]"

definition load_live_rows_by_equality ::
    "access_env \<Rightarrow> ustr \<Rightarrow> ustr \<Rightarrow> TableSchema \<Rightarrow> ustr \<Rightarrow> bytes \<Rightarrow> access_state \<Rightarrow> live_row list \<times> access_state" where
  "load_live_rows_by_equality A stream table_id schema name lookup_value =
     load_live_rows_by_equality_with_limit A stream table_id schema name lookup_value None"

definition count_live_rows_by_equality_filters ::
    "access_env \<Rightarrow> ustr \<Rightarrow> ustr \<Rightarrow> TableSchema \<Rightarrow> (ustr \<times> bytes) list \<Rightarrow> access_state \<Rightarrow> nat \<times> access_state" where
  "count_live_rows_by_equality_filters A stream table_id schema filters st =
     (if filters = [] then (0, st)
      else case with_matching_equality_cache_entry A stream
             (\<lambda>e. let e' = ensure_postings_of (cache_env A) (map fst filters) e
                  in (count_rows_for_field_values e' filters, e')) st of
        (Some n, st1) \<Rightarrow> (n, st1)
      | (None, st1) \<Rightarrow>
          (case planner_equality_probe_cache_rows A stream table_id filters st1 of
             (Some found, st2) \<Rightarrow> (length found, st2)
           | (None, st2) \<Rightarrow>
               if should_use_direct_scan_for_equality_probe A stream table_id schema st2
               then (case count_live_rows_by_equality_filters_direct_wal_scan (log_env A) (rows_env A) (log_io A)
                            stream schema filters (wal st2) of
                       (n, m) \<Rightarrow> (n, st2\<lparr>wal := m\<rparr>))
               else apfst length (load_live_rows_by_equality_filters_with_limit A stream table_id schema filters None st2)))"

text \<open>The loaders below look in the entry of the stream and build one when there is none that matches.\<close>

definition load_through_entry ::
    "access_env \<Rightarrow> ustr \<Rightarrow> ustr \<Rightarrow> TableSchema \<Rightarrow> ustr list \<Rightarrow> (u64 \<times> live_row list \<Rightarrow> EqualityTableCacheEntry)
       \<Rightarrow> (EqualityTableCacheEntry \<Rightarrow> live_row list \<times> EqualityTableCacheEntry)
       \<Rightarrow> (EqualityTableCacheEntry \<Rightarrow> live_row list \<times> EqualityTableCacheEntry)
       \<Rightarrow> access_state \<Rightarrow> live_row list \<times> access_state" where
  "load_through_entry A stream table_id schema warm_fields build cached fresh st =
     (case with_matching_equality_cache_entry A stream cached st of
        (Some found, st1) \<Rightarrow> (found, st1)
      | (None, st1) \<Rightarrow>
          (case load_live_rows_for_accessor_miss A stream table_id schema warm_fields st1 of
             (loaded, st2) \<Rightarrow>
               (case fresh (build loaded) of
                  (found, entry) \<Rightarrow> (found, insert_scoped_equality_cache_entry A stream entry st2))))"

definition load_live_rows_by_prefix ::
    "access_env \<Rightarrow> ustr \<Rightarrow> ustr \<Rightarrow> TableSchema \<Rightarrow> ustr \<Rightarrow> bytes \<Rightarrow> bool \<Rightarrow> access_state \<Rightarrow> live_row list \<times> access_state" where
  "load_live_rows_by_prefix A stream table_id schema name p case_insensitive =
     (let indexed = (\<lambda>e. let e' = ensure_string_like_index name case_insensitive e
                         in (rows_for_field_prefix e' name p case_insensitive, e'))
      in load_through_entry A stream table_id schema [name] (entry_for_miss (cache_env A) [name])
           (\<lambda>e. indexed (ensure_field_postings (cache_env A) name e)) indexed)"

text \<open>
  After \<open>ensure_string_like_index\<close> the index of the field is there, so the fall-through of the source for
  a missing index is never taken; the model answers with no rows there.
\<close>

definition load_live_rows_by_string_like ::
    "access_env \<Rightarrow> ustr \<Rightarrow> ustr \<Rightarrow> TableSchema \<Rightarrow> ustr \<Rightarrow> bytes \<Rightarrow> bool \<Rightarrow> access_state \<Rightarrow> live_row list \<times> access_state" where
  "load_live_rows_by_string_like A stream table_id schema name pattern case_insensitive =
     (if case_insensitive
      then let indexed = (\<lambda>e. let e' = ensure_string_like_index name True e
                              in (rows_for_field_string_like_case_insensitive_indexed (cache_env A) e' name pattern, e'))
           in load_through_entry A stream table_id schema []
                (\<lambda>loaded. build_rows_only_cache_entry (cache_env A) (fst loaded) (snd loaded)) indexed indexed
      else let indexed = (\<lambda>e. let e' = ensure_string_like_index name False e
                              in (case rows_for_field_string_like_indexed e' name pattern of None \<Rightarrow> [] | Some found \<Rightarrow> found, e'))
           in load_through_entry A stream table_id schema [name] (entry_for_miss (cache_env A) [name]) indexed indexed)"

definition load_live_rows_by_range ::
    "access_env \<Rightarrow> ustr \<Rightarrow> ustr \<Rightarrow> TableSchema \<Rightarrow> ustr \<Rightarrow> RangeBound option \<Rightarrow> RangeBound option \<Rightarrow> access_state
       \<Rightarrow> live_row list \<times> access_state" where
  "load_live_rows_by_range A stream table_id schema name lo hi st =
     (let ranged = (\<lambda>e. rows_for_field_range (cache_env A) e name lo hi)
      in if lo = None \<and> hi = None then load_live_rows A stream table_id schema st
         else load_through_entry A stream table_id schema [name] (entry_for_miss (cache_env A) [name])
                (\<lambda>e. ranged (ensure_field_postings (cache_env A) name e)) ranged st)"

definition load_live_rows_by_range_intersection ::
    "access_env \<Rightarrow> ustr \<Rightarrow> ustr \<Rightarrow> TableSchema \<Rightarrow> RangeFilterBounds list \<Rightarrow> access_state \<Rightarrow> live_row list \<times> access_state" where
  "load_live_rows_by_range_intersection A stream table_id schema filters st =
     (case filters of
        [] \<Rightarrow> load_live_rows A stream table_id schema st
      | anchor # _ \<Rightarrow>
          let ranged = (\<lambda>e. rows_for_range_filters (cache_env A) e filters); name = range_field anchor
          in load_through_entry A stream table_id schema [name] (entry_for_miss (cache_env A) [name])
               (\<lambda>e. ranged (ensure_field_postings (cache_env A) name e)) ranged st)"

text \<open>The count of a table: every visible row id counts, whether or not its payload decodes.\<close>

definition count_live_rows_of_log :: "access_env \<Rightarrow> ustr \<Rightarrow> access_state \<Rightarrow> nat \<times> access_state" where
  "count_live_rows_of_log A table_id st =
     (case latest_transaction_id (log_env A) (log_io A) table_id (wal st) of
        (latest, m1) \<Rightarrow>
          (case with_records (log_env A) (log_io A) table_id (count_scan (\<lambda>_. True)) m1 of
             (counted, m2) \<Rightarrow>
               let n = (case counted of None \<Rightarrow> 0 | Some k \<Rightarrow> k)
               in (n, cache_live_row_count (cache_scope_id A) table_id (case latest of None \<Rightarrow> 0 | Some i \<Rightarrow> i) n
                        (st\<lparr>wal := m2\<rparr>))))"

definition load_live_row_count :: "access_env \<Rightarrow> ustr \<Rightarrow> access_state \<Rightarrow> nat \<times> access_state" where
  "load_live_row_count A table_id st =
     (case cached_live_row_count (cache_scope_id A) table_id st of
        Some (cached_head, n) \<Rightarrow>
          if loaded_head A table_id st = Some cached_head then (n, st) else count_live_rows_of_log A table_id st
      | None \<Rightarrow> count_live_rows_of_log A table_id st)"

end
