(* ===== verification/WriteOps.thy ===== *)
theory WriteOps
  imports AccessorStore
begin

text \<open>
  Row writes, \<open>server/src/core/mappings/query/core/wal_ops.rs\<close>: the record that a row mutation appends to
  the log of its table, and the change of the accessor cache that follows.  The runtime index store, which
  the same functions update beside the cache, is not part of the state.  Of the catalog, the functions read
  what \<open>catalog_view\<close> holds.  An identifier after the last one wraps around, as in a release build.
\<close>

record catalog_view =
  entity_wal_stream_id :: "ustr \<Rightarrow> ustr option"
  entity_identity_id :: "ustr \<Rightarrow> ustr option"
  catalog_database_id :: ustr
  at_rest_encryption_key_ref :: "ustr option"
  at_rest_encryption_key_version :: u32

record table_view =
  view_table_id :: ustr
  view_schema :: TableSchema
  has_derived_indexes :: bool

definition table_stream_id :: "catalog_view \<Rightarrow> ustr \<Rightarrow> ustr" where
  "table_stream_id catalog table_id =
     (case entity_wal_stream_id catalog table_id of Some s \<Rightarrow> s | None \<Rightarrow> normalize_identifier table_id)"

definition payload_context_for_table :: "catalog_view \<Rightarrow> ustr \<Rightarrow> TransactionPayloadContext" where
  "payload_context_for_table catalog table_id =
     (let normalized = normalize_identifier table_id;
          entity_id = (case entity_identity_id catalog normalized of Some i \<Rightarrow> i | None \<Rightarrow> normalized);
          context = default_context\<lparr>ctx_database_id := Some (catalog_database_id catalog), ctx_table_id := Some entity_id\<rparr>
      in case at_rest_encryption_key_ref catalog of
           None \<Rightarrow> context
         | Some key_ref \<Rightarrow> with_at_rest_encryption key_ref (at_rest_encryption_key_version catalog) context)"

definition server_actor :: "access_env \<Rightarrow> ustr" where
  "server_actor A = stable_id (md5_hex (log_env A)) [lit ''server'']"

definition next_id :: "u64 option \<Rightarrow> u64" where
  "next_id latest = (case latest of None \<Rightarrow> 1 | Some i \<Rightarrow> i + 1)"

definition is_row_mutation :: "TransactionKind \<Rightarrow> bool" where
  "is_row_mutation kind \<longleftrightarrow> kind = Insert \<or> kind = Update \<or> kind = Delete"

section \<open>Write group records\<close>

definition encode_write_group_terminal_payload :: "u64 \<Rightarrow> bytes" where
  "encode_write_group_terminal_payload n = to_le 8 (unat n)"

definition grouped_stream_expected_record_count :: "access_env \<Rightarrow> ustr \<Rightarrow> u64 \<Rightarrow> access_state \<Rightarrow> u64 \<times> access_state" where
  "grouped_stream_expected_record_count A stream_id group_id st =
     (case with_records (log_env A) (log_io A) stream_id
             (\<lambda>rs. of_nat (length (filter (\<lambda>r. groupid r = Some group_id \<and>
                tx_kind r \<notin> {WriteBegin, WriteCommit, WriteAbort}) rs))) (wal st) of
        (n, m) \<Rightarrow> (case n of None \<Rightarrow> 0 | Some k \<Rightarrow> k, st\<lparr>wal := m\<rparr>))"

definition append_payload_record_with_group ::
    "access_env \<Rightarrow> ustr \<Rightarrow> TransactionKind \<Rightarrow> bytes \<Rightarrow> u64 \<Rightarrow> u64 option \<Rightarrow> access_state \<Rightarrow> u64 result \<times> access_state" where
  "append_payload_record_with_group A wal_id kind payload ts group_id st =
     (case latest_transaction_id (log_env A) (log_io A) wal_id (wal st) of
        (latest, m1) \<Rightarrow>
          let i = next_id latest;
              record_group_id = (case group_id of Some g \<Rightarrow> Some g | None \<Rightarrow> if kind = WriteBegin then Some i else None);
              r = with_payload i record_group_id latest ts (server_actor A) kind payload
          in (case append_with_context (log_env A) (log_io A) wal_id r default_context m1 of
                (Inl e, m2) \<Rightarrow> (Err e, st\<lparr>wal := m2\<rparr>)
              | (Inr _, m2) \<Rightarrow> (Ok i, st\<lparr>wal := m2\<rparr>)))"

definition append_payload_record ::
    "access_env \<Rightarrow> ustr \<Rightarrow> TransactionKind \<Rightarrow> bytes \<Rightarrow> u64 \<Rightarrow> access_state \<Rightarrow> unit result \<times> access_state" where
  "append_payload_record A wal_id kind payload ts st =
     apfst (\<lambda>res. try_bind res (\<lambda>_. Ok ())) (append_payload_record_with_group A wal_id kind payload ts None st)"

text \<open>The terminal record of a group in every table it touched, in the order in which they are visited.\<close>

fun commit_external_write_group :: "access_env \<Rightarrow> u64 \<Rightarrow> u64 \<Rightarrow> ustr list \<Rightarrow> access_state \<Rightarrow> unit result \<times> access_state" where
  "commit_external_write_group A ts group_id [] st = (Ok (), st)"
| "commit_external_write_group A ts group_id (table_id # table_ids) st =
     (case grouped_stream_expected_record_count A table_id group_id st of
        (expected_count, st1) \<Rightarrow>
          (case append_payload_record_with_group A table_id WriteCommit
                  (encode_write_group_terminal_payload expected_count) ts (Some group_id) st1 of
             (Inl e, st2) \<Rightarrow> (Err e, st2)
           | (Inr _, st2) \<Rightarrow> commit_external_write_group A ts group_id table_ids st2))"

fun abort_external_write_group :: "access_env \<Rightarrow> u64 \<Rightarrow> u64 \<Rightarrow> ustr list \<Rightarrow> access_state \<Rightarrow> access_state" where
  "abort_external_write_group A ts group_id [] st = st"
| "abort_external_write_group A ts group_id (table_id # table_ids) st =
     (case grouped_stream_expected_record_count A table_id group_id st of
        (expected_count, st1) \<Rightarrow>
          abort_external_write_group A ts group_id table_ids
            (snd (append_payload_record_with_group A table_id WriteAbort
               (encode_write_group_terminal_payload expected_count) ts (Some group_id) st1)))"

section \<open>Row records\<close>

text \<open>Whether the row that a mutation refers to is live, by the ids at hand or by a scan.\<close>

definition live_row_exists ::
    "access_env \<Rightarrow> ustr \<Rightarrow> TableSchema \<Rightarrow> TransactionPayloadContext \<Rightarrow> u64 set option \<Rightarrow> u64 \<Rightarrow> access_state
       \<Rightarrow> bool result \<times> access_state" where
  "live_row_exists A stream_id schema context expected_live_row_ids i st =
     (case expected_live_row_ids of
        Some ids \<Rightarrow> (Ok (i \<in> ids), st)
      | None \<Rightarrow>
          (case load_live_rows_with_context (log_env A) (rows_env A) (log_io A) (available_threads (cache_env A))
                  stream_id schema context (wal st) of
             (Inl e, m) \<Rightarrow> (Err (''live row load failed: '' @ e), st\<lparr>wal := m\<rparr>)
           | (Inr loaded, m) \<Rightarrow> (Ok (i \<in> fst ` set loaded), st\<lparr>wal := m\<rparr>)))"

definition check_refid ::
    "access_env \<Rightarrow> ustr \<Rightarrow> TableSchema \<Rightarrow> TransactionPayloadContext \<Rightarrow> u64 set option \<Rightarrow> u64 option \<Rightarrow> access_state
       \<Rightarrow> unit result \<times> access_state" where
  "check_refid A stream_id schema context expected_live_row_ids refid0 st =
     (case refid0 of
        None \<Rightarrow> (Ok (), st)
      | Some i \<Rightarrow>
          (case live_row_exists A stream_id schema context expected_live_row_ids i st of
             (Inl e, st1) \<Rightarrow> (Err e, st1)
           | (Inr found, st1) \<Rightarrow>
               (if found then Ok () else Err ''row mutation references stale or missing live transaction id'', st1)))"

definition row_map_for_cache ::
    "access_env \<Rightarrow> TableSchema \<Rightarrow> bool \<Rightarrow> bytes \<Rightarrow> row_map option \<Rightarrow> row_map option result" where
  "row_map_for_cache A schema wanted payload prepared_row_map =
     (if wanted \<and> prepared_row_map = None
      then (case decode_row (rows_env A) schema payload of
              Inl _ \<Rightarrow> Err ''row payload decode failed'' | Inr row \<Rightarrow> Ok (Some row))
      else Ok prepared_row_map)"

definition append_row_payload_record_with_live_row_ids_and_prepared_row_map ::
    "access_env \<Rightarrow> catalog_view \<Rightarrow> table_view \<Rightarrow> TransactionKind \<Rightarrow> bytes \<Rightarrow> u64 \<Rightarrow> u64 option \<Rightarrow> u64 set option
       \<Rightarrow> row_map option \<Rightarrow> u64 option \<Rightarrow> access_state \<Rightarrow> unit result \<times> access_state" where
  "append_row_payload_record_with_live_row_ids_and_prepared_row_map A catalog table kind payload ts refid0
       expected_live_row_ids prepared_row_map group_id st =
     (let stream_id = table_stream_id catalog (view_table_id table);
          context = payload_context_for_table catalog (view_table_id table);
          apply_row_index_mutation = (has_derived_indexes table \<and> is_row_mutation kind)
      in case check_refid A stream_id (view_schema table) context expected_live_row_ids refid0 st of
           (Inl e, st1) \<Rightarrow> (Err e, st1)
         | (Inr _, st1) \<Rightarrow>
             (case latest_transaction_id (log_env A) (log_io A) stream_id (wal st1) of
                (latest, m2) \<Rightarrow>
                  let i = next_id latest;
                      ref = (case refid0 of Some x \<Rightarrow> Some x | None \<Rightarrow> latest)
                  in (case row_map_for_cache A (view_schema table) apply_row_index_mutation payload prepared_row_map of
                        Inl e \<Rightarrow> (Err e, st1\<lparr>wal := m2\<rparr>)
                      | Inr row_map \<Rightarrow>
                          (case append_with_context (log_env A) (log_io A) stream_id
                                  (with_payload i group_id ref ts (server_actor A) kind payload) context m2 of
                             (Inl e, m3) \<Rightarrow> (Err e, st1\<lparr>wal := m3\<rparr>)
                           | (Inr _, m3) \<Rightarrow>
                               let st3 = st1\<lparr>wal := m3\<rparr>
                               in if \<not> apply_row_index_mutation then (Ok (), st3)
                                  else (case row_map of
                                          None \<Rightarrow> (Err ''row payload decode failed: missing row map for index mutation'', st3)
                                        | Some row \<Rightarrow>
                                            (Ok (), apply_equality_cache_row_mutation (cache_env A) (cache_scope_id A) stream_id i kind
                                               (if kind = Delete then (case ref of Some x \<Rightarrow> x | None \<Rightarrow> i) else i) row st3))))))"

definition append_row_payload_record ::
    "access_env \<Rightarrow> catalog_view \<Rightarrow> table_view \<Rightarrow> TransactionKind \<Rightarrow> bytes \<Rightarrow> u64 \<Rightarrow> u64 option \<Rightarrow> u64 option
       \<Rightarrow> access_state \<Rightarrow> unit result \<times> access_state" where
  "append_row_payload_record A catalog table kind payload ts refid0 group_id =
     append_row_payload_record_with_live_row_ids_and_prepared_row_map A catalog table kind payload ts refid0 None None group_id"

definition append_row_payload_record_with_prepared_row_map ::
    "access_env \<Rightarrow> catalog_view \<Rightarrow> table_view \<Rightarrow> TransactionKind \<Rightarrow> bytes \<Rightarrow> row_map option \<Rightarrow> u64 \<Rightarrow> u64 option \<Rightarrow> u64 option
       \<Rightarrow> access_state \<Rightarrow> unit result \<times> access_state" where
  "append_row_payload_record_with_prepared_row_map A catalog table kind payload prepared_row_map ts refid0 group_id =
     append_row_payload_record_with_live_row_ids_and_prepared_row_map A catalog table kind payload ts refid0 None
       prepared_row_map group_id"

definition append_row_payload_record_with_live_row_ids ::
    "access_env \<Rightarrow> catalog_view \<Rightarrow> table_view \<Rightarrow> TransactionKind \<Rightarrow> bytes \<Rightarrow> u64 \<Rightarrow> u64 option \<Rightarrow> u64 set option \<Rightarrow> u64 option
       \<Rightarrow> access_state \<Rightarrow> unit result \<times> access_state" where
  "append_row_payload_record_with_live_row_ids A catalog table kind payload ts refid0 expected_live_row_ids group_id =
     append_row_payload_record_with_live_row_ids_and_prepared_row_map A catalog table kind payload ts refid0
       expected_live_row_ids None group_id"

text \<open>
  A batch: consecutive identifiers, each record referring to the one before it; after the append the
  tail of the log must hold the batch.
\<close>

fun batch_records ::
    "access_env \<Rightarrow> TransactionKind \<Rightarrow> u64 \<Rightarrow> u64 option \<Rightarrow> u64 \<Rightarrow> u64 option \<Rightarrow> bytes list \<Rightarrow> TransactionRecord list \<times> u64" where
  "batch_records A kind ts group_id next ref [] = ([], next)"
| "batch_records A kind ts group_id next ref (payload # payloads) =
     apfst (Cons (with_payload next group_id ref ts (server_actor A) kind payload))
       (batch_records A kind ts group_id (saturating_u64_add next 1) (Some next) payloads)"

fun decode_rows :: "access_env \<Rightarrow> TableSchema \<Rightarrow> bytes list \<Rightarrow> row_map list result" where
  "decode_rows A schema [] = Ok []"
| "decode_rows A schema (payload # payloads) =
     (case decode_row (rows_env A) schema payload of
        Inl _ \<Rightarrow> Err ''row payload decode failed''
      | Inr row \<Rightarrow> try_bind (decode_rows A schema payloads) (\<lambda>rows. Ok (row # rows)))"

definition row_refs_align :: "TransactionKind \<Rightarrow> u64 \<Rightarrow> nat \<Rightarrow> entries \<Rightarrow> bool" where
  "row_refs_align kind first_row_id n rs =
     (let appended = rev (take n (rev rs))
      in length appended = n \<and>
         list_all (\<lambda>(offset, r). tx_id r = saturating_u64_add first_row_id offset \<and> tx_kind r = kind)
           (zip [0..<length appended] appended))"

definition append_row_payload_records_batch ::
    "access_env \<Rightarrow> catalog_view \<Rightarrow> ustr \<Rightarrow> table_view \<Rightarrow> TransactionKind \<Rightarrow> bytes list \<Rightarrow> row_map list option \<Rightarrow> u64
       \<Rightarrow> u64 option \<Rightarrow> access_state \<Rightarrow> unit result \<times> access_state" where
  "append_row_payload_records_batch A catalog stream_id table kind payloads prepared_row_maps ts group_id st =
     (if payloads = [] then (Ok (), st)
      else
        let context = payload_context_for_table catalog (view_table_id table);
            apply_row_index_mutation = (has_derived_indexes table \<and> is_row_mutation kind);
            prepared = (case prepared_row_maps of None \<Rightarrow> [] | Some rows \<Rightarrow> rows);
            use_prepared = (apply_row_index_mutation \<and> length prepared = length payloads)
        in case latest_transaction_id (log_env A) (log_io A) stream_id (wal st) of
             (latest, m1) \<Rightarrow>
               let first_row_id = (case latest of None \<Rightarrow> 1 | Some i \<Rightarrow> saturating_u64_add i 1);
                   decoded = (if apply_row_index_mutation \<and> \<not> use_prepared
                              then decode_rows A (view_schema table) payloads else Ok []);
                   st1 = st\<lparr>wal := m1\<rparr>
               in case decoded of
                    Inl e \<Rightarrow> (Err e, st1)
                  | Inr decoded_row_maps \<Rightarrow>
                      (case batch_records A kind ts group_id first_row_id latest payloads of
                         (records, after) \<Rightarrow>
                           (case append_batch_with_context (log_env A) (log_io A) stream_id records context m1 of
                              (Inl e, m2) \<Rightarrow> (Err e, st\<lparr>wal := m2\<rparr>)
                            | (Inr _, m2) \<Rightarrow>
                                (case with_records (log_env A) (log_io A) stream_id
                                        (row_refs_align kind first_row_id (length payloads)) m2 of
                                   (None, m3) \<Rightarrow> (Err ''WAL stream unavailable after append'', st\<lparr>wal := m3\<rparr>)
                                 | (Some False, m3) \<Rightarrow>
                                     (Err ''row reference alignment mismatch after WAL append'', st\<lparr>wal := m3\<rparr>)
                                 | (Some True, m3) \<Rightarrow>
                                     (Ok (),
                                      if apply_row_index_mutation
                                      then apply_equality_cache_row_mutation_batch (cache_env A) (cache_scope_id A) stream_id
                                             (after - 1) kind first_row_id
                                             (if use_prepared then prepared else decoded_row_maps) (st\<lparr>wal := m3\<rparr>)
                                      else st\<lparr>wal := m3\<rparr>)))))"

end
