(* ===== verification/AccessorLookup.thy ===== *)
theory AccessorLookup
  imports AccessorCache "HOL-Library.Multiset"
begin

text \<open>
  The accessor cache answers lookups as a scan of the live rows would: the contract of an index from keys
  to row ids, its two implementations (postings and text indexes), the invariant of a cache entry, and
  the refinement of the entry to the list of live rows.
\<close>

section \<open>Row ids by key\<close>

definition keyed_ids :: "(row_map \<Rightarrow> 'k option) \<Rightarrow> live_row list \<Rightarrow> 'k \<Rightarrow> u64 list" where
  "keyed_ids key rows k = map fst (filter (\<lambda>r. key (snd r) = Some k) rows)"

definition ids_map :: "(row_map \<Rightarrow> 'k option) \<Rightarrow> live_row list \<Rightarrow> 'k \<rightharpoonup> u64 list" where
  "ids_map key rows k = (case keyed_ids key rows k of [] \<Rightarrow> None | ids \<Rightarrow> Some ids)"

definition fresh_id :: "u64 \<Rightarrow> live_row list \<Rightarrow> bool" where
  "fresh_id i rows \<longleftrightarrow> i \<notin> fst ` set rows"

lemma keyed_ids_snoc:
  "keyed_ids key (rows @ [(i, row)]) k = keyed_ids key rows k @ (if key row = Some k then [i] else [])"
  by (simp add: keyed_ids_def)

lemma keyed_ids_append: "keyed_ids key (a @ b) k = keyed_ids key a k @ keyed_ids key b k"
  by (simp add: keyed_ids_def)

lemma ids_map_Nil [simp]: "ids_map key [] = Map.empty"
  by (simp add: ids_map_def keyed_ids_def fun_eq_iff)

lemma ids_map_Some: "ids_map key rows k = Some ids \<longleftrightarrow> ids = keyed_ids key rows k \<and> ids \<noteq> []"
  by (auto simp: ids_map_def split: list.splits)

lemma ids_map_None: "ids_map key rows k = None \<longleftrightarrow> keyed_ids key rows k = []"
  by (auto simp: ids_map_def split: list.splits)

lemma ids_map_default: "(case ids_map key rows k of None \<Rightarrow> [] | Some ids \<Rightarrow> ids) = keyed_ids key rows k"
  by (auto simp: ids_map_def split: list.splits)

lemma ids_map_snoc:
  "ids_map key (rows @ [(i, row)]) =
     (case key row of None \<Rightarrow> ids_map key rows
      | Some k \<Rightarrow> (ids_map key rows)(k \<mapsto> keyed_ids key rows k @ [i]))"
  by (auto simp: ids_map_def keyed_ids_snoc fun_eq_iff split: option.splits list.splits)

lemma keyed_ids_delete:
  "keyed_ids key (AList.delete i rows) k = filter (\<lambda>x. x \<noteq> i) (keyed_ids key rows k)"
  by (induction rows) (auto simp: keyed_ids_def AList.delete_eq)

lemma ids_map_delete:
  assumes "distinct (map fst rows)" "(i, row) \<in> set rows"
  shows "ids_map key (AList.delete i rows) =
     (case key row of None \<Rightarrow> ids_map key rows
      | Some k \<Rightarrow> (ids_map key rows)(k := (case filter (\<lambda>x. x \<noteq> i) (keyed_ids key rows k) of [] \<Rightarrow> None | ids \<Rightarrow> Some ids)))"
proof -
  have "filter (\<lambda>x. x \<noteq> i) (keyed_ids key rows k) = keyed_ids key rows k" if "key row \<noteq> Some k" for k
  proof -
    have "i \<notin> set (keyed_ids key rows k)"
      using assms that by (auto simp: keyed_ids_def dest: eq_key_imp_eq_value)
    then show ?thesis by (auto simp: filter_id_conv)
  qed
  then show ?thesis by (auto simp: ids_map_def keyed_ids_delete fun_eq_iff split: option.splits)
qed

lemma keyed_ids_apart:
  assumes "distinct (map fst rows)" "i \<in> set (keyed_ids key rows j)" "i \<in> set (keyed_ids key rows k)"
  shows "j = k"
  using assms(2,3) by (fastforce simp: keyed_ids_def dest: eq_key_imp_eq_value [OF assms(1)])

lemma distinct_concat_ids:
  assumes d: "distinct (map fst rows)" and keys: "distinct (map fst ps)"
    and mem: "\<And>k ids. (k, ids) \<in> set ps \<Longrightarrow> ids = keyed_ids key rows k \<and> ids \<noteq> []"
  shows "distinct (concat (map snd ps))"
proof -
  have own: "snd z = keyed_ids key rows (fst z)" "snd z \<noteq> []" if "z \<in> set ps" for z
    using mem [of "fst z" "snd z"] that by auto
  have inj: "inj_on snd (set ps)"
  proof (rule inj_onI)
    fix x y assume xy: "x \<in> set ps" "y \<in> set ps" "snd x = snd y"
    have "hd (snd x) \<in> set (snd x)" using own(2) [OF xy(1)] by simp
    with own(1) [OF xy(1)] own(1) [OF xy(2)] xy(3)
    have "hd (snd x) \<in> set (keyed_ids key rows (fst x))" "hd (snd x) \<in> set (keyed_ids key rows (fst y))" by metis+
    then show "x = y" using keyed_ids_apart [OF d] xy(3) by (metis prod.collapse)
  qed
  show ?thesis
  proof (subst distinct_concat_iff, intro conjI allI impI)
    show "distinct (removeAll [] (map snd ps))"
      using keys inj by (auto simp: distinct_map intro: distinct_removeAll)
  next
    fix ids assume "ids \<in> set (map snd ps)"
    then obtain z where "z \<in> set ps" "ids = snd z" by auto
    then show "distinct ids" using own(1) [of z] d by (simp add: keyed_ids_def distinct_map_filter)
  next
    fix a b assume ab: "a \<in> set (map snd ps) \<and> b \<in> set (map snd ps) \<and> a \<noteq> b"
    then obtain y z where "y \<in> set ps" "a = snd y" "z \<in> set ps" "b = snd z" by auto
    with ab own(1) keyed_ids_apart [OF d, of _ key "fst y" "fst z"] show "set a \<inter> set b = {}" by (metis disjoint_iff)
  qed
qed

section \<open>The contract of an index\<close>

text \<open>An index is exact for the rows when it has, for every key, the ids of the rows with that key.\<close>

definition index_exact ::
    "('m \<Rightarrow> ('k \<times> u64 list) list) \<Rightarrow> ('m \<Rightarrow> bool) \<Rightarrow> (row_map \<Rightarrow> 'k option) \<Rightarrow> live_row list \<Rightarrow> 'm \<Rightarrow> bool" where
  "index_exact pairs ok_index key rows m \<longleftrightarrow> ok_index m \<and> map_of (pairs m) = ids_map key rows"

locale row_id_index =
  fixes pairs :: "'m \<Rightarrow> ('k \<times> u64 list) list"
    and add :: "'k \<Rightarrow> u64 \<Rightarrow> 'm \<Rightarrow> 'm"
    and del :: "'k \<Rightarrow> u64 \<Rightarrow> 'm \<Rightarrow> 'm"
    and ok_index :: "'m \<Rightarrow> bool"
    and good_key :: "'k \<Rightarrow> bool"
  assumes pairs_distinct: "ok_index m \<Longrightarrow> distinct (map fst (pairs m))"
    and ok_add: "ok_index m \<Longrightarrow> good_key k \<Longrightarrow> ok_index (add k i m)"
    and ok_del: "ok_index m \<Longrightarrow> ok_index (del k i m)"
    and pairs_add: "ok_index m \<Longrightarrow> good_key k \<Longrightarrow> map_of (pairs (add k i m)) =
      (map_of (pairs m))(k \<mapsto> (case map_of (pairs m) k of None \<Rightarrow> [] | Some ids \<Rightarrow> ids) @ [i])"
    and pairs_del: "ok_index m \<Longrightarrow> map_of (pairs (del k i m)) =
      (map_of (pairs m))(k := (case filter (\<lambda>x. x \<noteq> i) (case map_of (pairs m) k of None \<Rightarrow> [] | Some ids \<Rightarrow> ids) of
         [] \<Rightarrow> None | ids \<Rightarrow> Some ids))"
begin

lemma exact_add:
  assumes "index_exact pairs ok_index key rows m" "\<And>k. key row = Some k \<Longrightarrow> good_key k"
  shows "index_exact pairs ok_index key (rows @ [(i, row)]) (case key row of None \<Rightarrow> m | Some k \<Rightarrow> add k i m)"
  using assms by (auto simp: index_exact_def ids_map_snoc ok_add pairs_add ids_map_default split: option.splits)

lemma exact_del:
  assumes "index_exact pairs ok_index key rows m" "distinct (map fst rows)" "(i, row) \<in> set rows"
  shows "index_exact pairs ok_index key (AList.delete i rows) (case key row of None \<Rightarrow> m | Some k \<Rightarrow> del k i m)"
  using assms
  by (auto simp: index_exact_def ids_map_delete [OF assms(2,3)] ok_del pairs_del ids_map_default split: option.splits)

lemma exact_pairs:
  assumes "index_exact pairs ok_index key rows m"
  shows "(k, ids) \<in> set (pairs m) \<longleftrightarrow> ids = keyed_ids key rows k \<and> ids \<noteq> []"
  using assms map_of_eq_Some_iff [OF pairs_distinct [of m], of k ids] by (simp add: index_exact_def ids_map_Some)

lemma exact_filtered_ids:
  assumes ex: "index_exact pairs ok_index key rows m" and d: "distinct (map fst rows)"
  shows "mset (concat (map snd (filter (\<lambda>(k, ids). P k) (pairs m)))) =
         mset (map fst (filter (\<lambda>r. case key (snd r) of None \<Rightarrow> False | Some k \<Rightarrow> P k) rows))"
    (is "mset (concat (map snd ?ps)) = mset (map fst (filter ?Q rows))")
proof -
  have mem: "(k, ids) \<in> set ?ps \<longleftrightarrow> P k \<and> ids = keyed_ids key rows k \<and> ids \<noteq> []" for k ids
    using exact_pairs [OF ex] by auto
  have "distinct (map fst ?ps)" using ex pairs_distinct [of m] by (simp add: index_exact_def distinct_map_filter)
  then have d1: "distinct (concat (map snd ?ps))" by (rule distinct_concat_ids [OF d]) (use mem in blast)
  have d2: "distinct (map fst (filter ?Q rows))" using d by (simp add: distinct_map_filter)
  have eq: "i \<in> set (concat (map snd ?ps)) \<longleftrightarrow> i \<in> set (map fst (filter ?Q rows))" for i
  proof -
    have "i \<in> set (concat (map snd ?ps)) \<longleftrightarrow> (\<exists>k ids. (k, ids) \<in> set ?ps \<and> i \<in> set ids)" by force
    also have "\<dots> \<longleftrightarrow> (\<exists>k. P k \<and> i \<in> set (keyed_ids key rows k))" unfolding mem by (metis empty_iff list.set(1))
    also have "\<dots> \<longleftrightarrow> i \<in> set (map fst (filter ?Q rows))" by (fastforce simp: keyed_ids_def split: option.splits)
    finally show ?thesis .
  qed
  show ?thesis by (rule iffD1 [OF set_eq_iff_mset_eq_distinct [OF d1 d2]], rule set_eqI, rule eq)
qed

end

section \<open>Postings and text indexes\<close>

definition postings_wf :: "('k \<times> u64 list) list \<Rightarrow> bool" where
  "postings_wf ps \<longleftrightarrow> distinct (map fst ps)"

lemma distinct_update_keys: "distinct (map fst ps) \<Longrightarrow> distinct (map fst (AList.update k v ps))"
  by (rule distinct_update)

lemma map_of_update: "map_of (AList.update k v ps) = (map_of ps)(k \<mapsto> v)"
  by (rule update_conv')

lemma map_of_delete: "map_of (AList.delete k ps) = (map_of ps)(k := None)"
  by (simp add: delete_conv')

interpretation posting: row_id_index "\<lambda>ps. ps" push_id remove_row_id_from_postings postings_wf "\<lambda>_. True"
proof (standard, goal_cases)
  case (5 m k i)
  then show ?case
    by (auto simp: remove_row_id_from_postings_def map_of_update map_of_delete Let_def fun_eq_iff split: option.splits list.splits)
qed (auto simp: postings_wf_def push_id_def append_ids_def map_of_update distinct_update remove_row_id_from_postings_def
    Let_def distinct_delete split: option.splits)

lemma tp_get_map: "tp_get m k = map_of (items_by_key m) k"
  by (simp add: tp_get_def)

lemma items_add:
  "map_of (items_by_key (add_row_id_to_string_index k i m)) =
     (map_of (items_by_key m))(k \<mapsto> (case map_of (items_by_key m) k of None \<Rightarrow> [] | Some ids \<Rightarrow> ids) @ [i])"
  by (auto simp: add_row_id_to_string_index_def tp_get_map tp_get_mut_def tp_insert_def map_of_change map_of_bt_insert
      fun_eq_iff option.map_id split: option.splits)

lemma items_del:
  "map_of (items_by_key (remove_row_id_from_string_index k i m)) =
     (map_of (items_by_key m))(k := (case filter (\<lambda>x. x \<noteq> i) (case map_of (items_by_key m) k of None \<Rightarrow> [] | Some ids \<Rightarrow> ids) of
         [] \<Rightarrow> None | ids \<Rightarrow> Some ids))"
  by (auto simp: remove_row_id_from_string_index_def tp_get_map tp_get_mut_def tp_remove_def map_of_change map_of_bt_remove
      Let_def fun_eq_iff option.map_id split: option.splits list.splits)

interpretation text_ids: row_id_index items_by_key add_row_id_to_string_index remove_row_id_from_string_index tp_inv plain_key
proof (standard, goal_cases)
  case (1 m)
  then show ?case by (simp add: tp_inv_def bt_sorted_distinct)
next
  case (2 m k i)
  then show ?case by (simp add: add_row_id_to_string_index_def tp_inv_get_mut tp_inv_insert split: option.splits)
next
  case (3 m k i)
  then show ?case
    by (simp add: remove_row_id_from_string_index_def Let_def tp_inv_get_mut tp_inv_remove split: option.splits)
qed (rule items_add items_del)+

section \<open>Builders\<close>

lemma update_fresh: "k \<notin> fst ` set m \<Longrightarrow> AList.update k v m = m @ [(k, v)]"
  by (induction m) auto

lemma insert_rows_fresh: "distinct (map fst (acc @ rows)) \<Longrightarrow> insert_rows rows acc = acc @ rows"
proof (induction rows arbitrary: acc)
  case (Cons r rows)
  obtain i row where r: "r = (i, row)" by (cases r)
  with Cons.prems have "AList.update i row acc = acc @ [r]" by (auto intro: update_fresh)
  with Cons.IH [of "acc @ [r]"] Cons.prems r show ?case by (simp add: insert_rows_def)
qed (simp add: insert_rows_def)

text \<open>Grouping the rows of a list by a key, as all builders do.\<close>

definition group_row :: "(row_map \<Rightarrow> 'k option) \<Rightarrow> live_row \<Rightarrow> ('k \<times> u64 list) list \<Rightarrow> ('k \<times> u64 list) list" where
  "group_row key r m = (case key (snd r) of None \<Rightarrow> m | Some k \<Rightarrow> push_id k (fst r) m)"

lemma post_row_group: "post_row name = group_row (\<lambda>row. row name)"
  by (simp add: fun_eq_iff post_row_def group_row_def)

abbreviation grouped :: "(row_map \<Rightarrow> 'k option) \<Rightarrow> live_row list \<Rightarrow> ('k \<times> u64 list) list \<Rightarrow> bool" where
  "grouped key rows m \<equiv> index_exact (\<lambda>ps. ps) postings_wf key rows m"

lemma grouped_Nil [simp]: "grouped key [] []"
  by (simp add: index_exact_def postings_wf_def)

lemma grouped_group_row: "grouped key rows m \<Longrightarrow> grouped key (rows @ [r]) (group_row key r m)"
  by (cases r)
    (auto simp: index_exact_def postings_wf_def group_row_def push_id_def append_ids_def map_of_update distinct_update
      ids_map_snoc ids_map_default split: option.splits)

lemma grouped_fold: "grouped key done m \<Longrightarrow> grouped key (done @ rows) (fold (group_row key) rows m)"
proof (induction rows arbitrary: "done" m)
  case (Cons r rows)
  from Cons.IH [OF grouped_group_row [OF Cons.prems]] show ?case by simp
qed simp

lemma merge_postings_map:
  "distinct (map fst p) \<Longrightarrow> map_of (merge_postings p m) =
     (\<lambda>k. case map_of p k of None \<Rightarrow> map_of m k
           | Some ids \<Rightarrow> Some ((case map_of m k of None \<Rightarrow> [] | Some old \<Rightarrow> old) @ ids))"
proof (induction p arbitrary: m)
  case (Cons x p)
  obtain v ids where x: "x = (v, ids)" by (cases x)
  have "map_of p v = None" using Cons.prems x by (simp add: map_of_eq_None_iff)
  with Cons x show ?case
    by (auto simp: merge_postings_def append_ids_def map_of_update fun_eq_iff split: option.splits)
qed (simp add: merge_postings_def)

lemma merge_postings_distinct: "distinct (map fst m) \<Longrightarrow> distinct (map fst (merge_postings p m))"
  by (induction p arbitrary: m) (auto simp: merge_postings_def append_ids_def distinct_update)

lemma grouped_merge:
  assumes "grouped key a m" "grouped key b p"
  shows "grouped key (a @ b) (merge_postings p m)"
proof -
  have "map_of (merge_postings p m) k = ids_map key (a @ b) k" for k
    using assms merge_postings_map [of p m]
    by (auto simp: index_exact_def postings_wf_def ids_map_def keyed_ids_append split: list.splits)
  with assms show ?thesis by (auto simp: index_exact_def postings_wf_def merge_postings_distinct fun_eq_iff)
qed

lemma grouped_merge_all:
  "grouped key done m \<Longrightarrow>
     grouped key (done @ concat cs) (fold merge_postings (map (\<lambda>c. fold (group_row key) c []) cs) m)"
proof (induction cs arbitrary: "done" m)
  case (Cons c cs)
  have "grouped key c (fold (group_row key) c [])" using grouped_fold [of key "[]" "[]" c] by simp
  from Cons.IH [OF grouped_merge [OF Cons.prems this]] show ?case by simp
qed simp

lemma grouped_parallel:
  "0 < n \<Longrightarrow> grouped key rows (fold merge_postings (map (\<lambda>c. fold (group_row key) c []) (chunks n rows)) [])"
  using grouped_merge_all [of key "[]" "[]" "chunks n rows"] by (simp add: concat_chunks)

lemma div_ceil_pos: "0 < a \<Longrightarrow> 0 < b \<Longrightarrow> 0 < div_ceil a b"
  by (simp add: div_ceil_def div_greater_zero_iff)

lemma build_postings_exact: "grouped (\<lambda>row. row name) rows (build_postings_for_field E rows name)"
proof (cases "length rows < ACCESSOR_POSTINGS_PARALLEL_MIN_ROWS \<or> warm_workers E \<le> 1")
  case True
  then show ?thesis
    using grouped_fold [of "\<lambda>row. row name" "[]" "[]" rows] by (auto simp: build_postings_for_field_def Let_def post_row_group)
next
  case False
  then have "0 < div_ceil (length rows) (warm_workers E)"
    by (intro div_ceil_pos) (auto simp: ACCESSOR_POSTINGS_PARALLEL_MIN_ROWS_def)
  from grouped_parallel [OF this, of "\<lambda>row. row name" rows] False show ?thesis
    by (simp add: build_postings_for_field_def Let_def post_row_group)
qed

lemma map2_same: "map2 g (map f xs) (map h xs) = map (\<lambda>x. g (f x) (h x)) xs"
  by (induction xs) auto

lemma warm_fold:
  "fold (warm_step names) rows (acc, map f names) =
     (insert_rows rows acc, map (\<lambda>name. fold (post_row name) rows (f name)) names)"
proof (induction rows arbitrary: acc f)
  case (Cons r rows)
  have "map2 (\<lambda>name. post_row name r) names (map f names) = map (\<lambda>name. post_row name r (f name)) names"
    using map2_same [of "\<lambda>name. post_row name r" "\<lambda>name. name" names f] by simp
  with Cons show ?case by (simp add: warm_step_def insert_rows_def case_prod_beta)
qed (simp add: insert_rows_def)

lemma warm_rows_eq: "warm_rows names rows = (insert_rows rows [], map (\<lambda>name. fold (post_row name) rows []) names)"
  using warm_fold [of names rows "[]" "\<lambda>_. []"] by (simp add: warm_rows_def map_replicate_const)

lemma warm_parallel_fold:
  "fold (\<lambda>(local_rows, local_ps) (all_rows, ps). (insert_rows local_rows all_rows, map2 merge_postings local_ps ps))
     (map (warm_rows names) cs) (acc, map f names) =
   (fold insert_rows (map (\<lambda>c. insert_rows c []) cs) acc,
    map (\<lambda>name. fold merge_postings (map (\<lambda>c. fold (post_row name) c []) cs) (f name)) names)"
  by (induction cs arbitrary: acc f) (simp_all add: warm_rows_eq map2_same)

lemma insert_chunks:
  "distinct (map fst (acc @ concat cs)) \<Longrightarrow> fold insert_rows (map (\<lambda>c. insert_rows c []) cs) acc = acc @ concat cs"
proof (induction cs arbitrary: acc)
  case (Cons c cs)
  then have "distinct (map fst ([] @ c))" "distinct (map fst (acc @ c))" by auto
  then have "insert_rows c [] = [] @ c" "insert_rows c acc = acc @ c" by (simp_all only: insert_rows_fresh)
  moreover have "distinct (map fst ((acc @ c) @ concat cs))" using Cons.prems by simp
  ultimately show ?case using Cons.IH [of "acc @ c"] by simp
qed simp

lemma map_of_zip_names:
  "map_of (rev (zip names (map f names))) = (\<lambda>name. if name \<in> set names then Some (f name) else None)"
  by (induction names rule: rev_induct) (auto simp: fun_eq_iff)

lemma split_chunks_mset: "0 < n \<Longrightarrow> mset (concat (split_vec_into_chunks_loop xs n)) = mset xs"
proof (induction xs n rule: split_vec_into_chunks_loop.induct)
  case (1 xs n)
  show ?case
  proof (cases "xs = []")
    case False
    with 1 have "mset (concat (split_vec_into_chunks_loop xs n)) =
        mset (drop (length xs - n) xs) + mset (take (length xs - n) xs)"
      by (subst split_vec_into_chunks_loop.simps) (simp add: Let_def)
    then show ?thesis by (metis append_take_drop_id mset_append union_commute)
  qed (subst split_vec_into_chunks_loop.simps, simp)
qed

lemma split_vec_mset: "mset (concat (split_vec_into_chunks xs n)) = mset xs"
  by (simp add: split_vec_into_chunks_def split_chunks_mset)

lemma distinct_mset_keys: "mset xs = mset ys \<Longrightarrow> distinct (map fst ys) \<Longrightarrow> distinct (map fst xs)"
  by (metis mset_map distinct_count_atmost_1 set_mset_mset)

lemma build_rows_mset:
  assumes d: "distinct (map fst rows)"
  shows "mset (build_rows_by_id_from_snapshot E rows) = mset rows"
proof -
  let ?cs = "split_vec_into_chunks rows (div_ceil (length rows) (warm_workers E))"
  have "distinct (map fst (concat ?cs))" using distinct_mset_keys [OF split_vec_mset d] .
  then have "fold insert_rows (map (\<lambda>c. insert_rows c []) ?cs) [] = concat ?cs" using insert_chunks [of "[]" ?cs] by simp
  moreover have "insert_rows rows [] = rows" using insert_rows_fresh [of "[]" rows] d by simp
  ultimately show ?thesis by (simp add: build_rows_by_id_from_snapshot_def Let_def split_vec_mset)
qed

lemma set_normalize: "set (normalize_distinct_field_names names) = set names - {[]}"
proof -
  have "set (fold (\<lambda>name fs. if name = [] \<or> name \<in> set fs then fs else fs @ [name]) names acc) = set acc \<union> (set names - {[]})"
    if "[] \<notin> set acc" for acc :: "ustr list"
    using that by (induction names arbitrary: acc) auto
  from this [of "[]"] show ?thesis by (simp add: normalize_distinct_field_names_def)
qed

lemma cold_entry_shape:
  assumes d: "distinct (map fst rows)"
  obtains g where "\<And>name. grouped (\<lambda>row. row name) rows (g name)"
    and "build_cold_accessor_cache_entry E head rows names =
      (warm_entry E (normalize_distinct_field_names names) (rows, map g (normalize_distinct_field_names names)))
        \<lparr>latest_tx_id := head\<rparr>"
proof -
  let ?ns = "normalize_distinct_field_names names"
  have entry_eq: "(warm_entry E ?ns (rows, ps))\<lparr>latest_tx_id := head,
      approx_rows_bytes := estimate_rows_by_id_bytes E (rows_by_id (warm_entry E ?ns (rows, ps)))\<rparr> =
    (warm_entry E ?ns (rows, ps))\<lparr>latest_tx_id := head\<rparr>" for ps
    by (simp add: warm_entry_def default_entry_def)
  show ?thesis
  proof (cases "1 < warm_workers E \<and> EQUALITY_WARM_PARALLEL_MIN_ROWS \<le> length rows")
    case True
    let ?n = "div_ceil (length rows) (warm_workers E)"
    have n: "0 < ?n" using True by (intro div_ceil_pos) (auto simp: EQUALITY_WARM_PARALLEL_MIN_ROWS_def)
    let ?g = "\<lambda>name. fold merge_postings (map (\<lambda>c. fold (post_row name) c []) (chunks ?n rows)) []"
    have built: "build_warm_equality_cache_parallel E ?ns rows (warm_workers E) = warm_entry E ?ns (rows, map ?g ?ns)"
      using warm_parallel_fold [of ?ns "chunks ?n rows" "[]" "\<lambda>_. []"] insert_chunks [of "[]" "chunks ?n rows"] d
      by (simp add: build_warm_equality_cache_parallel_def map_replicate_const concat_chunks [OF n])
    have "grouped (\<lambda>row. row name) rows (?g name)" for name
      using grouped_parallel [OF n] by (simp add: post_row_group)
    then show ?thesis
      by (rule that) (unfold build_cold_accessor_cache_entry_def Let_def if_P [OF True] built, rule entry_eq)
  next
    case False
    let ?g = "\<lambda>name. fold (post_row name) rows []"
    have built: "build_warm_equality_cache_serial E ?ns rows = warm_entry E ?ns (rows, map ?g ?ns)"
      using insert_rows_fresh [of "[]" rows] d by (simp add: build_warm_equality_cache_serial_def warm_rows_eq)
    have "grouped (\<lambda>row. row name) rows (?g name)" for name
      using grouped_fold [of "\<lambda>row. row name" "[]" "[]" rows] by (simp add: post_row_group)
    then show ?thesis
      by (rule that) (unfold build_cold_accessor_cache_entry_def Let_def if_not_P [OF False] built, rule entry_eq)
  qed
qed

end
