(* ===== verification/AccessorRefine.thy ===== *)
theory AccessorRefine
  imports AccessorLookup
begin

text \<open>
  A cache entry refines the list of live rows: every lookup by value, range, prefix or pattern returns the
  rows that a scan of the list returns, between any insertions and deletions.
\<close>

section \<open>Text indexes\<close>

definition text_key :: "bool \<Rightarrow> ustr \<Rightarrow> row_map \<Rightarrow> ustr option" where
  "text_key ci name row = map_option (\<lambda>v. string_key_from_value v ci) (row name)"

text \<open>The values of the fields in \<open>T\<close> are texts without the last code point.\<close>

definition plain_text :: "bytes \<Rightarrow> bool" where
  "plain_text v \<longleftrightarrow> (case from_utf8 v of None \<Rightarrow> False | Some s \<Rightarrow> plain_key s)"

definition text_row :: "ustr set \<Rightarrow> row_map \<Rightarrow> bool" where
  "text_row T row \<longleftrightarrow> (\<forall>name \<in> T. case row name of None \<Rightarrow> True | Some v \<Rightarrow> plain_text v)"

lemma plain_text_key:
  assumes "plain_text v"
  shows "from_utf8 v = Some (string_key_from_value v False)" "plain_key (string_key_from_value v False)"
  using assms from_utf8_lossy_valid by (auto simp: plain_text_def string_key_from_value_def split: option.splits)

lemma plain_text_inj: "plain_text v \<Longrightarrow> plain_text w \<Longrightarrow>
    string_key_from_value v False = string_key_from_value w False \<Longrightarrow> v = w"
  using plain_text_key from_utf8_inject by metis

lemma text_row_key:
  assumes "text_row T row" "name \<in> T" "text_key False name row = Some k"
  obtains v where "row name = Some v" "plain_text v" "k = string_key_from_value v False" "plain_key k"
proof -
  obtain v where v: "row name = Some v" "k = string_key_from_value v False" using assms(3) by (auto simp: text_key_def)
  then have "plain_text v" using assms(1,2) by (fastforce simp: text_row_def)
  with v that plain_text_key(2) show ?thesis by blast
qed

lemma option_eqI: "(\<And>y. a = Some y \<longleftrightarrow> b = Some y) \<Longrightarrow> a = b"
  by (cases a; cases b) auto

lemma insert_all_map:
  "distinct (map fst g) \<Longrightarrow>
     map_of (items_by_key (fold (\<lambda>(key, ids) index. snd (tp_insert key ids index)) g index)) =
     map_of (items_by_key index) ++ map_of g"
proof (induction g arbitrary: index)
  case (Cons x g)
  obtain k ids where x: "x = (k, ids)" by (cases x)
  have fresh: "map_of g k = None" using Cons.prems x by (simp add: map_of_eq_None_iff)
  from Cons x show ?case
    by (auto simp: tp_insert_def map_of_bt_insert fresh map_add_def fun_eq_iff split: option.splits)
qed simp

lemma insert_all_inv:
  "\<forall>(k, ids) \<in> set g. plain_key k \<Longrightarrow> tp_inv index \<Longrightarrow>
     tp_inv (fold (\<lambda>(key, ids) index. snd (tp_insert key ids index)) g index)"
  by (induction g arbitrary: index) (auto simp: tp_inv_insert)

lemma items_new [simp]: "items_by_key tp_new = []"
  by (simp add: tp_new_def)

lemma grouped_pairs: "grouped key rows g \<Longrightarrow> (k, ids) \<in> set g \<longleftrightarrow> ids = keyed_ids key rows k \<and> ids \<noteq> []"
  using map_of_eq_Some_iff [of g k ids] by (simp add: index_exact_def postings_wf_def ids_map_Some)

lemma keyed_ids_key: "keyed_ids key rows k \<noteq> [] \<Longrightarrow> \<exists>i row. (i, row) \<in> set rows \<and> key row = Some k"
  by (force simp: keyed_ids_def filter_empty_conv)

lemma insert_all_exact:
  assumes g: "grouped key rows g" and plain: "\<And>i row k. (i, row) \<in> set rows \<Longrightarrow> key row = Some k \<Longrightarrow> plain_key k"
  shows "index_exact items_by_key tp_inv key rows (fold (\<lambda>(key, ids) index. snd (tp_insert key ids index)) g tp_new)"
proof -
  have "plain_key k" if "(k, ids) \<in> set g" for k ids
    using that keyed_ids_key [of key rows k] plain by (auto simp: grouped_pairs [OF g])
  then have "\<forall>(k, ids) \<in> set g. plain_key k" by auto
  moreover have "distinct (map fst g)" "map_of g = ids_map key rows" using g by (simp_all add: index_exact_def postings_wf_def)
  ultimately show ?thesis using insert_all_map [of g tp_new] insert_all_inv [of g tp_new]
    by (simp add: index_exact_def tp_inv_new)
qed

lemma string_index_rows_exact:
  assumes "\<And>i row. (i, row) \<in> set rows \<Longrightarrow> text_row T row" "name \<in> T"
  shows "index_exact items_by_key tp_inv (text_key False name) rows (build_string_index_for_field rows name False)"
proof -
  have "(\<lambda>(i, row) m. case row name of None \<Rightarrow> m | Some v \<Rightarrow> push_id (string_key_from_value v False) i m) =
      group_row (text_key False name)"
    by (auto simp: fun_eq_iff group_row_def text_key_def split: option.splits)
  then show ?thesis
    unfolding build_string_index_for_field_def Let_def
    using grouped_fold [of "text_key False name" "[]" "[]" rows] assms
    by (intro insert_all_exact) (auto elim: text_row_key)
qed

lemma keyed_ids_text:
  assumes "\<And>i row. (i, row) \<in> set rows \<Longrightarrow> text_row T row" "name \<in> T" "plain_text v"
  shows "keyed_ids (text_key False name) rows (string_key_from_value v False) = keyed_ids (\<lambda>row. row name) rows v"
proof -
  have "text_key False name row = Some (string_key_from_value v False) \<longleftrightarrow> row name = Some v" if "(i, row) \<in> set rows" for i row
    using assms(1) [OF that] assms(2,3) plain_text_inj by (fastforce simp: text_key_def text_row_def split: option.splits)
  then show ?thesis unfolding keyed_ids_def by (intro arg_cong [of _ _ "map fst"] filter_cong) auto
qed

lemma string_index_postings_exact:
  assumes texts: "\<And>i row. (i, row) \<in> set rows \<Longrightarrow> text_row T row" and name: "name \<in> T"
    and ps: "grouped (\<lambda>row. row name) rows ps"
  shows "index_exact items_by_key tp_inv (text_key False name) rows (build_string_index_from_postings ps False)"
proof -
  let ?key = "\<lambda>v. string_key_from_value v False"
  let ?g = "map (\<lambda>(v, ids). (?key v, ids)) ps"
  have plain: "plain_text v" if "(v, ids) \<in> set ps" for v ids
    using that keyed_ids_key [of "\<lambda>row. row name" rows v] texts name
    by (fastforce simp: grouped_pairs [OF ps] text_row_def)
  have dps: "distinct (map fst ps)" using ps by (simp add: index_exact_def postings_wf_def)
  have inj: "inj_on ?key (set (map fst ps))"
  proof (rule inj_onI)
    fix v w assume "v \<in> set (map fst ps)" "w \<in> set (map fst ps)" "?key v = ?key w"
    then show "v = w" using plain by (intro plain_text_inj) auto
  qed
  have "map fst ?g = map ?key (map fst ps)" by (simp add: comp_def case_prod_beta)
  with dps inj have dg: "distinct (map fst ?g)" by (simp only: distinct_map)
  have "map_of ?g k = Some ids \<longleftrightarrow> ids_map (text_key False name) rows k = Some ids" for k ids
  proof -
    have "map_of ?g k = Some ids \<longleftrightarrow> (\<exists>v. (v, ids) \<in> set ps \<and> k = ?key v)"
      using map_of_eq_Some_iff [OF dg, of k ids] by auto
    also have "\<dots> \<longleftrightarrow> ids = keyed_ids (text_key False name) rows k \<and> ids \<noteq> []" (is "?L \<longleftrightarrow> ?R")
    proof
      assume ?L
      then show ?R using keyed_ids_text [OF texts name] plain grouped_pairs [OF ps] by auto
    next
      assume R: ?R
      then obtain i row where "(i, row) \<in> set rows" "text_key False name row = Some k" using keyed_ids_key by metis
      then obtain v where "k = ?key v" "plain_text v" using texts name by (metis text_row_key)
      with R keyed_ids_text [OF texts name] show ?L unfolding grouped_pairs [OF ps] by auto
    qed
    finally show ?thesis by (simp add: ids_map_Some)
  qed
  then have "map_of ?g = ids_map (text_key False name) rows" by (intro ext option_eqI)
  with dg have "grouped (text_key False name) rows ?g" by (auto simp: index_exact_def postings_wf_def)
  then have "index_exact items_by_key tp_inv (text_key False name) rows
      (fold (\<lambda>(key, ids) index. snd (tp_insert key ids index)) ?g tp_new)"
    using texts name by (intro insert_all_exact) (auto elim: text_row_key)
  then show ?thesis by (simp add: build_string_index_from_postings_def fold_map comp_def case_prod_unfold)
qed

section \<open>Keys of remembered ranges\<close>

lemma hex_char_inj: "m < 16 \<Longrightarrow> n < 16 \<Longrightarrow> hex_char m = hex_char n \<Longrightarrow> m = n"
  by (auto simp: hex_char_def split: if_splits)

lemma hex_char_plain: "n < 16 \<Longrightarrow> hex_char n \<noteq> 124 \<and> hex_char n \<noteq> 95"
  by (auto simp: hex_char_def)

lemma nibbles: "unat (b :: byte) div 16 < 16" "unat b mod 16 < 16"
  using unat_byte_less [of b] by (simp_all add: less_mult_imp_div_less)

lemma hex_byte_inj: "hex_byte a = hex_byte b \<Longrightarrow> a = b"
proof -
  assume "hex_byte a = hex_byte b"
  then have "unat a div 16 = unat b div 16" "unat a mod 16 = unat b mod 16"
    using hex_char_inj nibbles by (auto simp: hex_byte_def)
  then have "unat a = unat b" by (metis div_mult_mod_eq)
  then show ?thesis by (simp add: word_unat_eq_iff)
qed

lemma hex_bytes_inj: "concat (map hex_byte as) = concat (map hex_byte bs) \<Longrightarrow> as = bs"
proof (induction as arbitrary: bs)
  case Nil
  then show ?case by (cases bs) (auto simp: hex_byte_def)
next
  case (Cons a as)
  then obtain b bs' where bs: "bs = b # bs'" by (cases bs) (auto simp: hex_byte_def)
  have "length (hex_byte a) = length (hex_byte b)" by (simp add: hex_byte_def)
  with Cons.prems bs have "hex_byte a = hex_byte b" "concat (map hex_byte as) = concat (map hex_byte bs')" by auto
  with Cons.IH hex_byte_inj bs show ?case by blast
qed

lemma append_bound_key_inj: "append_bound_key label a = append_bound_key label b \<Longrightarrow> a = b"
  using hex_bytes_inj by (auto simp: append_bound_key_def lit_def split: option.splits if_splits intro: RangeBound.equality)

lemma append_bound_key_plain: "124 \<notin> set label \<Longrightarrow> 124 \<notin> set (append_bound_key label b)"
proof -
  assume "124 \<notin> set label"
  moreover have "124 \<notin> set (hex_byte x)" for x
    using hex_char_plain [OF nibbles(1), of x] hex_char_plain [OF nibbles(2), of x] by (auto simp: hex_byte_def)
  ultimately show ?thesis by (auto simp: append_bound_key_def lit_def split: option.splits)
qed

lemma append_last_inj:
  assumes "xs @ c # ys = xs' @ c # ys'" "c \<notin> set ys" "c \<notin> set ys'"
  shows "xs = xs'" "ys = ys'"
proof -
  have "takeWhile (\<lambda>x. x \<noteq> c) (rev (as @ c # bs)) = rev bs" if "c \<notin> set bs" for as bs
    using that by (auto simp: takeWhile_tail)
  then have "rev ys = rev ys'" using assms by metis
  then show "ys = ys'" by simp
  with assms(1) show "xs = xs'" by simp
qed

lemma range_bounds_cache_key_inj:
  assumes "range_bounds_cache_key n lo hi = range_bounds_cache_key n' lo' hi'"
  shows "n = n' \<and> lo = lo' \<and> hi = hi'"
proof -
  let ?l = "append_bound_key (lit ''l'')" and ?u = "append_bound_key (lit ''u'')"
  have bar: "lit ''|'' = [124]" "124 \<notin> set (lit ''l'')" "124 \<notin> set (lit ''u'')" by (simp_all add: lit_def)
  from assms have eq: "(n @ 124 # ?l lo) @ 124 # ?u hi = (n' @ 124 # ?l lo') @ 124 # ?u hi'"
    by (simp add: range_bounds_cache_key_def bar)
  have outer: "n @ 124 # ?l lo = n' @ 124 # ?l lo'" "?u hi = ?u hi'"
    using append_last_inj [OF eq] bar by (auto simp: append_bound_key_plain)
  have "n = n'" "?l lo = ?l lo'"
    using append_last_inj [OF outer(1)] bar by (auto simp: append_bound_key_plain)
  with outer(2) append_bound_key_inj show ?thesis by blast
qed

section \<open>The invariant of an entry\<close>

definition within :: "acc_env \<Rightarrow> ustr \<Rightarrow> RangeBound option \<Rightarrow> RangeBound option \<Rightarrow> live_row \<Rightarrow> bool" where
  "within E name lo hi r = (case snd r name of None \<Rightarrow> False | Some v \<Rightarrow> value_within_range (acc_values E) v lo hi)"

definition entry_exact :: "acc_env \<Rightarrow> ustr set \<Rightarrow> EqualityTableCacheEntry \<Rightarrow> bool" where
  "entry_exact E T e \<longleftrightarrow>
     distinct (map fst (rows_by_id e)) \<and>
     (\<forall>i row. (i, row) \<in> set (rows_by_id e) \<longrightarrow> text_row T row) \<and>
     (\<forall>name ps. row_ids_by_field_value e name = Some ps \<longrightarrow> grouped (\<lambda>row. row name) (rows_by_id e) ps) \<and>
     (\<forall>name index. string_index_by_field e name = Some index \<longrightarrow>
        name \<in> T \<and> index_exact items_by_key tp_inv (text_key False name) (rows_by_id e) index) \<and>
     (\<forall>name lo hi ids. range_row_ids_cache e (range_bounds_cache_key name lo hi) = Some ids \<longrightarrow>
        mset ids = mset (map fst (filter (within E name lo hi) (rows_by_id e))))"

lemma entry_exactD:
  assumes "entry_exact E T e"
  shows "distinct (map fst (rows_by_id e))"
    and "(i, row) \<in> set (rows_by_id e) \<Longrightarrow> text_row T row"
    and "row_ids_by_field_value e name = Some ps \<Longrightarrow> grouped (\<lambda>row. row name) (rows_by_id e) ps"
    and "string_index_by_field e name = Some index \<Longrightarrow>
          name \<in> T \<and> index_exact items_by_key tp_inv (text_key False name) (rows_by_id e) index"
    and "range_row_ids_cache e (range_bounds_cache_key name lo hi) = Some ids \<Longrightarrow>
          mset ids = mset (map fst (filter (within E name lo hi) (rows_by_id e)))"
  using assms unfolding entry_exact_def by blast+

lemma entry_exactI:
  assumes "distinct (map fst (rows_by_id e))"
    and "\<And>i row. (i, row) \<in> set (rows_by_id e) \<Longrightarrow> text_row T row"
    and "\<And>name ps. row_ids_by_field_value e name = Some ps \<Longrightarrow> grouped (\<lambda>row. row name) (rows_by_id e) ps"
    and "\<And>name index. string_index_by_field e name = Some index \<Longrightarrow>
          name \<in> T \<and> index_exact items_by_key tp_inv (text_key False name) (rows_by_id e) index"
    and "\<And>name lo hi ids. range_row_ids_cache e (range_bounds_cache_key name lo hi) = Some ids \<Longrightarrow>
          mset ids = mset (map fst (filter (within E name lo hi) (rows_by_id e)))"
  shows "entry_exact E T e"
  using assms unfolding entry_exact_def by blast

lemma change_fields_Some:
  "change_fields f row m name = Some y \<longleftrightarrow> (\<exists>x. m name = Some x \<and> y = (case row name of None \<Rightarrow> x | Some v \<Rightarrow> f v x))"
  by (auto simp: change_fields_def split: option.splits)

lemma text_key_case: "(case text_key False name row of None \<Rightarrow> x | Some k \<Rightarrow> g k) =
    (case row name of None \<Rightarrow> x | Some v \<Rightarrow> g (string_key_from_value v False))"
  by (simp add: text_key_def split: option.splits)

lemma entry_exact_insert:
  assumes ok: "entry_exact E T e" and fresh: "fresh_id i (rows_by_id e)" and texts: "text_row T row"
  shows "entry_exact E T (apply_cached_row_insert i row e)"
    and "rows_by_id (apply_cached_row_insert i row e) = rows_by_id e @ [(i, row)]"
proof -
  note D = entry_exactD [OF ok]
  show rows: "rows_by_id (apply_cached_row_insert i row e) = rows_by_id e @ [(i, row)]"
    using fresh by (simp add: apply_cached_row_insert_def update_fresh fresh_id_def)
  show "entry_exact E T (apply_cached_row_insert i row e)"
  proof (rule entry_exactI, unfold rows)
    show "distinct (map fst (rows_by_id e @ [(i, row)]))" using D(1) fresh by (simp add: fresh_id_def)
    show "text_row T r" if "(j, r) \<in> set (rows_by_id e @ [(i, row)])" for j r using that D(2) texts by auto
    show "grouped (\<lambda>row. row name) (rows_by_id e @ [(i, row)]) ps"
      if "row_ids_by_field_value (apply_cached_row_insert i row e) name = Some ps" for name ps
      using that posting.exact_add [OF D(3), of name _ row i]
      by (auto simp: apply_cached_row_insert_def change_fields_Some)
    show "name \<in> T \<and> index_exact items_by_key tp_inv (text_key False name) (rows_by_id e @ [(i, row)]) index"
      if ix: "string_index_by_field (apply_cached_row_insert i row e) name = Some index" for name index
    proof -
      obtain old where old: "string_index_by_field e name = Some old"
        "index = (case row name of None \<Rightarrow> old | Some v \<Rightarrow> add_row_id_to_string_index (string_key_from_value v False) i old)"
        using ix by (auto simp: apply_cached_row_insert_def change_fields_Some)
      have name: "name \<in> T" using D(4) [OF old(1)] by simp
      have "index_exact items_by_key tp_inv (text_key False name) (rows_by_id e @ [(i, row)])
          (case text_key False name row of None \<Rightarrow> old | Some k \<Rightarrow> add_row_id_to_string_index k i old)"
        using D(4) [OF old(1)] texts name by (intro text_ids.exact_add) (auto elim: text_row_key)
      then show ?thesis using name old(2) by (simp add: text_key_case)
    qed
  qed (simp add: apply_cached_row_insert_def)
qed

lemma entry_exact_delete:
  assumes ok: "entry_exact E T e" and mem: "(i, row) \<in> set (rows_by_id e)"
  shows "entry_exact E T (apply_cached_row_delete i row e)"
    and "rows_by_id (apply_cached_row_delete i row e) = AList.delete i (rows_by_id e)"
proof -
  note D = entry_exactD [OF ok]
  show rows: "rows_by_id (apply_cached_row_delete i row e) = AList.delete i (rows_by_id e)"
    by (simp add: apply_cached_row_delete_def)
  show "entry_exact E T (apply_cached_row_delete i row e)"
  proof (rule entry_exactI, unfold rows)
    show "distinct (map fst (AList.delete i (rows_by_id e)))" using D(1) by (rule distinct_delete)
    show "text_row T r" if "(j, r) \<in> set (AList.delete i (rows_by_id e))" for j r
      using that D(2) by (auto simp: AList.delete_eq)
    show "grouped (\<lambda>row. row name) (AList.delete i (rows_by_id e)) ps"
      if "row_ids_by_field_value (apply_cached_row_delete i row e) name = Some ps" for name ps
      using that posting.exact_del [OF D(3) D(1) mem, of name]
      by (auto simp: apply_cached_row_delete_def change_fields_Some)
    show "name \<in> T \<and> index_exact items_by_key tp_inv (text_key False name) (AList.delete i (rows_by_id e)) index"
      if "string_index_by_field (apply_cached_row_delete i row e) name = Some index" for name index
      using that D(4) [of name] text_ids.exact_del [OF _ D(1) mem, of "text_key False name"]
      by (auto simp: apply_cached_row_delete_def change_fields_Some text_key_case)
  qed (simp add: apply_cached_row_delete_def)
qed

section \<open>Lookups\<close>

lemma mset_map_filter_cong: "mset xs = mset ys \<Longrightarrow> mset (List.map_filter f xs) = mset (List.map_filter f ys)"
  by (simp add: List.map_filter_def)

lemma map_filter_keys: "\<forall>(i, r) \<in> set xs. f i = Some (i, r) \<Longrightarrow> List.map_filter f (map fst xs) = xs"
  by (induction xs) (auto simp: List.map_filter_simps)

lemma rows_of_ids_mset:
  assumes d: "distinct (map fst (rows_by_id e))" and ids: "mset ids = mset (map fst (filter P (rows_by_id e)))"
  shows "mset (rows_of_ids e ids) = mset (filter P (rows_by_id e))"
proof -
  let ?f = "\<lambda>i. map_option (Pair i) (map_of (rows_by_id e) i)"
  have "\<forall>(i, r) \<in> set (filter P (rows_by_id e)). ?f i = Some (i, r)"
    using map_of_eq_Some_iff [OF d] by auto
  then have "List.map_filter ?f (map fst (filter P (rows_by_id e))) = filter P (rows_by_id e)" by (rule map_filter_keys)
  with mset_map_filter_cong [OF ids, of ?f] show ?thesis by (simp only: rows_of_ids_def)
qed

lemma distinct_map_filter_inj:
  "distinct xs \<Longrightarrow> (\<And>x y z. x \<in> set xs \<Longrightarrow> y \<in> set xs \<Longrightarrow> f x = Some z \<Longrightarrow> f y = Some z \<Longrightarrow> x = y) \<Longrightarrow>
     distinct (List.map_filter f xs)"
proof (induction xs)
  case (Cons x xs)
  then have "distinct (List.map_filter f xs)" by auto
  moreover have "f x = Some z \<Longrightarrow> z \<notin> set (List.map_filter f xs)" for z
    using Cons.prems by (fastforce simp: in_set_map_filter)
  ultimately show ?case by (simp add: List.map_filter_simps split: option.splits)
qed (simp add: List.map_filter_simps)

lemma bt_sorted_distinct_pairs: "bt_sorted xs \<Longrightarrow> distinct xs"
  using bt_sorted_distinct distinct_map by blast

lemma distinct_search_suffix:
  assumes inv: "tp_inv s"
  shows "distinct (search_suffix s sfx False)"
proof -
  have sorted: "bt_sorted (reverse_key_to_key s)" using inv by (simp add: tp_inv_def)
  have rkey: "rkey = rev key" if "(rkey, key) \<in> set (reverse_key_to_key s)" for rkey key
    using inv filter_sorted_items [OF sorted, of rkey key] that by (auto simp: tp_inv_def split: if_splits)
  show ?thesis
    unfolding search_suffix_def Let_def not_False_eq_True if_True
  proof (rule distinct_map_filter_inj)
    show "distinct (bt_range (reverse_key sfx) (prefix_upper_bound (reverse_key sfx)) (reverse_key_to_key s))"
      using bt_sorted_distinct_pairs [OF sorted] by (simp add: bt_range_def)
  qed (auto simp: bt_range_def split: if_splits dest!: rkey)
qed

lemma distinct_search_like: "tp_inv s \<Longrightarrow> distinct (search_like s pattern)"
  using distinct_search_suffix [of s "tl pattern"] bt_sorted_distinct_pairs [of "items_by_key s"]
  by (auto simp: search_like_def search_prefix_def bt_range_def tp_inv_def split: option.splits)

lemma search_like_mset:
  assumes "tp_inv s" "pattern \<noteq> []"
  shows "mset (search_like s pattern) = mset (filter (\<lambda>(key, v). like_text pattern key) (items_by_key s))"
proof -
  have "distinct (items_by_key s)" using assms(1) bt_sorted_distinct_pairs by (auto simp: tp_inv_def)
  then have "distinct (filter (\<lambda>(key, v). like_text pattern key) (items_by_key s))" by simp
  moreover have "set (search_like s pattern) = set (filter (\<lambda>(key, v). like_text pattern key) (items_by_key s))"
    unfolding search_like_exact [OF assms] using tp_inv_item [OF assms(1)] by auto
  ultimately show ?thesis using distinct_search_like [OF assms(1)] set_eq_iff_mset_eq_distinct by blast
qed

lemma mset_concat_snd: "mset xs = mset ys \<Longrightarrow> mset (concat (map snd xs)) = mset (concat (map snd ys))"
proof -
  have sum: "mset (concat (map snd zs)) = (\<Sum>z \<in># mset zs. mset (snd z))" for zs :: "('a \<times> 'b list) list"
    by (induction zs) auto
  assume "mset xs = mset ys"
  then show ?thesis by (simp only: sum)
qed

lemma text_lookup:
  assumes ok: "entry_exact E T e" and ix: "string_index_by_field e name = Some index"
    and found: "mset found = mset (filter (\<lambda>(key, ids). P key) (items_by_key index))"
  shows "mset (rows_of_ids e (concat (map snd found))) =
         mset (filter (\<lambda>r. case text_key False name (snd r) of None \<Rightarrow> False | Some k \<Rightarrow> P k) (rows_by_id e))"
proof (rule rows_of_ids_mset)
  note D = entry_exactD [OF ok]
  show "distinct (map fst (rows_by_id e))" by (rule D(1))
  show "mset (concat (map snd found)) =
      mset (map fst (filter (\<lambda>r. case text_key False name (snd r) of None \<Rightarrow> False | Some k \<Rightarrow> P k) (rows_by_id e)))"
    using mset_concat_snd [OF found] text_ids.exact_filtered_ids [OF _ D(1), of "text_key False name" index P] D(4) [OF ix]
    by metis
qed

lemma ensure_postings_exact:
  assumes "entry_exact E T e"
  shows "entry_exact E T (ensure_field_postings E name e)"
    and "rows_by_id (ensure_field_postings E name e) = rows_by_id e"
    and "dom (row_ids_by_field_value (ensure_field_postings E name e)) = insert name (dom (row_ids_by_field_value e))"
proof -
  show "entry_exact E T (ensure_field_postings E name e)"
    using entry_exactD [OF assms] build_postings_exact [of name "rows_by_id e" E]
    by (intro entry_exactI) (auto simp: ensure_field_postings_def split: if_splits)
qed (auto simp: ensure_field_postings_def)

lemma ensure_all_postings:
  assumes "entry_exact E T e"
  shows "entry_exact E T (fold (ensure_field_postings E) names e)"
    and "rows_by_id (fold (ensure_field_postings E) names e) = rows_by_id e"
    and "dom (row_ids_by_field_value (fold (ensure_field_postings E) names e)) = set names \<union> dom (row_ids_by_field_value e)"
  using assms by (induction names arbitrary: e) (simp_all add: ensure_postings_exact)

lemma ensure_index_exact:
  assumes ok: "entry_exact E T e" and name: "name \<in> T"
  shows "entry_exact E T (ensure_string_like_index name False e)"
    and "rows_by_id (ensure_string_like_index name False e) = rows_by_id e"
    and "string_index_by_field (ensure_string_like_index name False e) name \<noteq> None"
proof -
  note D = entry_exactD [OF ok]
  have built: "index_exact items_by_key tp_inv (text_key False name) (rows_by_id e) (string_index_source e name False)"
    using string_index_rows_exact [OF D(2) name] string_index_postings_exact [OF D(2) name D(3)]
    by (simp add: string_index_source_def split: option.split)
  show "entry_exact E T (ensure_string_like_index name False e)"
    using D built name by (intro entry_exactI) (auto simp: ensure_string_like_index_def split: if_splits)
qed (auto simp: ensure_string_like_index_def)

text \<open>The ids of a posting list, absent when no row has the value.\<close>

lemma posting_lookup:
  assumes "entry_exact E T e" "name \<in> dom (row_ids_by_field_value e)"
  shows "Option.bind (row_ids_by_field_value e name) (\<lambda>ps. map_of ps v) = ids_map (\<lambda>row. row name) (rows_by_id e) v"
  using assms entry_exactD(3) [OF assms(1)] by (fastforce simp: index_exact_def)

lemma keyed_ids_filter: "keyed_ids (\<lambda>row. row name) rows v = map fst (filter (\<lambda>(i, row). row name = Some v) rows)"
  by (simp add: keyed_ids_def case_prod_unfold)

lemma rows_of_keyed:
  assumes "entry_exact E T e"
  shows "mset (rows_of_ids e (keyed_ids (\<lambda>row. row name) (rows_by_id e) v)) =
         mset (filter (\<lambda>(i, row). row name = Some v) (rows_by_id e))"
  by (rule rows_of_ids_mset [OF entry_exactD(1) [OF assms]]) (simp add: keyed_ids_filter)

definition matches_bytes :: "(ustr \<times> bytes) list \<Rightarrow> row_map \<Rightarrow> bool" where
  "matches_bytes filters row \<longleftrightarrow> (\<forall>(name, v) \<in> set filters. row name = Some v)"

lemma seed_loop_cases:
  assumes "\<And>f. f \<in> set fs \<Longrightarrow>
      Option.bind (row_ids_by_field_value e (fst f)) (\<lambda>ps. map_of ps (snd f)) = (case K f of [] \<Rightarrow> None | ids \<Rightarrow> Some ids)"
  shows "case seed_loop e fs seed of
      None \<Rightarrow> \<exists>f \<in> set fs. K f = []
    | Some r \<Rightarrow> r = seed \<and> (fs \<noteq> [] \<longrightarrow> seed \<noteq> None) \<or> (\<exists>f \<in> set fs. r = Some (K f))"
  using assms
proof (induction fs arbitrary: seed)
  case (Cons f fs)
  obtain name v where f: "f = (name, v)" by (cases f)
  show ?case
  proof (cases "K f")
    case Nil
    with Cons.prems [of f] f show ?thesis by simp
  next
    case (Cons i ids)
    then have lookup: "Option.bind (row_ids_by_field_value e name) (\<lambda>ps. map_of ps v) = Some (K f)"
      using Cons.prems [of f] f by simp
    obtain s where s: "seed_loop e (f # fs) seed = seed_loop e fs s" "s = seed \<and> seed \<noteq> None \<or> s = Some (K f)"
      using lookup f by (cases seed) (auto split: if_splits)
    have "case seed_loop e fs s of None \<Rightarrow> \<exists>f \<in> set fs. K f = []
        | Some r \<Rightarrow> r = s \<and> (fs \<noteq> [] \<longrightarrow> s \<noteq> None) \<or> (\<exists>f \<in> set fs. r = Some (K f))"
      using Cons.prems by (intro Cons.IH) simp
    with s show ?thesis by (auto split: option.splits)
  qed
qed simp

lemma keyed_ids_empty:
  assumes "keyed_ids (\<lambda>row. row name) rows v = []" "(name, v) \<in> set filters"
  shows "filter (\<lambda>(i, row). matches_bytes filters row) rows = []"
  using assms by (fastforce simp: keyed_ids_def matches_bytes_def filter_empty_conv)

lemma filter_matches_seed:
  assumes "(name, v) \<in> set filters"
  shows "filter (\<lambda>(i, row). matches_bytes filters row) (filter (\<lambda>(i, row). row name = Some v) rows) =
         filter (\<lambda>(i, row). matches_bytes filters row) rows"
  using assms by (fastforce simp: matches_bytes_def intro: filter_cong)

lemma list_all_matches: "list_all (\<lambda>(name, v). row name = Some v) filters \<longleftrightarrow> matches_bytes filters row"
  by (auto simp: matches_bytes_def list_all_iff)

lemma rows_for_field_values_exact:
  assumes ok: "entry_exact E T e" and fields: "fst ` set filters \<subseteq> dom (row_ids_by_field_value e)" and ne: "filters \<noteq> []"
  shows "mset (rows_for_field_values e filters) = mset (filter (\<lambda>(i, row). matches_bytes filters row) (rows_by_id e))"
proof (cases "length filters = 1")
  case True
  then obtain name v where f: "filters = [(name, v)]" by (cases filters) auto
  have "Option.bind (row_ids_by_field_value e name) (\<lambda>ps. map_of ps v) = ids_map (\<lambda>row. row name) (rows_by_id e) v"
    using posting_lookup [OF ok] fields f by simp
  then have "mset (rows_for_field_values e filters) = mset (rows_of_ids e (keyed_ids (\<lambda>row. row name) (rows_by_id e) v))"
    by (auto simp: rows_for_field_values_def rows_for_field_value_def f ids_map_def rows_of_ids_def List.map_filter_simps split: list.splits)
  with rows_of_keyed [OF ok, of name v] show ?thesis by (simp add: f matches_bytes_def)
next
  case False
  let ?fs = "sort_key (posting_length e) filters"
  let ?K = "\<lambda>f. keyed_ids (\<lambda>row. row (fst f)) (rows_by_id e) (snd f)"
  have "Option.bind (row_ids_by_field_value e (fst f)) (\<lambda>ps. map_of ps (snd f)) = (case ?K f of [] \<Rightarrow> None | ids \<Rightarrow> Some ids)"
    if "f \<in> set ?fs" for f
    using posting_lookup [OF ok] fields that by (simp add: image_subset_iff ids_map_def)
  note seed = seed_loop_cases [of ?fs e ?K None, OF this]
  have "?fs \<noteq> []" using ne by (metis length_0_conv length_sort)
  with seed consider (empty) f where "seed_loop e ?fs None = None" "f \<in> set filters" "keyed_ids (\<lambda>row. row (fst f)) (rows_by_id e) (snd f) = []"
    | (ids) f where "seed_loop e ?fs None = Some (Some (keyed_ids (\<lambda>row. row (fst f)) (rows_by_id e) (snd f)))" "f \<in> set filters"
    by (auto split: option.splits)
  then show ?thesis
  proof cases
    case empty
    then show ?thesis
      using False keyed_ids_empty [of "fst f" "rows_by_id e" "snd f" filters] by (simp add: rows_for_field_values_def)
  next
    case ids
    let ?P = "\<lambda>(i, row). matches_bytes filters row"
    have "mset (filter ?P (rows_of_ids e (keyed_ids (\<lambda>row. row (fst f)) (rows_by_id e) (snd f)))) =
        mset (filter ?P (filter (\<lambda>(i, row). row (fst f) = Some (snd f)) (rows_by_id e)))"
      using rows_of_keyed [OF ok, of "fst f" "snd f"] by (metis mset_filter)
    also have "\<dots> = mset (filter ?P (rows_by_id e))" by (subst filter_matches_seed) (use ids(2) in simp_all)
    finally show ?thesis using False ids(1) by (simp add: rows_for_field_values_def list_all_matches)
  qed
qed

lemma count_rows_exact:
  assumes ok: "entry_exact E T e" and fields: "fst ` set filters \<subseteq> dom (row_ids_by_field_value e)" and ne: "filters \<noteq> []"
  shows "count_rows_for_field_values e filters = length (filter (\<lambda>(i, row). matches_bytes filters row) (rows_by_id e))"
proof (cases "length filters = 1")
  case True
  then obtain name v where f: "filters = [(name, v)]" by (cases filters) auto
  have "Option.bind (row_ids_by_field_value e name) (\<lambda>ps. map_of ps v) = ids_map (\<lambda>row. row name) (rows_by_id e) v"
    using posting_lookup [OF ok] fields f by simp
  then have "count_rows_for_field_values e filters = length (keyed_ids (\<lambda>row. row name) (rows_by_id e) v)"
    by (auto simp: count_rows_for_field_values_def f ids_map_def split: list.splits)
  then show ?thesis by (simp add: keyed_ids_filter f matches_bytes_def)
next
  case False
  then show ?thesis using rows_for_field_values_exact [OF assms]
    by (simp add: count_rows_for_field_values_def) (metis size_mset mset_filter)
qed

lemma range_ids_exact:
  assumes ok: "entry_exact E T e" and name: "name \<in> dom (row_ids_by_field_value e)"
    and r: "row_ids_for_field_range E e name lo hi = (ids, e')"
  shows "mset ids = mset (map fst (filter (within E name lo hi) (rows_by_id e)))"
    and "entry_exact E T e'" and "rows_by_id e' = rows_by_id e"
proof -
  note D = entry_exactD [OF ok]
  obtain ps where ps: "row_ids_by_field_value e name = Some ps" using name by auto
  let ?key = "range_bounds_cache_key name lo hi"
  let ?new = "concat (map snd (filter (\<lambda>(v, _). value_within_range (acc_values E) v lo hi) ps))"
  have new: "mset ?new = mset (map fst (filter (within E name lo hi) (rows_by_id e)))"
    using posting.exact_filtered_ids [OF D(3) [OF ps] D(1)] by (simp add: within_def [abs_def])
  have "mset ids = mset (map fst (filter (within E name lo hi) (rows_by_id e))) \<and> entry_exact E T e' \<and> rows_by_id e' = rows_by_id e"
  proof (cases "range_row_ids_cache e ?key")
    case None
    then have e': "ids = ?new" "e' = e\<lparr>range_row_ids_cache := (range_row_ids_cache e)(?key \<mapsto> ?new)\<rparr>"
      using r ps by (auto simp: row_ids_for_field_range_def Let_def)
    moreover have "entry_exact E T e'"
      unfolding e'(2) using D new
      by (intro entry_exactI) (auto split: if_splits dest!: range_bounds_cache_key_inj)
    ultimately show ?thesis using new by simp
  next
    case (Some cached)
    then show ?thesis using r D(5) [OF Some] ok by (simp add: row_ids_for_field_range_def Let_def)
  qed
  then show "mset ids = mset (map fst (filter (within E name lo hi) (rows_by_id e)))"
    "entry_exact E T e'" "rows_by_id e' = rows_by_id e" by auto
qed

lemma within_filter_eq: "within E (range_field f) (lower_bound f) (upper_bound f) = (\<lambda>r. within_filter E (snd r) f)"
  by (simp add: within_filter_def within_def fun_eq_iff)

lemma range_filters_exact:
  assumes ok: "entry_exact E T e" and name: "range_field f \<in> dom (row_ids_by_field_value e)"
    and r: "rows_for_range_filters E e (f # fs) = (found, e')"
  shows "mset found = mset (filter (\<lambda>(i, row). list_all (within_filter E row) (f # fs)) (rows_by_id e))"
    and "entry_exact E T e'" and "rows_by_id e' = rows_by_id e"
proof -
  obtain ids e1 where i: "row_ids_for_field_range E e (range_field f) (lower_bound f) (upper_bound f) = (ids, e1)"
    by (cases "row_ids_for_field_range E e (range_field f) (lower_bound f) (upper_bound f)")
  note R = range_ids_exact [OF ok name i]
  have anchor: "mset (rows_of_ids e1 ids) = mset (filter (within E (range_field f) (lower_bound f) (upper_bound f)) (rows_by_id e))"
    using rows_of_ids_mset [of e1 ids] R entry_exactD(1) [OF ok] by simp
  have e': "e' = e1" using r i by (auto simp: rows_for_range_filters_def split: if_splits)
  show "entry_exact E T e'" "rows_by_id e' = rows_by_id e" using R e' by simp_all
  have "mset found = mset (filter (\<lambda>(i, row). list_all (within_filter E row) fs) (rows_of_ids e1 ids))"
    using r i by (auto simp: rows_for_range_filters_def case_prod_unfold split: if_splits)
  also have "\<dots> = mset (filter (\<lambda>(i, row). list_all (within_filter E row) (f # fs)) (rows_by_id e))"
    using anchor by (simp add: within_filter_eq case_prod_unfold filter_filter_mset)
  finally show "mset found = mset (filter (\<lambda>(i, row). list_all (within_filter E row) (f # fs)) (rows_by_id e))" .
qed

section \<open>Refinement\<close>

datatype access_command =
    CacheInsert u64 row_map | CacheDelete u64 row_map
  | FindEqual "(ustr \<times> bytes) list" | CountEqual "(ustr \<times> bytes) list"
  | FindRanges RangeFilterBounds "RangeFilterBounds list"
  | FindPattern ustr bytes | FindPrefixed ustr bytes

datatype access_reply = Changed | Found "live_row multiset" | Counted nat

text \<open>
  The steps of the cache: the lookups as the loaders run them on an entry that matches the log, each
  after its call of \<open>ensure_field_postings\<close> or \<open>ensure_string_like_index\<close>.
\<close>

fun entry_step :: "acc_env \<Rightarrow> EqualityTableCacheEntry \<Rightarrow> access_command \<Rightarrow> access_reply \<times> EqualityTableCacheEntry" where
  "entry_step E e (CacheInsert i row) = (Changed, apply_cached_row_insert i row e)"
| "entry_step E e (CacheDelete i row) = (Changed, apply_cached_row_delete i row e)"
| "entry_step E e (FindEqual filters) =
     (let e' = fold (ensure_field_postings E) (map fst filters) e in (Found (mset (rows_for_field_values e' filters)), e'))"
| "entry_step E e (CountEqual filters) =
     (let e' = fold (ensure_field_postings E) (map fst filters) e in (Counted (count_rows_for_field_values e' filters), e'))"
| "entry_step E e (FindRanges f fs) =
     (case rows_for_range_filters E (ensure_field_postings E (range_field f) e) (f # fs) of
        (found, e') \<Rightarrow> (Found (mset found), e'))"
| "entry_step E e (FindPattern name pattern) =
     (let e' = ensure_string_like_index name False e
      in (Found (case rows_for_field_string_like_indexed e' name pattern of None \<Rightarrow> {#} | Some found \<Rightarrow> mset found), e'))"
| "entry_step E e (FindPrefixed name p) =
     (let e' = ensure_string_like_index name False (ensure_field_postings E name e)
      in (Found (mset (rows_for_field_prefix e' name p False)), e'))"

text \<open>The specification scans the list of live rows.\<close>

definition field_text :: "ustr \<Rightarrow> (ustr \<Rightarrow> bool) \<Rightarrow> row_map \<Rightarrow> bool" where
  "field_text name P row = (case row name of None \<Rightarrow> False | Some v \<Rightarrow> P (from_utf8_lossy v))"

fun scan_step :: "acc_env \<Rightarrow> live_row list \<Rightarrow> access_command \<Rightarrow> access_reply \<times> live_row list" where
  "scan_step E rows (CacheInsert i row) = (Changed, rows @ [(i, row)])"
| "scan_step E rows (CacheDelete i row) = (Changed, filter (\<lambda>(j, _). j \<noteq> i) rows)"
| "scan_step E rows (FindEqual filters) = (Found (mset (filter (\<lambda>(i, row). matches_bytes filters row) rows)), rows)"
| "scan_step E rows (CountEqual filters) = (Counted (length (filter (\<lambda>(i, row). matches_bytes filters row) rows)), rows)"
| "scan_step E rows (FindRanges f fs) =
     (Found (mset (filter (\<lambda>(i, row). list_all (within_filter E row) (f # fs)) rows)), rows)"
| "scan_step E rows (FindPattern name pattern) =
     (Found (mset (filter (\<lambda>(i, row). field_text name (like_text (from_utf8_lossy pattern)) row) rows)), rows)"
| "scan_step E rows (FindPrefixed name p) =
     (Found (mset (filter (\<lambda>(i, row). field_text name (prefix (from_utf8_lossy p)) row) rows)), rows)"

fun scan_guard :: "ustr set \<Rightarrow> live_row list \<Rightarrow> access_command \<Rightarrow> bool" where
  "scan_guard T rows (CacheInsert i row) = (fresh_id i rows \<and> text_row T row)"
| "scan_guard T rows (CacheDelete i row) = ((i, row) \<in> set rows)"
| "scan_guard T rows (FindEqual filters) = (filters \<noteq> [])"
| "scan_guard T rows (CountEqual filters) = (filters \<noteq> [])"
| "scan_guard T rows (FindRanges f fs) = True"
| "scan_guard T rows (FindPattern name pattern) = (name \<in> T \<and> pattern \<noteq> [])"
| "scan_guard T rows (FindPrefixed name p) = (name \<in> T)"

lemma field_text_key: "(case text_key False name row of None \<Rightarrow> False | Some k \<Rightarrow> P k) = field_text name P row"
  by (simp add: text_key_def field_text_def string_key_from_value_def split: option.split)

lemma from_utf8_lossy_Nil: "from_utf8_lossy bs = [] \<longleftrightarrow> bs = []"
  by (subst from_utf8_lossy.simps) (auto split: sum.splits)

lemma pattern_lookup:
  assumes "entry_exact E T e" "string_index_by_field e name \<noteq> None" "pattern \<noteq> []"
  shows "(case rows_for_field_string_like_indexed e name pattern of None \<Rightarrow> {#} | Some found \<Rightarrow> mset found) =
         mset (filter (\<lambda>(i, row). field_text name (like_text (from_utf8_lossy pattern)) row) (rows_by_id e))"
proof -
  obtain index where ix: "string_index_by_field e name = Some index" using assms(2) by auto
  have "tp_inv index" using entry_exactD(4) [OF assms(1) ix] by (simp add: index_exact_def)
  then have "mset (search_like index (from_utf8_lossy pattern)) =
      mset (filter (\<lambda>(key, ids). like_text (from_utf8_lossy pattern) key) (items_by_key index))"
    by (rule search_like_mset) (simp add: from_utf8_lossy_Nil assms(3))
  from text_lookup [OF assms(1) ix this] show ?thesis
    by (simp add: rows_for_field_string_like_indexed_def ix field_text_key case_prod_unfold del: like_spec.simps)
qed

lemma prefix_lookup:
  assumes "entry_exact E T e" "string_index_by_field e name \<noteq> None"
  shows "mset (rows_for_field_prefix e name p False) =
         mset (filter (\<lambda>(i, row). field_text name (prefix (from_utf8_lossy p)) row) (rows_by_id e))"
proof -
  obtain index where ix: "string_index_by_field e name = Some index" using assms(2) by auto
  have "tp_inv index" using entry_exactD(4) [OF assms(1) ix] by (simp add: index_exact_def)
  then have "search_prefix index (from_utf8_lossy p) False = filter (\<lambda>(key, ids). prefix (from_utf8_lossy p) key) (items_by_key index)"
    by (intro search_prefix_eq) (simp add: tp_inv_def)
  from text_lookup [OF assms(1) ix, of _ "prefix (from_utf8_lossy p)"] this show ?thesis
    by (simp add: rows_for_field_prefix_def ix field_text_key case_prod_unfold)
qed

lemma delete_filter: "AList.delete i rows = filter (\<lambda>(j, _). j \<noteq> i) rows"
  by (auto simp: AList.delete_eq intro: filter_cong)

lemma entry_step_refines:
  assumes ok: "entry_exact E T e" and legal: "scan_guard T (rows_by_id e) c"
  shows "entry_exact E T (snd (entry_step E e c)) \<and>
         scan_step E (rows_by_id e) c = (fst (entry_step E e c), rows_by_id (snd (entry_step E e c)))"
proof (cases c)
  case (CacheInsert i row)
  then show ?thesis using entry_exact_insert [OF ok, of i row] legal by simp
next
  case (CacheDelete i row)
  then show ?thesis using entry_exact_delete [OF ok, of i row] legal by (simp add: delete_filter)
next
  case (FindEqual filters)
  let ?e = "fold (ensure_field_postings E) (map fst filters) e"
  have "mset (rows_for_field_values ?e filters) = mset (filter (\<lambda>(i, row). matches_bytes filters row) (rows_by_id ?e))"
    using FindEqual legal by (intro rows_for_field_values_exact [OF ensure_all_postings(1) [OF ok]]) (auto simp: ensure_all_postings(3) [OF ok])
  then show ?thesis using FindEqual ensure_all_postings(1,2) [OF ok, of "map fst filters"] by (simp add: Let_def)
next
  case (CountEqual filters)
  let ?e = "fold (ensure_field_postings E) (map fst filters) e"
  have "count_rows_for_field_values ?e filters = length (filter (\<lambda>(i, row). matches_bytes filters row) (rows_by_id ?e))"
    using CountEqual legal by (intro count_rows_exact [OF ensure_all_postings(1) [OF ok]]) (auto simp: ensure_all_postings(3) [OF ok])
  then show ?thesis using CountEqual ensure_all_postings(1,2) [OF ok, of "map fst filters"] by (simp add: Let_def)
next
  case (FindRanges f fs)
  note P = ensure_postings_exact [OF ok, of "range_field f"]
  obtain found e' where r: "rows_for_range_filters E (ensure_field_postings E (range_field f) e) (f # fs) = (found, e')"
    by (cases "rows_for_range_filters E (ensure_field_postings E (range_field f) e) (f # fs)")
  from range_filters_exact [OF P(1) _ r] P show ?thesis using FindRanges r by simp
next
  case (FindPattern name pattern)
  let ?e = "ensure_string_like_index name False e"
  have name: "name \<in> T" and ne: "pattern \<noteq> []" using legal FindPattern by simp_all
  note P = ensure_index_exact [OF ok name]
  show ?thesis using FindPattern P pattern_lookup [OF P(1) P(3) ne] by (simp add: Let_def del: like_spec.simps)
next
  case (FindPrefixed name p)
  have name: "name \<in> T" using legal FindPrefixed by simp
  note Q = ensure_postings_exact [OF ok, of name] note P = ensure_index_exact [OF Q(1) name]
  show ?thesis using FindPrefixed P Q(2) prefix_lookup [OF P(1) P(3), of p] by (simp add: Let_def)
qed

interpretation accessor: guarded_refinement "entry_step E" "scan_step E" rows_by_id "entry_exact E T" "scan_guard T"
  for E T
  by standard (simp_all add: entry_step_refines)

lemma entry_exact_rows_only:
  assumes "distinct (map fst rows)" "\<forall>(i, row) \<in> set rows. text_row T row"
  shows "entry_exact E T (build_rows_only_cache_entry E head rows)"
    and "mset (rows_by_id (build_rows_only_cache_entry E head rows)) = mset rows"
proof -
  let ?rows = "build_rows_by_id_from_snapshot E rows"
  have m: "mset ?rows = mset rows" by (rule build_rows_mset [OF assms(1)])
  then show "mset (rows_by_id (build_rows_only_cache_entry E head rows)) = mset rows"
    by (simp add: build_rows_only_cache_entry_def Let_def)
  have "set ?rows = set rows" using m by (metis set_mset_mset)
  then show "entry_exact E T (build_rows_only_cache_entry E head rows)"
    using distinct_mset_keys [OF m assms(1)] assms(2)
    by (intro entry_exactI) (auto simp: build_rows_only_cache_entry_def Let_def default_entry_def)
qed

lemma entry_exact_cold:
  assumes "distinct (map fst rows)" "\<forall>(i, row) \<in> set rows. text_row T row"
  shows "entry_exact E T (build_cold_accessor_cache_entry E head rows names)"
    and "rows_by_id (build_cold_accessor_cache_entry E head rows names) = rows"
proof -
  obtain g where g: "\<And>name. grouped (\<lambda>row. row name) rows (g name)"
    and e: "build_cold_accessor_cache_entry E head rows names =
      (warm_entry E (normalize_distinct_field_names names) (rows, map g (normalize_distinct_field_names names)))
        \<lparr>latest_tx_id := head\<rparr>"
    by (rule cold_entry_shape [OF assms(1), where E = E and head = head and names = names]) (rule that)
  show "rows_by_id (build_cold_accessor_cache_entry E head rows names) = rows" by (simp add: e warm_entry_def)
  show "entry_exact E T (build_cold_accessor_cache_entry E head rows names)"
    using assms g by (intro entry_exactI) (auto simp: e warm_entry_def default_entry_def map_of_zip_names split: if_splits)
qed

text \<open>
  C13. The accessor cache is transparent.  Start from an entry that a cache miss builds from the live rows
  of a table, and let rows be inserted under new ids and deleted in any order: every lookup by field
  values, by ranges, by prefix and by a LIKE pattern, and every count, has the answer of a scan of the
  rows at that moment, whatever indexes the entry has built and whatever ranges it remembers.  Fields that
  are searched by text hold valid UTF-8 without the last code point; lists of filters and patterns are not
  empty.
\<close>

theorem accessor_cache_refines_scan:
  assumes "distinct (map fst rows)" "\<forall>(i, row) \<in> set rows. text_row T row"
    and "admissible_run (\<lambda>rows c. snd (scan_step E rows c)) (scan_guard T) rows cs"
  shows "run_replies (entry_step E) (build_cold_accessor_cache_entry E head rows names) cs = run_replies (scan_step E) rows cs"
  using accessor.guarded_replies [OF entry_exact_cold(1) [OF assms(1,2)], of E head names cs] assms(3)
  by (simp add: entry_exact_cold(2) [OF assms(1,2)])

definition demo_acc :: acc_env where
  "demo_acc = \<lparr>os_vars = Map.empty, available_threads = 4, rows_capacity = length, row_slot_size = 56, acc_values = demo_values\<rparr>"

definition demo_rows :: "live_row list" where
  "demo_rows = [(1, [lit ''n'' \<mapsto> [65]]), (2, [lit ''n'' \<mapsto> [97]])]"

definition demo_accesses :: "access_command list" where
  "demo_accesses = [FindEqual [(lit ''n'', [97])], CacheInsert 3 [lit ''n'' \<mapsto> [97]], CacheDelete 2 [lit ''n'' \<mapsto> [97]],
     CountEqual [(lit ''n'', [97])]]"

lemma lossy_ascii: "\<forall>b \<in> set bs. b < 128 \<Longrightarrow> from_utf8_lossy bs = map unat bs"
  by (rule from_utf8_lossy_valid) (rule from_utf8_ascii)

lemma demo_text_rows:
  "text_row {lit ''n''} [lit ''n'' \<mapsto> [97]]" "text_row {lit ''n''} [lit ''n'' \<mapsto> [65]]"
  by (simp_all add: text_row_def plain_text_def plain_key_def from_utf8_ascii)

theorem accessor_cache_refines_scan_witness:
  "run_replies (entry_step demo_acc) (build_cold_accessor_cache_entry demo_acc 2 demo_rows [lit ''n'']) demo_accesses =
   [Found {#(2, [lit ''n'' \<mapsto> [97]])#}, Changed, Changed, Counted 1]"
proof -
  have neq: "[lit ''n'' \<mapsto> [65]] (lit ''n'') \<noteq> Some ([97] :: bytes)" by simp
  have run: "admissible_run (\<lambda>rows c. snd (scan_step demo_acc rows c)) (scan_guard {lit ''n''}) demo_rows demo_accesses"
    using demo_text_rows by (simp add: demo_accesses_def demo_rows_def fresh_id_def)
  have "run_replies (scan_step demo_acc) demo_rows demo_accesses =
      [Found {#(2, [lit ''n'' \<mapsto> [97]])#}, Changed, Changed, Counted 1]"
    by (simp add: demo_accesses_def demo_rows_def matches_bytes_def)
  with accessor_cache_refines_scan [of demo_rows "{lit ''n''}" demo_acc demo_accesses 2 "[lit ''n'']"] run demo_text_rows
  show ?thesis by (simp add: demo_rows_def)
qed

text \<open>Inserting postings one by one: what a key ends up with is one of the lists, and all of it only if no two keys fall together.\<close>

lemma fold_insert_from:
  "map_of (items_by_key (fold (\<lambda>(v, ids) index. snd (tp_insert (key v) ids index)) ps index)) k = Some ids \<Longrightarrow>
     (\<exists>v. (v, ids) \<in> set ps \<and> key v = k) \<or> map_of (items_by_key index) k = Some ids"
proof (induction ps arbitrary: index)
  case (Cons p ps)
  obtain v ids' where p: "p = (v, ids')" by (cases p)
  from Cons.IH [of "snd (tp_insert (key v) ids' index)"] Cons.prems p show ?case
    by (auto simp: tp_insert_def map_of_bt_insert split: if_splits)
qed simp

lemma rows_of_ids_fst: "fst ` set (rows_of_ids e ids) = {i \<in> set ids. map_of (rows_by_id e) i \<noteq> None}"
  by (force simp: rows_of_ids_def in_set_map_filter)

lemma folded_lookup:
  assumes "string_index_ci_by_field e name = None"
    and "percent \<notin> set (from_utf8_lossy pattern)" "underscore \<notin> set (from_utf8_lossy pattern)"
  shows "fst ` set (rows_for_field_string_like_case_insensitive_indexed E (ensure_string_like_index name True e) name pattern) =
    {i. (\<exists>ids. tp_get (string_index_source e name True) (to_ascii_lowercase (from_utf8_lossy pattern)) = Some ids \<and> i \<in> set ids) \<and>
        map_of (rows_by_id e) i \<noteq> None}"
  using assms
  by (cases "tp_get (string_index_source e name True) (to_ascii_lowercase (from_utf8_lossy pattern))")
    (auto simp: rows_for_field_string_like_case_insensitive_indexed_def ensure_string_like_index_def rows_of_ids_fst)

lemma folded_from_postings:
  assumes ok: "entry_exact E T e" and ps: "row_ids_by_field_value e name = Some ps"
    and ids: "tp_get (build_string_index_from_postings ps True) k = Some ids"
  obtains u where "\<And>i row. i \<in> set ids \<Longrightarrow> (i, row) \<in> set (rows_by_id e) \<Longrightarrow> row name = Some u"
proof -
  obtain u where "(u, ids) \<in> set ps"
    using fold_insert_from [of "\<lambda>v. string_key_from_value v True" ps tp_new k ids] ids
    by (auto simp: build_string_index_from_postings_def tp_get_map)
  then have "ids = keyed_ids (\<lambda>row. row name) (rows_by_id e) u"
    using grouped_pairs [OF entry_exactD(3) [OF ok ps]] by simp
  then have "row name = Some u" if "i \<in> set ids" "(i, row) \<in> set (rows_by_id e)" for i row
    using that by (auto simp: keyed_ids_def dest: eq_key_imp_eq_value [OF entry_exactD(1) [OF ok]])
  with that show thesis by blast
qed

lemma folded_from_rows:
  "tp_get (build_string_index_for_field rows name True) = ids_map (text_key True name) rows"
proof -
  let ?g = "fold (group_row (text_key True name)) rows []"
  have "(\<lambda>(i, row) m. case row name of None \<Rightarrow> m | Some v \<Rightarrow> push_id (string_key_from_value v True) i m) =
      group_row (text_key True name)"
    by (auto simp: fun_eq_iff group_row_def text_key_def split: option.splits)
  moreover have "grouped (text_key True name) rows ?g"
    using grouped_fold [of "text_key True name" "[]" "[]" rows] by simp
  ultimately show ?thesis
    using insert_all_map [of ?g tp_new]
    by (simp add: build_string_index_for_field_def tp_get_map fun_eq_iff index_exact_def postings_wf_def)
qed

text \<open>
  C37. The text index for patterns without regard to case is not exact. In an entry whose indexes
  agree with its rows, let two rows have different values of a field that fold to the same key, and
  let a literal pattern fold to that key too. If the index is built from postings, it keeps the rows
  of one of the values only, and the lookup misses at least one of the two rows. If it is built from
  the rows, the lookup finds both, so the answer depends on which lookups came before.
\<close>

theorem folded_index_loses_rows:
  assumes "entry_exact E T e" and "string_index_ci_by_field e name = None"
    and "(i, r1) \<in> set (rows_by_id e)" and "r1 name = Some v"
    and "(j, r2) \<in> set (rows_by_id e)" and "r2 name = Some w" and "v \<noteq> w"
    and "string_key_from_value v True = to_ascii_lowercase (from_utf8_lossy pattern)"
    and "string_key_from_value w True = to_ascii_lowercase (from_utf8_lossy pattern)"
    and "percent \<notin> set (from_utf8_lossy pattern)" and "underscore \<notin> set (from_utf8_lossy pattern)"
  shows "\<not> {i, j} \<subseteq> fst ` set (rows_for_field_string_like_case_insensitive_indexed E
           (ensure_string_like_index name True (ensure_field_postings E name e)) name pattern) \<and>
         (row_ids_by_field_value e name = None \<longrightarrow>
          {i, j} \<subseteq> fst ` set (rows_for_field_string_like_case_insensitive_indexed E
            (ensure_string_like_index name True e) name pattern))"
proof (intro conjI impI)
  let ?k = "to_ascii_lowercase (from_utf8_lossy pattern)" and ?p = "ensure_field_postings E name e"
  note p = ensure_postings_exact [OF assms(1), where name = name]
  obtain ps where ps: "row_ids_by_field_value ?p name = Some ps" using p(3) by blast
  have ci: "string_index_ci_by_field ?p name = None" using assms(2) by (simp add: ensure_field_postings_def)
  have source: "string_index_source ?p name True = build_string_index_from_postings ps True"
    by (simp add: string_index_source_def ps)
  show "\<not> {i, j} \<subseteq> fst ` set (rows_for_field_string_like_case_insensitive_indexed E
      (ensure_string_like_index name True ?p) name pattern)"
  proof
    assume "{i, j} \<subseteq> fst ` set (rows_for_field_string_like_case_insensitive_indexed E
      (ensure_string_like_index name True ?p) name pattern)"
    then obtain ids where ids: "tp_get (build_string_index_from_postings ps True) ?k = Some ids" "i \<in> set ids" "j \<in> set ids"
      unfolding folded_lookup [OF ci assms(10,11)] source by auto
    obtain u where "\<And>i row. i \<in> set ids \<Longrightarrow> (i, row) \<in> set (rows_by_id e) \<Longrightarrow> row name = Some u"
      using folded_from_postings [OF p(1) ps ids(1)] p(2) by metis
    from this [OF ids(2) assms(3)] this [OF ids(3) assms(5)] assms(4,6,7) show False by simp
  qed
  assume "row_ids_by_field_value e name = None"
  then have "tp_get (string_index_source e name True) ?k = ids_map (text_key True name) (rows_by_id e) ?k"
    by (simp add: string_index_source_def folded_from_rows)
  moreover have "i \<in> set (keyed_ids (text_key True name) (rows_by_id e) ?k)"
      "j \<in> set (keyed_ids (text_key True name) (rows_by_id e) ?k)"
    using assms(3-6,8,9) by (force simp: keyed_ids_def text_key_def)+
  ultimately show "{i, j} \<subseteq> fst ` set (rows_for_field_string_like_case_insensitive_indexed E
      (ensure_string_like_index name True e) name pattern)"
    using weak_map_of_SomeI [OF assms(3)] weak_map_of_SomeI [OF assms(5)]
    unfolding folded_lookup [OF assms(2,10,11)]
    by (auto simp: ids_map_Some intro!: exI [of _ "keyed_ids (text_key True name) (rows_by_id e) ?k"])
qed

theorem folded_index_loses_rows_witness:
  "\<not> {1, 2} \<subseteq> fst ` set (rows_for_field_string_like_case_insensitive_indexed demo_acc
      (ensure_string_like_index (lit ''n'') True
        (ensure_field_postings demo_acc (lit ''n'') (build_rows_only_cache_entry demo_acc 2 demo_rows))) (lit ''n'') [97]) \<and>
   {1, 2} \<subseteq> fst ` set (rows_for_field_string_like_case_insensitive_indexed demo_acc
      (ensure_string_like_index (lit ''n'') True (build_rows_only_cache_entry demo_acc 2 demo_rows)) (lit ''n'') [97])"
proof -
  define e where "e = build_rows_only_cache_entry demo_acc 2 demo_rows"
  have rows: "rows_by_id e = demo_rows"
    by (simp add: e_def build_rows_only_cache_entry_def build_rows_by_id_from_snapshot_def insert_rows_def demo_rows_def
        ACCESSOR_SNAPSHOT_RESTORE_PARALLEL_MIN_ROWS_def Let_def)
  have none: "row_ids_by_field_value e = Map.empty" "string_index_ci_by_field e = Map.empty"
    by (simp_all add: e_def build_rows_only_cache_entry_def default_entry_def Let_def)
  have keys: "string_key_from_value [65] True = [97]" "string_key_from_value [97] True = [97]"
    "from_utf8_lossy [97] = [97]" "to_ascii_lowercase [97] = [97]"
    by (simp_all add: string_key_from_value_def lossy_ascii to_ascii_lowercase_def ascii_lower_def)
  have "entry_exact demo_acc {lit ''n''} e"
    unfolding e_def using demo_text_rows by (intro entry_exact_rows_only) (auto simp: demo_rows_def)
  from folded_index_loses_rows [OF this, of "lit ''n''" 1 "[lit ''n'' \<mapsto> [65]]" "[65]" 2 "[lit ''n'' \<mapsto> [97]]" "[97]" "[97]"]
  show ?thesis unfolding e_def [symmetric] by (simp add: none keys rows) (simp add: demo_rows_def)
qed

end
