(* ===== verification/AccessorSystem.thy ===== *)
theory AccessorSystem
  imports WriteOps AccessorRefine
begin

text \<open>
  Reads through the caches and writes of rows, together: what the loaders of
  \<open>serverlib/src/engine/execution/access.rs\<close> answer is what a scan of the log of the table gives, while the
  row writes of \<open>server/src/core/mappings/query/core/wal_ops.rs\<close> change the log and the caches.
\<close>

section \<open>The log of a stream\<close>

definition stream_log :: "access_env \<Rightarrow> ustr \<Rightarrow> access_state \<Rightarrow> entries option" where
  "stream_log A stream st =
     (case obfuscated_stream_key (log_env A) stream of Inl _ \<Rightarrow> None | Inr key \<Rightarrow> storage (wal st) key)"

definition increasing_ids :: "entries \<Rightarrow> bool" where
  "increasing_ids rs \<longleftrightarrow> sorted_wrt (<) (map tx_id rs)"

definition table_rows :: "access_env \<Rightarrow> TableSchema \<Rightarrow> entries \<Rightarrow> live_row list" where
  "table_rows A schema rs =
     collect_live_rows_from_records (\<lambda>p. ok (decode_row (rows_env A) schema p)) (available_threads (cache_env A)) rs"

lemma stream_log_key:
  "stream_log A stream st = Some rs \<longleftrightarrow>
     (\<exists>key. obfuscated_stream_key (log_env A) stream = Inr key \<and> storage (wal st) key = Some rs)"
  by (simp add: stream_log_def split: sum.split)

lemma stream_log_caches [simp]:
  "stream_log A stream (st\<lparr>equality_table_cache := x\<rparr>) = stream_log A stream st"
  "stream_log A stream (st\<lparr>equality_probe_result_cache := y\<rparr>) = stream_log A stream st"
  by (simp_all add: stream_log_def split: sum.split)

lemma with_records_loaded:
  assumes "stream_log A stream st = Some rs"
  shows "with_records (log_env A) io stream f (wal st) = (Some (f rs), wal st)"
proof -
  obtain key where "obfuscated_stream_key (log_env A) stream = Inr key" "storage (wal st) key = Some rs"
    using assms by (auto simp: stream_log_key)
  then show ?thesis by (auto simp: with_records_def hydrate_stream_if_needed_def Let_def)
qed

lemma loaded_log:
  assumes "stream_log A stream st = Some rs"
  shows "latest_transaction_id (log_env A) io stream (wal st) = (last_id rs, wal st)"
    and "loaded_head A stream st = last_id rs"
    and "load_live_rows_in_place (log_env A) (rows_env A) io (available_threads (cache_env A)) stream schema (wal st) =
           (table_rows A schema rs, wal st)"
    and "scan_durable_records_if_unloaded (log_env A) io stream (wal st) = Ok None"
proof -
  show "latest_transaction_id (log_env A) io stream (wal st) = (last_id rs, wal st)"
    by (simp add: latest_transaction_id_def stream_entries_def with_records_loaded [OF assms])
  show "loaded_head A stream st = last_id rs"
    using assms by (auto simp: stream_log_key loaded_head_def latest_transaction_id_if_loaded_def)
  show "load_live_rows_in_place (log_env A) (rows_env A) io (available_threads (cache_env A)) stream schema (wal st) =
           (table_rows A schema rs, wal st)"
    by (simp add: load_live_rows_in_place_def with_records_loaded [OF assms] table_rows_def)
  show "scan_durable_records_if_unloaded (log_env A) io stream (wal st) = Ok None"
    using assms by (auto simp: stream_log_key scan_durable_records_if_unloaded_def)
qed

lemma increasing_distinct: "increasing_ids rs \<Longrightarrow> distinct_row_ids rs"
proof -
  assume "increasing_ids rs"
  then have "distinct (map tx_id rs)" by (simp add: increasing_ids_def strict_sorted_iff)
  then show "distinct_row_ids rs" by (simp add: distinct_row_ids_def distinct_map_filter)
qed

lemma increasing_last: "increasing_ids rs \<Longrightarrow> r \<in> set rs \<Longrightarrow> tx_id r \<le> tx_id (last rs)"
  by (induction rs) (auto simp: increasing_ids_def less_imp_le split: if_splits)

lemma increasing_snoc:
  "increasing_ids rs \<Longrightarrow> rs \<noteq> [] \<Longrightarrow> tx_id (last rs) < tx_id r \<Longrightarrow> increasing_ids (rs @ [r])"
  using increasing_last [of rs] by (fastforce simp: increasing_ids_def sorted_wrt_append)

lemma scan_max:
  assumes "increasing_ids rs" "rs \<noteq> []"
  shows "foldl (\<lambda>l r. max l (tx_id r)) (tx_id (last rs)) rs = tx_id (last rs)"
proof -
  have "foldl (\<lambda>l r. max l (tx_id r)) m xs = m" if "\<forall>r \<in> set xs. tx_id r \<le> m" for m :: u64 and xs
    using that by (induction xs) (auto simp: max_absorb1)
  then show ?thesis using increasing_last [OF assms(1)] by blast
qed

lemma table_rows_spec:
  assumes "increasing_ids rs"
  shows "table_rows A schema rs =
     live_spec (\<lambda>p. ok (decode_row (rows_env A) schema p)) (committed_groups rs) (aborted_groups rs) rs"
  unfolding table_rows_def by (rule collect_spec [OF increasing_distinct [OF assms]])

lemma table_rows_distinct: "increasing_ids rs \<Longrightarrow> distinct (map fst (table_rows A schema rs))"
  by (simp add: table_rows_spec live_spec_distinct_keys distinct_decoded_ids increasing_distinct)

lemma live_spec_ids: "(i, row) \<in> set (live_spec dec C D rs) \<Longrightarrow> i \<in> tx_id ` set rs"
  by (induction rs) (auto split: option.splits if_splits)

lemma table_rows_ids: "increasing_ids rs \<Longrightarrow> (i, row) \<in> set (table_rows A schema rs) \<Longrightarrow> i \<in> tx_id ` set rs"
  by (simp add: table_rows_spec live_spec_ids)

lemma equality_scan_rows:
  assumes "increasing_ids rs"
  shows "equality_scan_loaded (rows_env A) schema filters threads rs =
     filter (\<lambda>(i, row). row_matches_equality_filters (value_fns (rows_env A)) filters row) (table_rows A schema rs)"
  unfolding table_rows_spec [OF assms] loaded_rows_spec [OF increasing_distinct [OF assms]]
    filtered_decoder_eq [abs_def] live_spec_filter by (simp add: case_prod_unfold)

section \<open>An appended record\<close>

lemma append_log:
  assumes log: "stream_log A stream st = Some rs"
    and app: "append_with_context (log_env A) io stream r c (wal st) = (res, m')"
  shows "stream_log A stream (st\<lparr>wal := m'\<rparr>) = Some (case res of Inl _ \<Rightarrow> rs | Inr _ \<Rightarrow> append_entries rs r)"
proof -
  obtain key where key: "obfuscated_stream_key (log_env A) stream = Inr key" "storage (wal st) key = Some rs"
    using log by (auto simp: stream_log_key)
  let ?m2 = "get_or_spawn_worker_for_stream_key io key (wal st)"
  have hyd: "hydrate_stream_if_needed (log_env A) io key (wal st) = wal st"
    using key by (auto simp: hydrate_stream_if_needed_def)
  have spawn: "storage ?m2 key = Some rs"
    using key by (auto simp: get_or_spawn_worker_for_stream_key_def Let_def)
  obtain res3 m3 where run: "run_command ''failed to send WAL append command''
      (\<lambda>durable. handle_append (log_env A) io durable c r) key ?m2 = (res3, m3)" by (rule prod.exhaust)
  have "storage m3 key = Some (case res3 of Inl _ \<Rightarrow> rs | Inr _ \<Rightarrow> append_entries rs r)"
    using run
  proof (cases rule: run_command_cases)
    case (ran d w w')
    with spawn show ?thesis
      by (cases res3) (auto dest: rejected_entries(1) handle_append_entries)
  qed (use spawn in simp)
  with app run key hyd show ?thesis
    by (cases res3) (auto simp: append_with_context_def Let_def stream_log_key raise_high_water_eq)
qed

lemma live_spec_snoc:
  "live_spec dec C D (rs @ [r]) =
     filter (\<lambda>(i, _). i \<notin> deleted_refs C D [r]) (live_spec dec C D rs) @ live_spec dec C D [r]"
proof (induction rs)
  case (Cons x xs)
  have "deleted_refs C D (xs @ [r]) = deleted_refs C D xs \<union> deleted_refs C D [r]"
    by (auto simp: deleted_refs_iff)
  with Cons show ?case by (auto split: option.split)
qed (simp add: deleted_refs_def)

lemma groups_snoc:
  assumes "tx_kind r \<noteq> WriteCommit" "tx_kind r \<noteq> WriteAbort"
  shows "committed_groups (rs @ [r]) = committed_groups rs" "aborted_groups (rs @ [r]) = aborted_groups rs"
  using assms by (induction rs) (simp_all add: groups_Cons)

lemma table_rows_append:
  assumes inc: "increasing_ids (rs @ [r])" and plain: "groupid r = None"
    and kind: "tx_kind r \<noteq> WriteCommit" "tx_kind r \<noteq> WriteAbort"
  shows "table_rows A schema (rs @ [r]) =
     (if tx_kind r = Delete then filter (\<lambda>(i, _). refid r \<noteq> Some i) (table_rows A schema rs)
      else table_rows A schema rs @
        (if is_row_kind r then
           (case Option.bind (payload_logical r) (\<lambda>p. ok (decode_row (rows_env A) schema p)) of
              None \<Rightarrow> [] | Some row \<Rightarrow> [(tx_id r, row)])
         else []))"
proof -
  have inc': "increasing_ids rs" using inc by (simp add: increasing_ids_def sorted_wrt_append)
  have vis: "record_visible_for_live_row_apply C D r" for C D by (rule visible_ungrouped [OF plain])
  show ?thesis unfolding table_rows_spec [OF inc] table_rows_spec [OF inc'] live_spec_snoc groups_snoc [OF kind]
    using vis by (auto simp: deleted_refs_def decode_visible_def is_row_kind_def split: option.split)
qed

section \<open>What the caches of a table hold\<close>

abbreviation log_head :: "entries \<Rightarrow> u64" where
  "log_head rs \<equiv> tx_id (last rs)"

text \<open>
  An entry or a probe result that carries the head of the log holds what a scan gives; none is from the
  future; and the entry of a table with derived indexes, which every row write updates, always carries
  the head.
\<close>

definition entry_current ::
    "access_env \<Rightarrow> TableSchema \<Rightarrow> bool \<Rightarrow> ustr set \<Rightarrow> entries \<Rightarrow> EqualityTableCacheEntry \<Rightarrow> bool" where
  "entry_current A schema tracked T rs e \<longleftrightarrow>
     latest_tx_id e \<le> log_head rs \<and> (tracked \<longrightarrow> latest_tx_id e = log_head rs) \<and>
     (latest_tx_id e = log_head rs \<longrightarrow>
        entry_exact (cache_env A) T e \<and> mset (rows_by_id e) = mset (table_rows A schema rs))"

definition probes_current :: "access_env \<Rightarrow> TableSchema \<Rightarrow> entries \<Rightarrow> probe_table \<Rightarrow> bool" where
  "probes_current A schema rs table \<longleftrightarrow>
     (\<forall>(key, p) \<in> set table. probe_tx_id p \<le> log_head rs) \<and>
     (\<forall>key found. probe_holds (log_head rs) table key found \<longrightarrow>
        mset found = mset (filter (\<lambda>(i, row). matches_bytes key row) (table_rows A schema rs)))"

definition table_ok ::
    "access_env \<Rightarrow> ustr \<Rightarrow> ustr \<Rightarrow> TableSchema \<Rightarrow> bool \<Rightarrow> ustr set \<Rightarrow> entries \<Rightarrow> access_state \<Rightarrow> bool" where
  "table_ok A stream table_id schema tracked T rs st \<longleftrightarrow>
     stream_log A stream st = Some rs \<and> rs \<noteq> [] \<and> increasing_ids rs \<and>
     (\<forall>(i, row) \<in> set (table_rows A schema rs). text_row T row) \<and>
     (\<forall>e. equality_table_cache st (cache_scope_id A, stream) = Some e \<longrightarrow> entry_current A schema tracked T rs e) \<and>
     (\<forall>table. equality_probe_result_cache st (cache_scope_id A, stream) = Some table \<longrightarrow> probes_current A schema rs table) \<and>
     (stream \<noteq> table_id \<longrightarrow> equality_probe_result_cache st (cache_scope_id A, table_id) = None)"

text \<open>
  The checkpoint and snapshot files of a call may be of any age. Each holds the rows of the log that had the
  size and modification time noted in it, where \<open>log_of\<close> says which log that was; and the log has its own.
\<close>

definition saved_current ::
    "access_env \<Rightarrow> (u64 \<times> u64 \<Rightarrow> entries) \<Rightarrow> ustr \<Rightarrow> ustr \<Rightarrow> TableSchema \<Rightarrow> entries \<Rightarrow> bool" where
  "saved_current A log_of stream table_id schema rs \<longleftrightarrow>
     (case wal_stream_fingerprint (saved A) stream of None \<Rightarrow> True | Some fp \<Rightarrow> log_of fp = rs) \<and>
     files_saved (codecs A) (saved A) log_of (\<lambda>rs. (log_head rs, table_rows A schema rs)) stream table_id schema"

text \<open>Comparing the stored values of the filtered fields gives the same as comparing their bytes.\<close>

definition canonical_filters :: "access_env \<Rightarrow> (ustr \<times> bytes) list \<Rightarrow> live_row list \<Rightarrow> bool" where
  "canonical_filters A filters rows \<longleftrightarrow>
     (\<forall>(i, row) \<in> set rows. row_matches_equality_filters (value_fns (rows_env A)) filters row = matches_bytes filters row)"

lemma table_okD:
  assumes "table_ok A stream table_id schema tracked T rs st"
  shows "stream_log A stream st = Some rs" "rs \<noteq> []" "increasing_ids rs" "last_id rs = Some (log_head rs)"
    and "\<forall>(i, row) \<in> set (table_rows A schema rs). text_row T row"
    and "equality_table_cache st (cache_scope_id A, stream) = Some e \<Longrightarrow> entry_current A schema tracked T rs e"
    and "equality_probe_result_cache st (cache_scope_id A, stream) = Some table \<Longrightarrow> probes_current A schema rs table"
    and "stream \<noteq> table_id \<Longrightarrow> equality_probe_result_cache st (cache_scope_id A, table_id) = None"
  using assms by (simp_all add: table_ok_def last_id_def)

lemma matching_entry:
  assumes ok: "table_ok A stream table_id schema tracked T rs st"
    and f: "\<And>e r e'. entry_exact (cache_env A) T e \<Longrightarrow> mset (rows_by_id e) = mset (table_rows A schema rs) \<Longrightarrow> f e = (r, e') \<Longrightarrow>
        Q r \<and> entry_exact (cache_env A) T e' \<and> rows_by_id e' = rows_by_id e \<and> latest_tx_id e' = latest_tx_id e"
    and run: "with_matching_equality_cache_entry A stream f st = (res, st')"
  shows "table_ok A stream table_id schema tracked T rs st'" and "res = Some r \<Longrightarrow> Q r" and "res = None \<Longrightarrow> st' = st"
proof -
  note D = table_okD [OF ok]
  have head: "loaded_head A stream st = Some (log_head rs)" using loaded_log(2) [OF D(1)] D(4) by simp
  consider "res = None" "st' = st"
    | e r' e' where "equality_table_cache st (cache_scope_id A, stream) = Some e" "latest_tx_id e = log_head rs"
        "f e = (r', e')" "res = Some r'" "st' = insert_equality_cache_entry (cache_scope_id A) stream e' st"
    using run head
    by (auto simp: with_matching_equality_cache_entry_def equality_cache_entry_def cache_entry_matches_loaded_wal_head_def
        split: option.splits if_splits prod.splits)
  then have "table_ok A stream table_id schema tracked T rs st' \<and> (res = Some r \<longrightarrow> Q r) \<and> (res = None \<longrightarrow> st' = st)"
  proof cases
    case (2 e r' e')
    have c: "entry_exact (cache_env A) T e" "mset (rows_by_id e) = mset (table_rows A schema rs)"
      using D(6) [OF 2(1)] 2(2) by (simp_all add: entry_current_def)
    note F = f [OF c 2(3)]
    then have "entry_current A schema tracked T rs e'" using D(6) [OF 2(1)] 2(2) by (simp add: entry_current_def)
    with ok 2 F show ?thesis by (auto simp: table_ok_def insert_equality_cache_entry_def)
  qed (use ok in simp)
  then show "table_ok A stream table_id schema tracked T rs st'" "res = Some r \<Longrightarrow> Q r" "res = None \<Longrightarrow> st' = st" by simp_all
qed

lemma insert_scoped_ok:
  assumes ok: "table_ok A stream table_id schema tracked T rs st"
    and e: "entry_exact (cache_env A) T e" "mset (rows_by_id e) = mset (table_rows A schema rs)" "latest_tx_id e = log_head rs"
  shows "table_ok A stream table_id schema tracked T rs (insert_scoped_equality_cache_entry A stream e st)"
proof -
  have "insert_scoped_equality_cache_entry A stream e st \<in> {st, insert_equality_cache_entry (cache_scope_id A) stream e st}"
    by (auto simp: insert_scoped_equality_cache_entry_def enforce_entry_row_budget_def Let_def)
  moreover have "entry_current A schema tracked T rs e" using e by (simp add: entry_current_def)
  ultimately show ?thesis using ok by (auto simp: table_ok_def insert_equality_cache_entry_def)
qed

section \<open>Probe results\<close>

lemma matches_key [simp]: "matches_bytes (equality_probe_cache_key filters) = matches_bytes filters"
  by (simp add: matches_bytes_def equality_probe_cache_key_def fun_eq_iff)

lemma probe_ids_subset:
  assumes "set table' \<subseteq> insert (key, x) (set table)" "probe_tx_id x \<le> head" "\<forall>(k, p) \<in> set table. probe_tx_id p \<le> head"
  shows "\<forall>(k, p) \<in> set table'. probe_tx_id p \<le> head"
proof
  fix y assume "y \<in> set table'"
  with assms(1) have "y = (key, x) \<or> y \<in> set table" by blast
  with assms(2,3) show "case y of (k, p) \<Rightarrow> probe_tx_id p \<le> head" by auto
qed

lemma probe_stream_ok:
  assumes ok: "table_ok A stream table_id schema tracked T rs st"
    and run: "probe_stream A stream filters st = (res, st')"
  shows "table_ok A stream table_id schema tracked T rs st'"
    and "res = Some found \<Longrightarrow> mset found = mset (filter (\<lambda>(i, row). matches_bytes filters row) (table_rows A schema rs))"
proof -
  note D = table_okD [OF ok]
  have head: "loaded_head A stream st = Some (log_head rs)" using loaded_log(2) [OF D(1)] D(4) by simp
  let ?P = "\<lambda>key found. mset found = mset (filter (\<lambda>(i, row). matches_bytes key row) (table_rows A schema rs))"
  have "table_ok A stream table_id schema tracked T rs st' \<and> (\<forall>found. res = Some found \<longrightarrow> ?P filters found)"
  proof (cases "equality_probe_result_cache st (cache_scope_id A, stream)")
    case None
    with run ok show ?thesis by (auto simp: probe_stream_def cached_equality_probe_rows_def)
  next
    case (Some table)
    let ?key = "equality_probe_cache_key filters"
    obtain r table' where look: "probe_lookup (cache_env A) (clock_now A) (Some (log_head rs)) ?key table = (r, table')"
      by (rule prod.exhaust)
    have cur: "probes_current A schema rs table" by (rule D(7) [OF Some])
    then have sound: "\<And>k v. probe_holds (log_head rs) table k v \<Longrightarrow> ?P k v" by (simp add: probes_current_def)
    note S = probe.lookup_sound [where P = ?P, OF sound look]
    have ids: "\<forall>(k, p) \<in> set table. probe_tx_id p \<le> log_head rs" using cur by (simp add: probes_current_def)
    have "\<forall>(k, p) \<in> set table'. probe_tx_id p \<le> log_head rs"
      using look
    proof (cases rule: probe_lookup_cases)
      case (2 e)
      with probe_ids_subset [OF 2(6) _ ids] show ?thesis by simp
    qed (use ids in blast)
    with S(2) have "probes_current A schema rs table'" by (auto simp: probes_current_def)
    then have "table_ok A stream table_id schema tracked T rs st'"
      using ok run Some look head
      by (auto simp: table_ok_def probe_stream_def cached_equality_probe_rows_def)
    moreover have "res = r" using run Some look head by (simp add: probe_stream_def cached_equality_probe_rows_def)
    ultimately show ?thesis using S(1) by simp
  qed
  then show "table_ok A stream table_id schema tracked T rs st'" "res = Some found \<Longrightarrow> ?P filters found" by simp_all
qed

lemma probe_stream_none:
  "equality_probe_result_cache st (cache_scope_id A, stream) = None \<Longrightarrow> probe_stream A stream filters st = (None, st)"
  by (simp add: probe_stream_def cached_equality_probe_rows_def)

lemma planner_probe_ok:
  assumes ok: "table_ok A stream table_id schema tracked T rs st"
    and run: "planner_equality_probe_cache_rows A stream table_id filters st = (res, st')"
  shows "table_ok A stream table_id schema tracked T rs st'"
    and "res = Some found \<Longrightarrow> mset found = mset (filter (\<lambda>(i, row). matches_bytes filters row) (table_rows A schema rs))"
proof -
  obtain res1 st1 where first: "probe_stream A stream filters st = (res1, st1)" by (rule prod.exhaust)
  note P = probe_stream_ok [OF ok first]
  have "res1 = res \<and> st1 = st'"
    using run first probe_stream_none [of st1 A table_id filters] table_okD(8) [OF P(1)]
    by (auto simp: planner_equality_probe_cache_rows_def split: option.splits if_splits)
  with P show "table_ok A stream table_id schema tracked T rs st'"
    "res = Some found \<Longrightarrow> mset found = mset (filter (\<lambda>(i, row). matches_bytes filters row) (table_rows A schema rs))"
    by simp_all
qed

lemma maybe_cache_ok:
  assumes ok: "table_ok A stream table_id schema tracked T rs st"
    and found: "mset found = mset (filter (\<lambda>(i, row). matches_bytes filters row) (table_rows A schema rs))"
    and head: "head = Some (log_head rs)"
  shows "table_ok A stream table_id schema tracked T rs (maybe_cache_equality_probe_rows A stream filters found head st)"
proof -
  let ?c = "equality_probe_result_cache st" let ?k = "(cache_scope_id A, stream)"
  let ?P = "\<lambda>key found. mset found = mset (filter (\<lambda>(i, row). matches_bytes key row) (table_rows A schema rs))"
  let ?t = "case ?c ?k of None \<Rightarrow> [] | Some table \<Rightarrow> table"
  let ?t' = "\<lambda>n ttl. probe_insert n ttl (clock_now A) (equality_probe_cache_key filters) found (log_head rs) ?t"
  have cur: "probes_current A schema rs ?t"
  proof (cases "?c ?k")
    case None
    then show ?thesis by (simp add: probes_current_def probe_holds_def)
  qed (simp add: table_okD(7) [OF ok])
  then have sound: "\<And>k v. probe_holds (log_head rs) ?t k v \<Longrightarrow> ?P k v" by (simp add: probes_current_def)
  have "probes_current A schema rs (?t' n ttl)" for n ttl
  proof -
    have "\<forall>(k, p) \<in> set (?t' n ttl). probe_tx_id p \<le> log_head rs"
      using cur by (intro probe_ids_subset [OF probe_insert_set]) (simp_all add: probes_current_def)
    moreover have "?P k v" if "probe_holds (log_head rs) (?t' n ttl) k v" for k v
      by (rule probe.store_sound [where P = ?P, OF sound _ that]) (simp_all add: found)
    ultimately show ?thesis unfolding probes_current_def by blast
  qed
  then have "table_ok A stream table_id schema tracked T rs (st\<lparr>equality_probe_result_cache := ?c(?k \<mapsto> ?t' n ttl)\<rparr>)" for n ttl
    using ok by (auto simp: table_ok_def)
  then show ?thesis using ok head
    by (simp add: maybe_cache_equality_probe_rows_def maybe_cache_equality_probe_rows_with_latest_tx_id_def Let_def)
qed

section \<open>Reading\<close>

lemma miss_loads_table:
  assumes ok: "table_ok A stream table_id schema tracked T rs st"
    and files: "saved_current A log_of stream table_id schema rs"
    and run: "load_live_rows_for_accessor_miss A stream table_id schema names st = ((l, loaded), st')"
  shows "st' = st" "l = log_head rs" "mset loaded = mset (table_rows A schema rs)"
proof -
  note D = table_okD [OF ok]
  have head: "loaded_head A stream st = Some (log_head rs)" using loaded_log(2) [OF D(1)] D(4) by simp
  let ?view = "\<lambda>rs. (log_head rs, table_rows A schema rs)"
  have fs: "files_saved (codecs A) (saved A) log_of ?view stream table_id schema"
    and now: "\<And>fp. wal_stream_fingerprint (saved A) stream = Some fp \<Longrightarrow> log_of fp = rs"
    using files by (auto simp: saved_current_def)
  have snap: "l = log_head rs \<and> mset loaded = mset (table_rows A schema rs)"
    if "load_live_rows_from_accessor_snapshot A stream table_id schema names = Some (l, loaded)"
    using accessor_snapshot_current [OF fs now] that by (auto simp: load_live_rows_from_accessor_snapshot_def)
  have check: "l = log_head rs \<and> mset loaded = mset (table_rows A schema rs)"
    if "checkpoint_rows A stream table_id schema = Some (l, loaded)"
    using checkpoint_rows_current [OF fs now that] by simp
  have "st' = st \<and> l = log_head rs \<and> mset loaded = mset (table_rows A schema rs)"
    using run snap check
    by (auto simp: load_live_rows_for_accessor_miss_def D(4)
        loaded_log(1,3) [OF D(1)] Let_def bind_eq_Some_conv split: option.splits if_splits)
  then show "st' = st" "l = log_head rs" "mset loaded = mset (table_rows A schema rs)" by simp_all
qed

lemma ensure_keeps [simp]:
  "latest_tx_id (ensure_field_postings E name e) = latest_tx_id e"
  "latest_tx_id (fold (ensure_field_postings E) names e) = latest_tx_id e"
  "latest_tx_id (ensure_string_like_index name ci e) = latest_tx_id e"
proof -
  show one: "latest_tx_id (ensure_field_postings E name e) = latest_tx_id e" for name e
    by (simp add: ensure_field_postings_def)
  show "latest_tx_id (fold (ensure_field_postings E) names e) = latest_tx_id e"
    by (induction names arbitrary: e) (simp_all add: one)
qed (simp add: ensure_string_like_index_def)

lemma range_keeps:
  "row_ids_for_field_range E e name lo hi = (ids, e') \<Longrightarrow> latest_tx_id e' = latest_tx_id e"
  "rows_for_range_filters E e filters = (found, e') \<Longrightarrow> latest_tx_id e' = latest_tx_id e"
proof -
  show one: "latest_tx_id e' = latest_tx_id e" if "row_ids_for_field_range E e name lo hi = (ids, e')" for name lo hi ids e'
    using that by (auto simp: row_ids_for_field_range_def Let_def split: option.splits)
  show "rows_for_range_filters E e filters = (found, e') \<Longrightarrow> latest_tx_id e' = latest_tx_id e"
    by (auto simp: rows_for_range_filters_def split: list.splits prod.splits if_splits dest: one)
qed

lemma miss_entry:
  assumes "mset loaded = mset rows" "distinct (map fst rows)" "\<forall>(i, row) \<in> set rows. text_row T row" "[] \<notin> set names"
  shows "entry_exact E T (entry_for_miss E names (l, loaded))"
    and "mset (rows_by_id (entry_for_miss E names (l, loaded))) = mset rows"
    and "latest_tx_id (entry_for_miss E names (l, loaded)) = l"
    and "set names \<subseteq> dom (row_ids_by_field_value (entry_for_miss E names (l, loaded)))"
proof -
  have d: "distinct (map fst loaded)" and t: "\<forall>(i, row) \<in> set loaded. text_row T row"
    using distinct_mset_keys [OF assms(1,2)] assms(3) mset_eq_setD [OF assms(1)] by simp_all
  note R = entry_exact_rows_only [OF d t, of E l] note P = ensure_all_postings [OF R(1), of names]
  note C = entry_exact_cold [OF d t, of E l names]
  have "set names \<subseteq> dom (row_ids_by_field_value (build_cold_accessor_cache_entry E l loaded names))"
  proof -
    obtain g where "build_cold_accessor_cache_entry E l loaded names =
        (warm_entry E (normalize_distinct_field_names names) (loaded, map g (normalize_distinct_field_names names)))
          \<lparr>latest_tx_id := l\<rparr>"
      by (rule cold_entry_shape [OF d, where E = E and head = l and names = names]) (rule that)
    with assms(4) show ?thesis
      by (auto simp: warm_entry_def default_entry_def map_of_zip_names set_normalize split: if_splits)
  qed
  then show "entry_exact E T (entry_for_miss E names (l, loaded))"
    "mset (rows_by_id (entry_for_miss E names (l, loaded))) = mset rows"
    "latest_tx_id (entry_for_miss E names (l, loaded)) = l"
    "set names \<subseteq> dom (row_ids_by_field_value (entry_for_miss E names (l, loaded)))"
    using R P C assms(1)
    by (simp_all add: entry_for_miss_def ensure_postings_of_def build_rows_only_cache_entry_def build_cold_accessor_cache_entry_def Let_def)
qed

lemma through_entry_ok:
  assumes ok: "table_ok A stream table_id schema tracked T rs st" and files: "saved_current A log_of stream table_id schema rs"
    and build: "\<And>loaded. mset loaded = mset (table_rows A schema rs) \<Longrightarrow>
        entry_exact (cache_env A) T (build (log_head rs, loaded)) \<and>
        mset (rows_by_id (build (log_head rs, loaded))) = mset (table_rows A schema rs) \<and>
        latest_tx_id (build (log_head rs, loaded)) = log_head rs \<and> W (build (log_head rs, loaded))"
    and cached: "\<And>e r e'. entry_exact (cache_env A) T e \<Longrightarrow> mset (rows_by_id e) = mset (table_rows A schema rs) \<Longrightarrow>
        cached e = (r, e') \<Longrightarrow> Q r \<and> entry_exact (cache_env A) T e' \<and> rows_by_id e' = rows_by_id e \<and> latest_tx_id e' = latest_tx_id e"
    and fresh: "\<And>e r e'. entry_exact (cache_env A) T e \<Longrightarrow> mset (rows_by_id e) = mset (table_rows A schema rs) \<Longrightarrow> W e \<Longrightarrow>
        fresh e = (r, e') \<Longrightarrow> Q r \<and> entry_exact (cache_env A) T e' \<and> rows_by_id e' = rows_by_id e \<and> latest_tx_id e' = latest_tx_id e"
    and run: "load_through_entry A stream table_id schema names build cached fresh st = (found, st')"
  shows "Q found" and "table_ok A stream table_id schema tracked T rs st'"
proof -
  obtain res st1 where first: "with_matching_equality_cache_entry A stream cached st = (res, st1)" by (rule prod.exhaust)
  note M = matching_entry [where f = cached and Q = Q, OF ok _ first]
  have M': "table_ok A stream table_id schema tracked T rs st1" "\<And>r. res = Some r \<Longrightarrow> Q r" "res = None \<Longrightarrow> st1 = st"
    using M cached by blast+
  have "Q found \<and> table_ok A stream table_id schema tracked T rs st'"
  proof (cases res)
    case None
    obtain l loaded st2 where miss: "load_live_rows_for_accessor_miss A stream table_id schema names st1 = ((l, loaded), st2)"
      by (metis prod.exhaust)
    note L = miss_loads_table [OF M'(1) files miss]
    note B = build [OF L(3)]
    obtain r e where fr: "fresh (build (l, loaded)) = (r, e)" by (rule prod.exhaust)
    have F: "Q r \<and> entry_exact (cache_env A) T e \<and> rows_by_id e = rows_by_id (build (l, loaded)) \<and>
        latest_tx_id e = latest_tx_id (build (l, loaded))"
      using fresh [OF _ _ _ fr] B L(2) by simp
    have "found = r" "st' = insert_scoped_equality_cache_entry A stream e st1"
      using run first None miss fr L(1) by (simp_all add: load_through_entry_def)
    with F B L(2) insert_scoped_ok [OF M'(1), of e] show ?thesis by simp
  qed (use run first M' in \<open>simp add: load_through_entry_def\<close>)
  then show "Q found" "table_ok A stream table_id schema tracked T rs st'" by simp_all
qed

text \<open>The queries of the cached table, as the loaders answer them.\<close>

fun run_query ::
    "access_env \<Rightarrow> ustr \<Rightarrow> ustr \<Rightarrow> TableSchema \<Rightarrow> access_command \<Rightarrow> access_state \<Rightarrow> access_reply \<times> access_state" where
  "run_query A stream table_id schema (FindEqual filters) st =
     apfst (\<lambda>found. Found (mset found)) (load_live_rows_by_equality_filters A stream table_id schema filters st)"
| "run_query A stream table_id schema (CountEqual filters) st =
     apfst Counted (count_live_rows_by_equality_filters A stream table_id schema filters st)"
| "run_query A stream table_id schema (FindRanges f fs) st =
     apfst (\<lambda>found. Found (mset found)) (load_live_rows_by_range_intersection A stream table_id schema (f # fs) st)"
| "run_query A stream table_id schema (FindPattern name pattern) st =
     apfst (\<lambda>found. Found (mset found)) (load_live_rows_by_string_like A stream table_id schema name pattern False st)"
| "run_query A stream table_id schema (FindPrefixed name p) st =
     apfst (\<lambda>found. Found (mset found)) (load_live_rows_by_prefix A stream table_id schema name p False st)"
| "run_query A stream table_id schema _ st = (Changed, st)"

fun query_ok :: "access_env \<Rightarrow> ustr set \<Rightarrow> live_row list \<Rightarrow> access_command \<Rightarrow> bool" where
  "query_ok A T rows (FindEqual filters) = (filters \<noteq> [] \<and> canonical_filters A filters rows)"
| "query_ok A T rows (CountEqual filters) = (filters \<noteq> [] \<and> canonical_filters A filters rows)"
| "query_ok A T rows (FindRanges f fs) = (range_field f \<noteq> [])"
| "query_ok A T rows (FindPattern name pattern) = (name \<in> T \<and> name \<noteq> [] \<and> pattern \<noteq> [])"
| "query_ok A T rows (FindPrefixed name p) = (name \<in> T \<and> name \<noteq> [])"
| "query_ok A T rows _ = False"

lemma canonical_scan:
  assumes "increasing_ids rs" "canonical_filters A filters (table_rows A schema rs)"
  shows "equality_scan_loaded (rows_env A) schema filters threads rs =
     filter (\<lambda>(i, row). matches_bytes filters row) (table_rows A schema rs)"
  unfolding equality_scan_rows [OF assms(1)] using assms(2) by (intro filter_cong) (auto simp: canonical_filters_def)

lemma canonical_count:
  assumes "increasing_ids rs" "canonical_filters A filters (table_rows A schema rs)"
  shows "equality_count_loaded (rows_env A) schema filters rs =
     length (filter (\<lambda>(i, row). matches_bytes filters row) (table_rows A schema rs))"
proof -
  let ?dec = "\<lambda>p. Option.bind (filtered_decoder (rows_env A) schema filters p) (\<lambda>row. if same_bytes filters row then Some row else None)"
  have "equality_count_loaded (rows_env A) schema filters rs = length (live_spec ?dec (committed_groups rs) (aborted_groups rs) rs)"
    unfolding equality_count_loaded_def
    by (rule count_scan_rows [OF increasing_distinct [OF assms(1)]]) (auto simp: count_decoder_eq split: option.split)
  also have "live_spec ?dec (committed_groups rs) (aborted_groups rs) rs =
      filter (\<lambda>x. same_bytes filters (snd x)) (filter (\<lambda>(i, row). matches_bytes filters row) (table_rows A schema rs))"
    unfolding live_spec_filter using canonical_scan [OF assms, of 0]
    by (simp add: loaded_rows_spec [OF increasing_distinct [OF assms(1)]])
  also have "\<dots> = filter (\<lambda>(i, row). matches_bytes filters row) (table_rows A schema rs)"
  proof -
    have "matches_bytes filters row \<Longrightarrow> same_bytes filters row" for row
      by (auto simp: same_bytes_def matches_bytes_def split: list.split)
    then show ?thesis unfolding filter_filter by (intro filter_cong) auto
  qed
  finally show ?thesis .
qed

lemma equality_entry_lookup:
  assumes e: "entry_exact (cache_env A) T e" "mset (rows_by_id e) = mset rows" and ne: "filters \<noteq> []"
    and e': "e' = ensure_postings_of (cache_env A) (map fst filters) e"
  shows "mset (rows_for_field_values e' filters) = mset (filter (\<lambda>(i, row). matches_bytes filters row) rows)"
    and "count_rows_for_field_values e' filters = length (filter (\<lambda>(i, row). matches_bytes filters row) rows)"
    and "entry_exact (cache_env A) T e'" "rows_by_id e' = rows_by_id e" "latest_tx_id e' = latest_tx_id e"
proof -
  note P = ensure_all_postings [OF e(1), of "map fst filters", folded ensure_postings_of_def, folded e']
  have f: "fst ` set filters \<subseteq> dom (row_ids_by_field_value e')" using P(3) by auto
  show "mset (rows_for_field_values e' filters) = mset (filter (\<lambda>(i, row). matches_bytes filters row) rows)"
    using rows_for_field_values_exact [OF P(1) f ne] e(2) P(2) by simp
  show "count_rows_for_field_values e' filters = length (filter (\<lambda>(i, row). matches_bytes filters row) rows)"
    using count_rows_exact [OF P(1) f ne] e(2) P(2) by (metis mset_filter size_mset)
  show "entry_exact (cache_env A) T e'" "rows_by_id e' = rows_by_id e" by (rule P(1), rule P(2))
  show "latest_tx_id e' = latest_tx_id e" by (simp add: e' ensure_postings_of_def)
qed

lemma load_by_equality_ok:
  assumes ok: "table_ok A stream table_id schema tracked T rs st"
    and filters: "filters \<noteq> []" "canonical_filters A filters (table_rows A schema rs)"
    and run: "load_live_rows_by_equality_filters_with_limit A stream table_id schema filters limit st = (found, st')"
  shows "table_ok A stream table_id schema tracked T rs st'"
    and "\<exists>all. mset all = mset (filter (\<lambda>(i, row). matches_bytes filters row) (table_rows A schema rs)) \<and>
           found = apply_row_limit_if_any all limit"
proof -
  let ?R = "table_rows A schema rs" let ?f = "\<lambda>e. let e' = ensure_postings_of (cache_env A) (map fst filters) e in (rows_for_field_values e' filters, e')"
  let ?Q = "\<lambda>all. mset all = mset (filter (\<lambda>(i, row). matches_bytes filters row) ?R)"
  obtain res1 st1 where first: "with_matching_equality_cache_entry A stream ?f st = (res1, st1)" by (rule prod.exhaust)
  have f: "?Q r \<and> entry_exact (cache_env A) T e' \<and> rows_by_id e' = rows_by_id e \<and> latest_tx_id e' = latest_tx_id e"
    if "entry_exact (cache_env A) T e" "mset (rows_by_id e) = mset ?R" "?f e = (r, e')" for e r e'
    using equality_entry_lookup [OF that(1,2) filters(1) refl] that(3) by (auto simp: Let_def)
  have M: "table_ok A stream table_id schema tracked T rs st1" "\<And>r. res1 = Some r \<Longrightarrow> ?Q r"
    using matching_entry(1,2) [where f = ?f and Q = ?Q, OF ok _ first] f by blast+
  obtain res2 st2 where second: "planner_equality_probe_cache_rows A stream table_id filters st1 = (res2, st2)" by (rule prod.exhaust)
  note P = planner_probe_ok [OF M(1) second]
  note D = table_okD [OF P(1)]
  let ?all = "filter (\<lambda>(i, row). matches_bytes filters row) ?R"
  have direct: "load_live_rows_by_equality_filters_direct_wal_scan (log_env A) (rows_env A) (log_io A)
      (available_threads (cache_env A)) stream schema filters (wal st2) = ((log_head rs, ?all), wal st2)"
    using filters(1) loaded_log(2) [OF D(1)]
    by (simp add: load_live_rows_by_equality_filters_direct_wal_scan_def loaded_log(4) [OF D(1)] with_records_loaded [OF D(1)]
        loaded_head_def D(4) canonical_scan [OF D(3) filters(2)] scan_max [OF D(3,2)])
  have use_direct: "should_use_direct_scan_for_equality_probe A stream table_id schema st2"
    by (simp add: should_use_direct_scan_for_equality_probe_def loaded_log(2) [OF D(1)] D(4) Let_def)
  let ?st3 = "maybe_cache_equality_probe_rows A stream filters ?all (Some (log_head rs)) st2"
  have scan: "cached_direct_wal_scan A stream schema filters st2 = ((log_head rs, ?all), ?st3)"
    by (simp add: cached_direct_wal_scan_def direct loaded_log(2) [OF D(1)] D(4) Let_def)
  have C3: "table_ok A stream table_id schema tracked T rs ?st3" by (rule maybe_cache_ok [OF P(1)]) simp_all
  have C: "table_ok A stream table_id schema tracked T rs (maybe_cache_equality_probe_rows A stream filters ?all (Some (log_head rs)) ?st3)"
    by (rule maybe_cache_ok [OF C3]) simp_all
  have result: "(found, st') = (case res1 of Some r \<Rightarrow> (apply_row_limit_if_any r limit, st1) | None \<Rightarrow>
      (case res2 of Some r \<Rightarrow> (apply_row_limit_if_any r limit, st2) | None \<Rightarrow>
         (apply_row_limit_if_any ?all limit, maybe_cache_equality_probe_rows A stream filters ?all (Some (log_head rs)) ?st3)))"
    unfolding run [symmetric] load_live_rows_by_equality_filters_with_limit_def Let_def
    by (simp add: filters(1) first [unfolded Let_def] second scan use_direct split: option.split)
  show "table_ok A stream table_id schema tracked T rs st'"
    using result M(1) P(1) C by (cases res1; cases res2) simp_all
  show "\<exists>all. ?Q all \<and> found = apply_row_limit_if_any all limit"
  proof (cases res1)
    case none: None
    show ?thesis
    proof (cases res2)
      case None
      with none result show ?thesis by (intro exI [of _ ?all]) simp
    qed (use none result P(2) in auto)
  qed (use result M(2) in auto)
qed

lemma count_by_equality_ok:
  assumes ok: "table_ok A stream table_id schema tracked T rs st"
    and filters: "filters \<noteq> []" "canonical_filters A filters (table_rows A schema rs)"
    and run: "count_live_rows_by_equality_filters A stream table_id schema filters st = (n, st')"
  shows "table_ok A stream table_id schema tracked T rs st'"
    and "n = length (filter (\<lambda>(i, row). matches_bytes filters row) (table_rows A schema rs))"
proof -
  let ?R = "table_rows A schema rs" let ?f = "\<lambda>e. let e' = ensure_postings_of (cache_env A) (map fst filters) e in (count_rows_for_field_values e' filters, e')"
  let ?n = "length (filter (\<lambda>(i, row). matches_bytes filters row) ?R)"
  obtain res1 st1 where first: "with_matching_equality_cache_entry A stream ?f st = (res1, st1)" by (rule prod.exhaust)
  have f: "r = ?n \<and> entry_exact (cache_env A) T e' \<and> rows_by_id e' = rows_by_id e \<and> latest_tx_id e' = latest_tx_id e"
    if "entry_exact (cache_env A) T e" "mset (rows_by_id e) = mset ?R" "?f e = (r, e')" for e r e'
    using equality_entry_lookup [OF that(1,2) filters(1) refl] that(3) by (auto simp: Let_def)
  have M: "table_ok A stream table_id schema tracked T rs st1" "\<And>r. res1 = Some r \<Longrightarrow> r = ?n"
    using matching_entry(1,2) [where f = ?f and Q = "\<lambda>r. r = ?n", OF ok _ first] f by blast+
  obtain res2 st2 where second: "planner_equality_probe_cache_rows A stream table_id filters st1 = (res2, st2)" by (rule prod.exhaust)
  note P = planner_probe_ok [OF M(1) second]
  note D = table_okD [OF P(1)]
  have len: "length r = ?n" if "res2 = Some r" for r using P(2) [OF that] by (metis size_mset)
  have direct: "count_live_rows_by_equality_filters_direct_wal_scan (log_env A) (rows_env A) (log_io A) stream schema filters (wal st2) =
      (?n, wal st2)"
    using filters(1)
    by (simp add: count_live_rows_by_equality_filters_direct_wal_scan_def loaded_log(4) [OF D(1)] with_records_loaded [OF D(1)]
        canonical_count [OF D(3) filters(2)])
  have use_direct: "should_use_direct_scan_for_equality_probe A stream table_id schema st2"
    by (simp add: should_use_direct_scan_for_equality_probe_def loaded_log(2) [OF D(1)] D(4) Let_def)
  have result: "(n, st') = (case res1 of Some r \<Rightarrow> (r, st1) | None \<Rightarrow> (case res2 of Some r \<Rightarrow> (length r, st2) | None \<Rightarrow> (?n, st2)))"
    unfolding run [symmetric] count_live_rows_by_equality_filters_def Let_def
    by (simp add: filters(1) first [unfolded Let_def] second direct use_direct split: option.split)
  show "table_ok A stream table_id schema tracked T rs st'" using result M(1) P(1) by (cases res1; cases res2) simp_all
  show "n = ?n"
  proof (cases res1)
    case None
    then show ?thesis using result len by (cases res2) simp_all
  next
    case (Some r)
    with result M(2) [OF Some] show ?thesis by simp
  qed
qed

lemma miss_entry_table:
  assumes "table_ok A stream table_id schema tracked T rs st" "name \<noteq> []" "mset loaded = mset (table_rows A schema rs)"
  shows "entry_exact (cache_env A) T (entry_for_miss (cache_env A) [name] (log_head rs, loaded)) \<and>
     mset (rows_by_id (entry_for_miss (cache_env A) [name] (log_head rs, loaded))) = mset (table_rows A schema rs) \<and>
     latest_tx_id (entry_for_miss (cache_env A) [name] (log_head rs, loaded)) = log_head rs \<and>
     name \<in> dom (row_ids_by_field_value (entry_for_miss (cache_env A) [name] (log_head rs, loaded)))"
  using miss_entry [OF assms(3) table_rows_distinct [OF table_okD(3) [OF assms(1)]] table_okD(5) [OF assms(1)], of "[name]"]
    assms(2) by simp

lemma ranges_entry_lookup:
  assumes "entry_exact E T e" "mset (rows_by_id e) = mset rows" "range_field f \<in> dom (row_ids_by_field_value e)"
    and "rows_for_range_filters E e (f # fs) = (found, e')"
  shows "mset found = mset (filter (\<lambda>(i, row). list_all (within_filter E row) (f # fs)) rows) \<and>
     entry_exact E T e' \<and> rows_by_id e' = rows_by_id e \<and> latest_tx_id e' = latest_tx_id e"
  using range_filters_exact [OF assms(1,3,4)] range_keeps(2) [OF assms(4)] assms(2) by simp

lemma load_by_ranges_ok:
  assumes ok: "table_ok A stream table_id schema tracked T rs st" and files: "saved_current A log_of stream table_id schema rs"
    and name: "range_field f \<noteq> []"
    and run: "load_live_rows_by_range_intersection A stream table_id schema (f # fs) st = (found, st')"
  shows "mset found = mset (filter (\<lambda>(i, row). list_all (within_filter (cache_env A) row) (f # fs)) (table_rows A schema rs))"
    and "table_ok A stream table_id schema tracked T rs st'"
proof -
  let ?E = "cache_env A" let ?n = "range_field f" let ?R = "table_rows A schema rs"
  let ?Q = "\<lambda>found. mset found = mset (filter (\<lambda>(i, row). list_all (within_filter ?E row) (f # fs)) ?R)"
  have cached: "?Q r \<and> entry_exact ?E T e' \<and> rows_by_id e' = rows_by_id e \<and> latest_tx_id e' = latest_tx_id e"
    if "entry_exact ?E T e" "mset (rows_by_id e) = mset ?R" "rows_for_range_filters ?E (ensure_field_postings ?E ?n e) (f # fs) = (r, e')"
    for e r e'
    using ensure_postings_exact [OF that(1), of ?n] ranges_entry_lookup [OF _ _ _ that(3), where T = T and rows = ?R] that(2) by simp
  have load: "load_through_entry A stream table_id schema [?n] (entry_for_miss ?E [?n])
      (\<lambda>e. rows_for_range_filters ?E (ensure_field_postings ?E ?n e) (f # fs)) (\<lambda>e. rows_for_range_filters ?E e (f # fs)) st = (found, st')"
    using run by (simp add: load_live_rows_by_range_intersection_def Let_def)
  show "?Q found" "table_ok A stream table_id schema tracked T rs st'"
    by (rule through_entry_ok [where Q = ?Q and W = "\<lambda>e. ?n \<in> dom (row_ids_by_field_value e)", OF ok files _ _ _ load];
      rule miss_entry_table [OF ok name] cached ranges_entry_lookup; assumption)+
qed

lemma prefix_entry_lookup:
  assumes "entry_exact E T e" "mset (rows_by_id e) = mset rows" "name \<in> T"
    and "(let e' = ensure_string_like_index name False e in (rows_for_field_prefix e' name p False, e')) = (found, e')"
  shows "mset found = mset (filter (\<lambda>(i, row). field_text name (prefix (from_utf8_lossy p)) row) rows) \<and>
     entry_exact E T e' \<and> rows_by_id e' = rows_by_id e \<and> latest_tx_id e' = latest_tx_id e"
  using ensure_index_exact [OF assms(1,3)] prefix_lookup [OF ensure_index_exact(1,3) [OF assms(1,3)], of p] assms(2,4)
  by (auto simp: Let_def)

lemma load_by_prefix_ok:
  assumes ok: "table_ok A stream table_id schema tracked T rs st" and files: "saved_current A log_of stream table_id schema rs"
    and name: "name \<in> T" "name \<noteq> []"
    and run: "load_live_rows_by_prefix A stream table_id schema name p False st = (found, st')"
  shows "mset found = mset (filter (\<lambda>(i, row). field_text name (prefix (from_utf8_lossy p)) row) (table_rows A schema rs))"
    and "table_ok A stream table_id schema tracked T rs st'"
proof -
  let ?E = "cache_env A" let ?R = "table_rows A schema rs"
  let ?Q = "\<lambda>found. mset found = mset (filter (\<lambda>(i, row). field_text name (prefix (from_utf8_lossy p)) row) ?R)"
  let ?g = "\<lambda>e. let e' = ensure_string_like_index name False e in (rows_for_field_prefix e' name p False, e')"
  have cached: "?Q r \<and> entry_exact ?E T e' \<and> rows_by_id e' = rows_by_id e \<and> latest_tx_id e' = latest_tx_id e"
    if "entry_exact ?E T e" "mset (rows_by_id e) = mset ?R" "?g (ensure_field_postings ?E name e) = (r, e')" for e r e'
    using ensure_postings_exact [OF that(1), of name] prefix_entry_lookup [OF _ _ name(1) that(3), where E = ?E and rows = ?R] that(2)
    by simp
  have load: "load_through_entry A stream table_id schema [name] (entry_for_miss ?E [name])
      (\<lambda>e. ?g (ensure_field_postings ?E name e)) ?g st = (found, st')"
    using run by (simp add: load_live_rows_by_prefix_def Let_def)
  show "?Q found" "table_ok A stream table_id schema tracked T rs st'"
    by (rule through_entry_ok [where Q = ?Q and W = "\<lambda>e. name \<in> dom (row_ids_by_field_value e)", OF ok files _ _ _ load];
      rule miss_entry_table [OF ok name(2)] cached prefix_entry_lookup [OF _ _ name(1)]; assumption)+
qed

lemma pattern_entry_lookup:
  assumes "entry_exact E T e" "mset (rows_by_id e) = mset rows" "name \<in> T" "pattern \<noteq> []"
    and "(let e' = ensure_string_like_index name False e
          in (case rows_for_field_string_like_indexed e' name pattern of None \<Rightarrow> [] | Some found \<Rightarrow> found, e')) = (found, e')"
  shows "mset found = mset (filter (\<lambda>(i, row). field_text name (like_text (from_utf8_lossy pattern)) row) rows) \<and>
     entry_exact E T e' \<and> rows_by_id e' = rows_by_id e \<and> latest_tx_id e' = latest_tx_id e"
  using ensure_index_exact [OF assms(1,3)] pattern_lookup [OF ensure_index_exact(1,3) [OF assms(1,3)] assms(4)] assms(2,5)
  by (auto simp: Let_def simp del: like_spec.simps split: option.splits)

lemma load_by_pattern_ok:
  assumes ok: "table_ok A stream table_id schema tracked T rs st" and files: "saved_current A log_of stream table_id schema rs"
    and name: "name \<in> T" "name \<noteq> []" and pattern: "pattern \<noteq> []"
    and run: "load_live_rows_by_string_like A stream table_id schema name pattern False st = (found, st')"
  shows "mset found = mset (filter (\<lambda>(i, row). field_text name (like_text (from_utf8_lossy pattern)) row) (table_rows A schema rs))"
    and "table_ok A stream table_id schema tracked T rs st'"
proof -
  let ?E = "cache_env A" let ?R = "table_rows A schema rs"
  let ?Q = "\<lambda>found. mset found = mset (filter (\<lambda>(i, row). field_text name (like_text (from_utf8_lossy pattern)) row) ?R)"
  let ?g = "\<lambda>e. let e' = ensure_string_like_index name False e
                in (case rows_for_field_string_like_indexed e' name pattern of None \<Rightarrow> [] | Some found \<Rightarrow> found, e')"
  have load: "load_through_entry A stream table_id schema [name] (entry_for_miss ?E [name]) ?g ?g st = (found, st')"
    using run by (simp add: load_live_rows_by_string_like_def Let_def)
  show "?Q found" "table_ok A stream table_id schema tracked T rs st'"
    by (rule through_entry_ok [where Q = ?Q and W = "\<lambda>e. name \<in> dom (row_ids_by_field_value e)", OF ok files _ _ _ load];
      rule miss_entry_table [OF ok name(2)] pattern_entry_lookup [OF _ _ name(1) pattern]; assumption)+
qed

lemma run_query_ok:
  assumes ok: "table_ok A stream table_id schema tracked T rs st" and files: "saved_current A log_of stream table_id schema rs"
    and legal: "query_ok A T (table_rows A schema rs) c"
  shows "fst (run_query A stream table_id schema c st) = fst (scan_step (cache_env A) (table_rows A schema rs) c)"
    and "table_ok A stream table_id schema tracked T rs (snd (run_query A stream table_id schema c st))"
proof -
  have "fst (run_query A stream table_id schema c st) = fst (scan_step (cache_env A) (table_rows A schema rs) c) \<and>
     table_ok A stream table_id schema tracked T rs (snd (run_query A stream table_id schema c st))"
  proof (cases c)
    case (FindEqual filters)
    obtain found st' where run: "load_live_rows_by_equality_filters_with_limit A stream table_id schema filters None st = (found, st')"
      by (rule prod.exhaust)
    with FindEqual legal load_by_equality_ok [OF ok _ _ run] show ?thesis
      by (auto simp: load_live_rows_by_equality_filters_def apply_row_limit_if_any_def)
  next
    case (CountEqual filters)
    obtain n st' where run: "count_live_rows_by_equality_filters A stream table_id schema filters st = (n, st')"
      by (rule prod.exhaust)
    with CountEqual legal count_by_equality_ok [OF ok _ _ run] show ?thesis by simp
  next
    case (FindRanges f fs)
    obtain found st' where run: "load_live_rows_by_range_intersection A stream table_id schema (f # fs) st = (found, st')"
      by (rule prod.exhaust)
    with FindRanges legal load_by_ranges_ok [OF ok files _ run] show ?thesis by simp
  next
    case (FindPattern name pattern)
    obtain found st' where run: "load_live_rows_by_string_like A stream table_id schema name pattern False st = (found, st')"
      by (rule prod.exhaust)
    with FindPattern legal load_by_pattern_ok [OF ok files _ _ _ run] show ?thesis by (simp del: like_spec.simps)
  next
    case (FindPrefixed name p)
    obtain found st' where run: "load_live_rows_by_prefix A stream table_id schema name p False st = (found, st')"
      by (rule prod.exhaust)
    with FindPrefixed legal load_by_prefix_ok [OF ok files _ _ run] show ?thesis by simp
  qed (use legal in simp_all)
  then show "fst (run_query A stream table_id schema c st) = fst (scan_step (cache_env A) (table_rows A schema rs) c)"
    "table_ok A stream table_id schema tracked T rs (snd (run_query A stream table_id schema c st))" by simp_all
qed

section \<open>Writing\<close>

lemma entry_exact_latest [simp]: "entry_exact E T (e\<lparr>latest_tx_id := i\<rparr>) = entry_exact E T e"
  by (simp add: entry_exact_def)

lemma apply_keeps_latest [simp]:
  "latest_tx_id (apply_cached_row_insert i row e) = latest_tx_id e"
  "latest_tx_id (apply_cached_row_delete i row e) = latest_tx_id e"
  by (simp_all add: apply_cached_row_insert_def apply_cached_row_delete_def)

text \<open>The log of a table goes on with one ungrouped row record; the entry is the one before or follows it.\<close>

lemma table_ok_extend:
  assumes ok: "table_ok A stream table_id schema tracked T rs st"
    and later: "log_head rs < tx_id r" and log: "stream_log A stream st' = Some (rs @ [r])"
    and texts: "\<forall>(i, row) \<in> set (table_rows A schema (rs @ [r])). text_row T row"
    and probes: "equality_probe_result_cache st' = equality_probe_result_cache st"
    and entry: "\<And>e'. equality_table_cache st' (cache_scope_id A, stream) = Some e' \<Longrightarrow>
        (\<not> tracked \<and> equality_table_cache st (cache_scope_id A, stream) = Some e') \<or>
        (entry_exact (cache_env A) T e' \<and> mset (rows_by_id e') = mset (table_rows A schema (rs @ [r])) \<and> latest_tx_id e' = tx_id r)"
  shows "table_ok A stream table_id schema tracked T (rs @ [r]) st'"
proof -
  note D = table_okD [OF ok]
  have inc: "increasing_ids (rs @ [r])" by (rule increasing_snoc [OF D(3,2) later])
  have "entry_current A schema tracked T (rs @ [r]) e'"
    if "equality_table_cache st' (cache_scope_id A, stream) = Some e'" for e'
    using entry [OF that] D(6) [of e'] later by (auto simp: entry_current_def)
  moreover have "probes_current A schema (rs @ [r]) table"
    if "equality_probe_result_cache st' (cache_scope_id A, stream) = Some table" for table
  proof -
    have old: "\<forall>(k, p) \<in> set table. probe_tx_id p \<le> log_head rs"
      using D(7) [of table] that probes by (simp add: probes_current_def)
    then have "probe_tx_id p < tx_id r" if "(k, p) \<in> set table" for k p using that later by fastforce
    then show ?thesis by (fastforce simp: probes_current_def probe_holds_def)
  qed
  ultimately show ?thesis using ok inc log texts probes by (simp add: table_ok_def)
qed

lemma table_ok_same_log:
  assumes "table_ok A stream table_id schema tracked T rs st" "stream_log A stream (st\<lparr>wal := m\<rparr>) = Some rs"
  shows "table_ok A stream table_id schema tracked T rs (st\<lparr>wal := m\<rparr>)"
  using assms by (simp add: table_ok_def)

text \<open>A row that a write puts into the table or takes out of it, and the entry that follows.\<close>

lemma fresh_row_id:
  assumes "increasing_ids rs" "log_head rs < i" "mset (rows_by_id e) = mset (table_rows A schema rs)"
  shows "fresh_id i (rows_by_id e)"
proof -
  have "j < i" if "(j, row) \<in> set (rows_by_id e)" for j row
    using table_rows_ids [OF assms(1)] increasing_last [OF assms(1)] assms(2) that mset_eq_setD [OF assms(3)] by fastforce
  then show ?thesis by (fastforce simp: fresh_id_def)
qed

lemma entry_follows_insert:
  assumes c: "entry_exact E T e" "mset (rows_by_id e) = mset (table_rows A schema rs)"
    and "increasing_ids rs" "log_head rs < i" "text_row T row"
  shows "entry_exact E T (apply_row_of_kind Insert i row (e\<lparr>latest_tx_id := i\<rparr>))"
    and "mset (rows_by_id (apply_row_of_kind Insert i row (e\<lparr>latest_tx_id := i\<rparr>))) = mset (table_rows A schema rs @ [(i, row)])"
    and "latest_tx_id (apply_row_of_kind Insert i row (e\<lparr>latest_tx_id := i\<rparr>)) = i"
proof -
  have e: "entry_exact E T (e\<lparr>latest_tx_id := i\<rparr>)" "fresh_id i (rows_by_id (e\<lparr>latest_tx_id := i\<rparr>))"
    using c fresh_row_id [OF assms(3,4) c(2)] by simp_all
  from entry_exact_insert [OF e assms(5)] c(2) show
    "entry_exact E T (apply_row_of_kind Insert i row (e\<lparr>latest_tx_id := i\<rparr>))"
    "mset (rows_by_id (apply_row_of_kind Insert i row (e\<lparr>latest_tx_id := i\<rparr>))) = mset (table_rows A schema rs @ [(i, row)])"
    by (simp_all add: apply_row_of_kind_def)
qed (simp add: apply_row_of_kind_def)

lemma entry_follows_delete:
  assumes c: "entry_exact E T e" "mset (rows_by_id e) = mset (table_rows A schema rs)"
    and row: "(i, row) \<in> set (table_rows A schema rs)"
  shows "entry_exact E T (apply_row_of_kind Delete i row (e\<lparr>latest_tx_id := head\<rparr>))"
    and "mset (rows_by_id (apply_row_of_kind Delete i row (e\<lparr>latest_tx_id := head\<rparr>))) =
         mset (filter (\<lambda>(j, _). Some i \<noteq> Some j) (table_rows A schema rs))"
    and "latest_tx_id (apply_row_of_kind Delete i row (e\<lparr>latest_tx_id := head\<rparr>)) = head"
proof -
  have e: "entry_exact E T (e\<lparr>latest_tx_id := head\<rparr>)" "(i, row) \<in> set (rows_by_id (e\<lparr>latest_tx_id := head\<rparr>))"
    using c(1) row mset_eq_setD [OF c(2)] by simp_all
  from entry_exact_delete [OF e] c(2) show
    "entry_exact E T (apply_row_of_kind Delete i row (e\<lparr>latest_tx_id := head\<rparr>))"
    "mset (rows_by_id (apply_row_of_kind Delete i row (e\<lparr>latest_tx_id := head\<rparr>))) =
         mset (filter (\<lambda>(j, _). Some i \<noteq> Some j) (table_rows A schema rs))"
    by (simp_all add: apply_row_of_kind_def delete_filter eq_commute [of i])
qed (simp add: apply_row_of_kind_def)

text \<open>What a mutation leaves of the caches when the entry stays within the limit on its size.\<close>

definition within_budget ::
    "acc_env \<Rightarrow> nat \<Rightarrow> ustr \<Rightarrow> u64 \<Rightarrow> TransactionKind \<Rightarrow> u64 \<Rightarrow> row_map \<Rightarrow> access_state \<Rightarrow> bool" where
  "within_budget E scope stream head kind i row st =
     (case equality_table_cache st (scope, stream) of
        None \<Rightarrow> True
      | Some e \<Rightarrow> fst (enforce_entry_row_budget E (apply_row_of_kind kind i row (e\<lparr>latest_tx_id := head\<rparr>))))"

lemma budget_kept: "fst (enforce_entry_row_budget E e) \<Longrightarrow> snd (enforce_entry_row_budget E e) = e"
  by (auto simp: enforce_entry_row_budget_def Let_def split: if_splits)

lemma unlimited_budget: "accessor_cache_rows_max_bytes E = 0 \<Longrightarrow> within_budget E scope stream head kind i row st"
  by (simp add: within_budget_def enforce_entry_row_budget_def Let_def split: option.split)

lemma mutation_state:
  assumes "within_budget E scope stream head kind i row st"
  shows "wal (apply_equality_cache_row_mutation E scope stream head kind i row st) = wal st"
    and "equality_probe_result_cache (apply_equality_cache_row_mutation E scope stream head kind i row st) =
           equality_probe_result_cache st"
    and "equality_table_cache (apply_equality_cache_row_mutation E scope stream head kind i row st) (scope, stream) =
           map_option (\<lambda>e. apply_row_of_kind kind i row (e\<lparr>latest_tx_id := head\<rparr>)) (equality_table_cache st (scope, stream))"
  using assms
  by (simp_all add: apply_equality_cache_row_mutation_def equality_cache_entry_def insert_equality_cache_entry_def
      within_budget_def budget_kept split: option.splits)

lemma within_budget_wal [simp]:
  "within_budget E scope stream head kind i row (st\<lparr>wal := m\<rparr>) = within_budget E scope stream head kind i row st"
  by (simp add: within_budget_def)

lemma next_id_later:
  assumes "log_head rs \<noteq> - 1"
  shows "log_head rs < log_head rs + 1"
proof -
  have "1 + log_head rs \<noteq> 0" using assms by (simp add: add_eq_0_iff)
  then show ?thesis by (simp add: word_less_nat_alt unatSuc add.commute)
qed

lemma stream_log_wal: "stream_log A stream st' = stream_log A stream st" if "wal st' = wal st"
  using that by (simp add: stream_log_def split: sum.split)

text \<open>
  The record is appended and the entry of an indexed table follows it: \<open>r\<close> is the record, \<open>i\<close> the row id that
  the mutation of the entry gets.
\<close>

lemma appended_row_ok:
  assumes ok: "table_ok A stream table_id schema tracked T rs st" and room: "log_head rs \<noteq> - 1"
    and budget: "tracked \<Longrightarrow> within_budget (cache_env A) (cache_scope_id A) stream (log_head rs + 1) kind i row st"
    and r: "r = with_payload (log_head rs + 1) None ref ts who kind payload"
    and app: "append_with_context (log_env A) io stream r context (wal st) = (Inr u, m)"
    and texts: "\<forall>(i, row) \<in> set (table_rows A schema (rs @ [r])). text_row T row"
    and follows: "\<And>e. entry_exact (cache_env A) T e \<Longrightarrow> mset (rows_by_id e) = mset (table_rows A schema rs) \<Longrightarrow>
        (let e' = apply_row_of_kind kind i row (e\<lparr>latest_tx_id := log_head rs + 1\<rparr>) in
           entry_exact (cache_env A) T e' \<and> mset (rows_by_id e') = mset (table_rows A schema (rs @ [r])) \<and>
           latest_tx_id e' = log_head rs + 1)"
    and st': "st' = (if tracked then apply_equality_cache_row_mutation (cache_env A) (cache_scope_id A) stream (log_head rs + 1) kind i row
                       (st\<lparr>wal := m\<rparr>) else st\<lparr>wal := m\<rparr>)"
  shows "table_ok A stream table_id schema tracked T (rs @ [r]) st'"
proof -
  note D = table_okD [OF ok]
  note later = next_id_later [OF room]
  have id: "tx_id r = log_head rs + 1" by (simp add: r with_payload_def)
  have "is_ordered rs r" using D(2) later id by (simp add: is_ordered_def)
  then have log: "stream_log A stream (st\<lparr>wal := m\<rparr>) = Some (rs @ [r])"
    using append_log [OF D(1) app] by (simp add: append_entries_def)
  note S = mutation_state [of "cache_env A" "cache_scope_id A" stream "log_head rs + 1" kind i row "st\<lparr>wal := m\<rparr>"]
  show ?thesis
  proof (rule table_ok_extend [OF ok _ _ texts])
    show "log_head rs < tx_id r" using later id by simp
    show "stream_log A stream st' = Some (rs @ [r])"
      using log stream_log_wal [OF S(1)] budget by (simp add: st')
    show "equality_probe_result_cache st' = equality_probe_result_cache st" using S(2) budget by (simp add: st')
  next
    fix e' assume e': "equality_table_cache st' (cache_scope_id A, stream) = Some e'"
    show "(\<not> tracked \<and> equality_table_cache st (cache_scope_id A, stream) = Some e') \<or>
        (entry_exact (cache_env A) T e' \<and> mset (rows_by_id e') = mset (table_rows A schema (rs @ [r])) \<and> latest_tx_id e' = tx_id r)"
    proof (cases tracked)
      case True
      then obtain e where e: "equality_table_cache st (cache_scope_id A, stream) = Some e"
        "e' = apply_row_of_kind kind i row (e\<lparr>latest_tx_id := log_head rs + 1\<rparr>)"
        using e' S(3) budget by (auto simp: st')
      have "entry_exact (cache_env A) T e" "mset (rows_by_id e) = mset (table_rows A schema rs)"
        using D(6) [OF e(1)] True by (simp_all add: entry_current_def)
      from follows [OF this] show ?thesis by (simp add: e(2) id Let_def)
    qed (use e' in \<open>simp add: st'\<close>)
  qed
qed

definition insert_table_row ::
    "access_env \<Rightarrow> catalog_view \<Rightarrow> table_view \<Rightarrow> bytes \<Rightarrow> row_map \<Rightarrow> u64 \<Rightarrow> access_state \<Rightarrow> unit result \<times> access_state" where
  "insert_table_row A catalog table payload row ts =
     append_row_payload_record_with_prepared_row_map A catalog table Insert payload (Some row) ts None None"

definition delete_table_row ::
    "access_env \<Rightarrow> catalog_view \<Rightarrow> table_view \<Rightarrow> u64 \<Rightarrow> u64 set \<Rightarrow> bytes \<Rightarrow> row_map \<Rightarrow> u64 \<Rightarrow> access_state
       \<Rightarrow> unit result \<times> access_state" where
  "delete_table_row A catalog table i live_row_ids payload row ts =
     append_row_payload_record_with_live_row_ids_and_prepared_row_map A catalog table Delete payload ts (Some i)
       (Some live_row_ids) (Some row) None"

lemma append_failed_ok:
  assumes ok: "table_ok A stream table_id schema tracked T rs st"
    and app: "append_with_context (log_env A) io stream r context (wal st) = (Inl e, m)"
  shows "table_ok A stream table_id schema tracked T rs (st\<lparr>wal := m\<rparr>)"
  by (rule table_ok_same_log [OF ok]) (use append_log [OF table_okD(1) [OF ok] app] in simp)

lemma insert_table_row_ok:
  fixes catalog :: catalog_view and table :: table_view
  defines "stream \<equiv> table_stream_id catalog (view_table_id table)"
  assumes ok: "table_ok A stream table_id (view_schema table) (has_derived_indexes table) T rs st" and room: "log_head rs \<noteq> - 1"
    and budget: "has_derived_indexes table \<Longrightarrow>
        within_budget (cache_env A) (cache_scope_id A) stream (log_head rs + 1) Insert (log_head rs + 1) row st"
    and row: "decode_row (rows_env A) (view_schema table) payload = Inr row" "text_row T row"
    and run: "insert_table_row A catalog table payload row ts st = (res, st')"
  shows "\<exists>rs'. table_ok A stream table_id (view_schema table) (has_derived_indexes table) T rs' st' \<and>
     (case res of Inl _ \<Rightarrow> rs' = rs
      | Inr _ \<Rightarrow> log_head rs' = log_head rs + 1 \<and>
          table_rows A (view_schema table) rs' = table_rows A (view_schema table) rs @ [(log_head rs + 1, row)])"
proof -
  note D = table_okD [OF ok]
  let ?c = "payload_context_for_table catalog (view_table_id table)" let ?S = "view_schema table" let ?R = "table_rows A ?S rs"
  let ?r = "with_payload (log_head rs + 1) None (Some (log_head rs)) ts (server_actor A) Insert payload"
  obtain ans m where app: "append_with_context (log_env A) (log_io A) stream ?r ?c (wal st) = (ans, m)" by (rule prod.exhaust)
  let ?after = "if has_derived_indexes table
      then apply_equality_cache_row_mutation (cache_env A) (cache_scope_id A) stream (log_head rs + 1) Insert (log_head rs + 1) row (st\<lparr>wal := m\<rparr>)
      else st\<lparr>wal := m\<rparr>"
  have result: "(res, st') = (case ans of Inl e \<Rightarrow> (Err e, st\<lparr>wal := m\<rparr>) | Inr _ \<Rightarrow> (Ok (), ?after))"
    unfolding run [symmetric] insert_table_row_def append_row_payload_record_with_prepared_row_map_def
      append_row_payload_record_with_live_row_ids_and_prepared_row_map_def stream_def [symmetric]
    by (simp add: check_refid_def loaded_log(1) [OF D(1)] D(4) next_id_def row_map_for_cache_def is_row_mutation_def app Let_def
        split: sum.split)
  show ?thesis
  proof (cases ans)
    case (Inl e)
    with result append_failed_ok [OF ok app [unfolded Inl]] show ?thesis by auto
  next
    case (Inr u)
    have inc: "increasing_ids (rs @ [?r])"
      using increasing_snoc [OF D(3,2)] next_id_later [OF room] by (simp add: with_payload_def)
    have rows: "table_rows A ?S (rs @ [?r]) = ?R @ [(log_head rs + 1, row)]"
      using row(1) by (subst table_rows_append [OF inc]) (simp_all add: with_payload_def is_row_kind_def payload_logical_def resolved_payload_def)
    have "table_ok A stream table_id ?S (has_derived_indexes table) T (rs @ [?r]) ?after"
    proof (rule appended_row_ok [OF ok room _ refl app [unfolded Inr]])
      show "\<forall>(i, row) \<in> set (table_rows A ?S (rs @ [?r])). text_row T row" using rows D(5) row(2) by auto
    next
      fix e assume e: "entry_exact (cache_env A) T e" "mset (rows_by_id e) = mset ?R"
      from entry_follows_insert [OF e D(3) next_id_later [OF room] row(2)] rows
      show "let e' = apply_row_of_kind Insert (log_head rs + 1) row (e\<lparr>latest_tx_id := log_head rs + 1\<rparr>) in
           entry_exact (cache_env A) T e' \<and> mset (rows_by_id e') = mset (table_rows A ?S (rs @ [?r])) \<and>
           latest_tx_id e' = log_head rs + 1" by (simp add: Let_def)
    qed (simp_all add: budget)
    with result Inr rows show ?thesis by (intro exI [of _ "rs @ [?r]"]) (simp add: with_payload_def)
  qed
qed

lemma delete_table_row_ok:
  fixes catalog :: catalog_view and table :: table_view
  defines "stream \<equiv> table_stream_id catalog (view_table_id table)"
  assumes ok: "table_ok A stream table_id (view_schema table) (has_derived_indexes table) T rs st" and room: "log_head rs \<noteq> - 1"
    and budget: "has_derived_indexes table \<Longrightarrow>
        within_budget (cache_env A) (cache_scope_id A) stream (log_head rs + 1) Delete i row st"
    and row: "(i, row) \<in> set (table_rows A (view_schema table) rs)"
    and run: "delete_table_row A catalog table i live_row_ids payload row ts st = (res, st')"
  shows "\<exists>rs'. table_ok A stream table_id (view_schema table) (has_derived_indexes table) T rs' st' \<and>
     (case res of Inl _ \<Rightarrow> rs' = rs
      | Inr _ \<Rightarrow> i \<in> live_row_ids \<and> log_head rs' = log_head rs + 1 \<and>
          table_rows A (view_schema table) rs' = filter (\<lambda>(j, _). j \<noteq> i) (table_rows A (view_schema table) rs))"
proof -
  note D = table_okD [OF ok]
  let ?c = "payload_context_for_table catalog (view_table_id table)" let ?S = "view_schema table" let ?R = "table_rows A ?S rs"
  let ?r = "with_payload (log_head rs + 1) None (Some i) ts (server_actor A) Delete payload"
  obtain ans m where app: "append_with_context (log_env A) (log_io A) stream ?r ?c (wal st) = (ans, m)" by (rule prod.exhaust)
  let ?after = "if has_derived_indexes table
      then apply_equality_cache_row_mutation (cache_env A) (cache_scope_id A) stream (log_head rs + 1) Delete i row (st\<lparr>wal := m\<rparr>)
      else st\<lparr>wal := m\<rparr>"
  have result: "(res, st') =
      (if i \<in> live_row_ids then (case ans of Inl e \<Rightarrow> (Err e, st\<lparr>wal := m\<rparr>) | Inr _ \<Rightarrow> (Ok (), ?after))
       else (Err ''row mutation references stale or missing live transaction id'', st))"
    unfolding run [symmetric] delete_table_row_def append_row_payload_record_with_live_row_ids_and_prepared_row_map_def
      stream_def [symmetric]
    by (simp add: check_refid_def live_row_exists_def loaded_log(1) [OF D(1)] D(4) next_id_def row_map_for_cache_def
        is_row_mutation_def app Let_def split: sum.split)
  show ?thesis
  proof (cases "i \<in> live_row_ids")
    case False
    with result ok show ?thesis by auto
  next
    case live: True
    show ?thesis
    proof (cases ans)
      case (Inl e)
      with live result append_failed_ok [OF ok app [unfolded Inl]] show ?thesis by auto
    next
      case (Inr u)
      have inc: "increasing_ids (rs @ [?r])"
        using increasing_snoc [OF D(3,2)] next_id_later [OF room] by (simp add: with_payload_def)
      have rows: "table_rows A ?S (rs @ [?r]) = filter (\<lambda>(j, _). Some i \<noteq> Some j) ?R"
        by (subst table_rows_append [OF inc]) (simp_all add: with_payload_def)
      have "table_ok A stream table_id ?S (has_derived_indexes table) T (rs @ [?r]) ?after"
      proof (rule appended_row_ok [OF ok room _ refl app [unfolded Inr]])
        show "\<forall>(i, row) \<in> set (table_rows A ?S (rs @ [?r])). text_row T row" using rows D(5) by auto
      next
        fix e assume e: "entry_exact (cache_env A) T e" "mset (rows_by_id e) = mset ?R"
        from entry_follows_delete [OF e row, of "log_head rs + 1"] rows
        show "let e' = apply_row_of_kind Delete i row (e\<lparr>latest_tx_id := log_head rs + 1\<rparr>) in
             entry_exact (cache_env A) T e' \<and> mset (rows_by_id e') = mset (table_rows A ?S (rs @ [?r])) \<and>
             latest_tx_id e' = log_head rs + 1" by (simp add: Let_def)
      qed (simp_all add: budget)
      with result live Inr rows show ?thesis
        by (intro exI [of _ "rs @ [?r]"]) (simp add: with_payload_def eq_commute [of i])
    qed
  qed
qed

section \<open>The system of log and caches\<close>

text \<open>What may differ from call to call: I/O outcomes, the clock, and the checkpoint and snapshot files.\<close>

record call_context =
  call_io :: io_outcomes
  call_now :: nat
  call_saved :: checkpoint_files

definition at_call :: "access_env \<Rightarrow> call_context \<Rightarrow> access_env" where
  "at_call A k = A\<lparr>log_io := call_io k, clock_now := call_now k, saved := call_saved k\<rparr>"

datatype table_call = Query access_command | InsertRow bytes row_map u64 | DeleteRow u64 "u64 set" bytes row_map u64

datatype table_answer = Answer access_reply | Written bool

fun system_step ::
    "access_env \<Rightarrow> catalog_view \<Rightarrow> table_view \<Rightarrow> access_state \<Rightarrow> call_context \<times> table_call \<Rightarrow> table_answer \<times> access_state" where
  "system_step A catalog table st (k, Query q) =
     apfst Answer (run_query (at_call A k) (table_stream_id catalog (view_table_id table)) (view_table_id table) (view_schema table) q st)"
| "system_step A catalog table st (k, InsertRow payload row ts) =
     apfst (\<lambda>res. Written (is_ok res)) (insert_table_row (at_call A k) catalog table payload row ts st)"
| "system_step A catalog table st (k, DeleteRow i live_row_ids payload row ts) =
     apfst (\<lambda>res. Written (is_ok res)) (delete_table_row (at_call A k) catalog table i live_row_ids payload row ts st)"

text \<open>
  The specification is a list of rows and the last identifier.  It accepts a sequence of calls and answers
  when every query is answered from the rows and every acknowledged write changes them.
\<close>

fun table_accepts :: "acc_env \<Rightarrow> u64 \<times> live_row list \<Rightarrow> (table_call \<times> table_answer) list \<Rightarrow> bool" where
  "table_accepts E (h, rows) [] = True"
| "table_accepts E (h, rows) ((Query q, ans) # tr) = (ans = Answer (fst (scan_step E rows q)) \<and> table_accepts E (h, rows) tr)"
| "table_accepts E (h, rows) ((InsertRow payload row ts, Written done) # tr) =
     table_accepts E (if done then (h + 1, rows @ [(h + 1, row)]) else (h, rows)) tr"
| "table_accepts E (h, rows) ((DeleteRow i live_row_ids payload row ts, Written done) # tr) =
     table_accepts E (if done then (h + 1, filter (\<lambda>(j, _). j \<noteq> i) rows) else (h, rows)) tr"
| "table_accepts E (h, rows) (_ # tr) = False"

text \<open>\<open>log_of\<close> is the history that the fingerprints in the files refer to.\<close>

definition table_log :: "access_env \<Rightarrow> catalog_view \<Rightarrow> table_view \<Rightarrow> access_state \<Rightarrow> entries" where
  "table_log A catalog table st =
     (case stream_log A (table_stream_id catalog (view_table_id table)) st of None \<Rightarrow> [] | Some rs \<Rightarrow> rs)"

fun call_ok ::
    "access_env \<Rightarrow> (u64 \<times> u64 \<Rightarrow> entries) \<Rightarrow> catalog_view \<Rightarrow> table_view \<Rightarrow> ustr set \<Rightarrow> access_state
       \<Rightarrow> call_context \<times> table_call \<Rightarrow> bool" where
  "call_ok A log_of catalog table T st (k, Query q) =
     (query_ok A T (table_rows A (view_schema table) (table_log A catalog table st)) q \<and>
      saved_current (at_call A k) log_of (table_stream_id catalog (view_table_id table)) (view_table_id table)
        (view_schema table) (table_log A catalog table st))"
| "call_ok A log_of catalog table T st (k, InsertRow payload row ts) =
     (log_head (table_log A catalog table st) \<noteq> - 1 \<and>
      decode_row (rows_env A) (view_schema table) payload = Inr row \<and> text_row T row \<and>
      (has_derived_indexes table \<longrightarrow>
         within_budget (cache_env A) (cache_scope_id A) (table_stream_id catalog (view_table_id table))
           (log_head (table_log A catalog table st) + 1) Insert (log_head (table_log A catalog table st) + 1) row st))"
| "call_ok A log_of catalog table T st (k, DeleteRow i live_row_ids payload row ts) =
     (log_head (table_log A catalog table st) \<noteq> - 1 \<and>
      (i, row) \<in> set (table_rows A (view_schema table) (table_log A catalog table st)) \<and>
      (has_derived_indexes table \<longrightarrow>
         within_budget (cache_env A) (cache_scope_id A) (table_stream_id catalog (view_table_id table))
           (log_head (table_log A catalog table st) + 1) Delete i row st))"

lemma at_call_sel [simp]:
  "log_env (at_call A k) = log_env A" "rows_env (at_call A k) = rows_env A" "cache_env (at_call A k) = cache_env A"
  "cache_scope_id (at_call A k) = cache_scope_id A" "saved (at_call A k) = call_saved k" "codecs (at_call A k) = codecs A"
  by (simp_all add: at_call_def)

lemma at_call_log [simp]: "stream_log (at_call A k) = stream_log A" "table_rows (at_call A k) = table_rows A"
  by (intro ext; simp add: stream_log_def table_rows_def)+

lemma at_call_ok [simp]:
  "query_ok (at_call A k) T rows q = query_ok A T rows q"
  "table_ok (at_call A k) stream table_id schema tracked T rs st = table_ok A stream table_id schema tracked T rs st"
  by (cases q) (simp_all add: canonical_filters_def table_ok_def entry_current_def probes_current_def)

lemma table_ok_log:
  "table_ok A (table_stream_id catalog (view_table_id table)) table_id schema tracked T rs st \<Longrightarrow> table_log A catalog table st = rs"
  by (simp add: table_log_def table_ok_def)

text \<open>One call: its answer is accepted, and the specification goes on from what the log holds then.\<close>

lemma system_step_accepted:
  fixes catalog :: catalog_view and table :: table_view
  defines "stream \<equiv> table_stream_id catalog (view_table_id table)"
  assumes ok: "table_ok A stream (view_table_id table) (view_schema table) (has_derived_indexes table) T rs st"
    and legal: "call_ok A log_of catalog table T st (k, call)"
    and run: "system_step A catalog table st (k, call) = (ans, st')"
  shows "\<exists>rs'. table_ok A stream (view_table_id table) (view_schema table) (has_derived_indexes table) T rs' st' \<and>
     (table_accepts (cache_env A) (log_head rs', table_rows A (view_schema table) rs') tr \<longrightarrow>
      table_accepts (cache_env A) (log_head rs, table_rows A (view_schema table) rs) ((call, ans) # tr))"
proof -
  note log = table_ok_log [OF ok [unfolded stream_def]]
  have ok': "table_ok (at_call A k) stream (view_table_id table) (view_schema table) (has_derived_indexes table) T rs st" using ok by simp
  show ?thesis
  proof (cases call)
    case (Query q)
    have q: "query_ok (at_call A k) T (table_rows (at_call A k) (view_schema table) rs) q"
      "saved_current (at_call A k) log_of stream (view_table_id table) (view_schema table) rs"
      using legal by (simp_all add: Query log stream_def)
    from run_query_ok [OF ok' q(2) q(1)] run show ?thesis
      by (auto simp: Query stream_def apfst_def map_prod_def split: prod.splits intro!: exI [of _ rs])
  next
    case (InsertRow payload row ts)
    obtain res where res: "insert_table_row (at_call A k) catalog table payload row ts st = (res, st')" "ans = Written (is_ok res)"
      using run by (cases "insert_table_row (at_call A k) catalog table payload row ts st") (simp add: InsertRow)
    have g: "log_head rs \<noteq> - 1" "decode_row (rows_env A) (view_schema table) payload = Inr row" "text_row T row"
      and budget: "has_derived_indexes table \<Longrightarrow>
        within_budget (cache_env A) (cache_scope_id A) stream (log_head rs + 1) Insert (log_head rs + 1) row st"
      using legal by (simp_all add: InsertRow log stream_def)
    from insert_table_row_ok [OF ok' [unfolded stream_def] g(1) _ _ g(3) res(1)] g(2) budget [unfolded stream_def]
    show ?thesis
      by (cases res) (auto simp: InsertRow res(2) stream_def)
  next
    case (DeleteRow i live_row_ids payload row ts)
    obtain res where res: "delete_table_row (at_call A k) catalog table i live_row_ids payload row ts st = (res, st')"
      "ans = Written (is_ok res)"
      using run by (cases "delete_table_row (at_call A k) catalog table i live_row_ids payload row ts st") (simp add: DeleteRow)
    have g: "log_head rs \<noteq> - 1" "(i, row) \<in> set (table_rows A (view_schema table) rs)"
      and budget: "has_derived_indexes table \<Longrightarrow>
        within_budget (cache_env A) (cache_scope_id A) stream (log_head rs + 1) Delete i row st"
      using legal by (simp_all add: DeleteRow log stream_def)
    from delete_table_row_ok [OF ok' [unfolded stream_def] g(1) _ _ res(1)] g(2) budget [unfolded stream_def]
    show ?thesis
      by (cases res) (auto simp: DeleteRow res(2) stream_def)
  qed
qed

text \<open>
  C12. Reads through the caches see the log.  Take a table whose log is loaded and whose cached entry and probe
  results, if there are any, are those of the log; let queries by field values, counts, ranges, prefixes and
  patterns, the last two with regard to case, be mixed with insertions and deletions of rows outside of write
  groups in any order, with I/O failures, expired probe results, and checkpoint and snapshot files of any age
  at every call.  Every query is answered as from a list of rows to which each acknowledged insertion adds its
  row under the next identifier, from which each acknowledged deletion takes its row, and which a failed write
  leaves alone.  The conditions: fields that are searched by prefix or pattern hold text, and patterns are not
  empty; the values that an equality query compares are stored in one form; an inserted payload decodes to the
  row that comes with it, and a deleted row is one of the table; identifiers are not used up; no write takes
  the cached entry of an indexed table over the limit on its size; a file holds the rows of the log whose size
  and modification time it notes, and these two tell the logs of the table apart.
\<close>

theorem cached_reads_see_log:
  fixes catalog :: catalog_view and table :: table_view
  assumes "table_ok A (table_stream_id catalog (view_table_id table)) (view_table_id table) (view_schema table)
             (has_derived_indexes table) T rs st"
    and "admissible_run (\<lambda>st c. snd (system_step A catalog table st c)) (call_ok A log_of catalog table T) st calls"
  shows "table_accepts (cache_env A) (log_head rs, table_rows A (view_schema table) rs)
           (zip (map snd calls) (run_replies (system_step A catalog table) st calls))"
  using assms
proof (induction calls arbitrary: st rs)
  case (Cons c calls)
  obtain k call where c: "c = (k, call)" by (rule prod.exhaust)
  obtain ans st' where step: "system_step A catalog table st c = (ans, st')" by (rule prod.exhaust)
  have legal: "call_ok A log_of catalog table T st (k, call)" using Cons.prems(2) c by simp
  obtain rs' where rs': "table_ok A (table_stream_id catalog (view_table_id table)) (view_table_id table) (view_schema table)
      (has_derived_indexes table) T rs' st'"
    and goes_on: "table_accepts (cache_env A) (log_head rs', table_rows A (view_schema table) rs')
        (zip (map snd calls) (run_replies (system_step A catalog table) st' calls)) \<longrightarrow>
      table_accepts (cache_env A) (log_head rs, table_rows A (view_schema table) rs)
        ((call, ans) # zip (map snd calls) (run_replies (system_step A catalog table) st' calls))"
    using system_step_accepted [OF Cons.prems(1) legal step [unfolded c]] by blast
  have "admissible_run (\<lambda>st c. snd (system_step A catalog table st c)) (call_ok A log_of catalog table T) st' calls"
    using Cons.prems(2) step by simp
  from Cons.IH [OF rs' this] goes_on show ?case by (simp add: step c [symmetric] del: table_accepts.simps) (simp add: c)
qed simp

section \<open>A concrete table\<close>

definition demo_catalog :: catalog_view where
  "demo_catalog = \<lparr>entity_wal_stream_id = (\<lambda>_. Some (lit ''s'')), entity_identity_id = Map.empty, catalog_database_id = lit ''d'',
     at_rest_encryption_key_ref = None, at_rest_encryption_key_version = 0\<rparr>"

definition demo_view :: table_view where
  "demo_view = \<lparr>view_table_id = lit ''s'', view_schema = demo_schema, has_derived_indexes = True\<rparr>"

text \<open>
  The only file is a checkpoint that was made when the log had one record: it decodes, and table and schema
  are right, but the size of the log is another one by now.
\<close>

definition demo_checkpoint :: TableLiveRowCheckpoint where
  "demo_checkpoint = \<lparr>ckpt_table_id = lit ''s'', ckpt_latest_tx_id = 1, ckpt_schema_fingerprint = [],
     ckpt_wal_size_bytes = 1, ckpt_wal_modified_epoch_ms = 0, ckpt_live_rows = [(1, [lit ''name'' \<mapsto> [65]])]\<rparr>"

definition demo_codecs :: checkpoint_env where
  "demo_codecs = \<lparr>row_checkpoint_codec = \<lparr>de_deflated = Map.empty, de_plain = (\<lambda>bs. Some demo_checkpoint)\<rparr>,
     count_checkpoint_codec = \<lparr>de_deflated = Map.empty, de_plain = Map.empty\<rparr>,
     accessor_snapshot_codec = \<lparr>de_deflated = Map.empty, de_plain = Map.empty\<rparr>,
     ser_schema = (\<lambda>schema. Some []), fingerprint_md5 = (\<lambda>bs. [])\<rparr>"

definition demo_files :: checkpoint_files where
  "demo_files = \<lparr>row_checkpoint_file = (\<lambda>stream. Some (make_header Entity @ [7])), count_checkpoint_file = Map.empty,
     accessor_snapshot_file = Map.empty, wal_stream_fingerprint = (\<lambda>stream. Some (2, 0))\<rparr>"

definition demo_access :: access_env where
  "demo_access = \<lparr>log_env = table_env demo_table, log_io = io_good, rows_env = demo_row_env,
     cache_env = demo_acc\<lparr>os_vars := [lit ''DISTDB_ACCESSOR_CACHE_MAX_ROWS_BYTES'' \<mapsto> lit ''0'']\<rparr>,
     cache_scope_id = 0, clock_now = 0, codecs = demo_codecs, saved = demo_files\<rparr>"

definition demo_call :: call_context where
  "demo_call = \<lparr>call_io = io_good, call_now = 0, call_saved = demo_files\<rparr>"

definition demo_store :: "entries \<Rightarrow> access_state" where
  "demo_store rs = \<lparr>wal = in_memory\<lparr>storage := [[] \<mapsto> rs]\<rparr>, live_row_count_cache = Map.empty,
     equality_table_cache = Map.empty, equality_probe_result_cache = Map.empty\<rparr>"

definition demo_first :: TransactionRecord where
  "demo_first = with_payload 1 None None 0 [] Insert [1, 65]"

definition demo_two_rows :: entries where
  "demo_two_rows = [demo_first, with_payload 2 None (Some 1) 0 [] Insert [1, 65]]"

definition demo_history :: "u64 \<times> u64 \<Rightarrow> entries" where
  "demo_history fp = (if fp = (1, 0) then [demo_first] else demo_two_rows)"

text \<open>The log in memory, of a manager with a data directory.\<close>

definition demo_disk :: access_state where
  "demo_disk = (demo_store demo_two_rows)\<lparr>wal := (wal (demo_store demo_two_rows))\<lparr>data_dir := Some (lit ''d'')\<rparr>\<rparr>"

lemma demo_stream: "table_stream_id demo_catalog t = lit ''s''"
  by (simp add: table_stream_id_def demo_catalog_def)

lemma demo_decode: "decode_row demo_row_env demo_schema (1 # v) = Ok [lit ''name'' \<mapsto> v]"
proof -
  have n: "field_names_by_ordinal demo_schema = [lit ''name'']" by (simp add: field_names_by_ordinal_def)
  have de: "de_ordinal demo_row_env (1 # v) = Some [Some v]" by (simp add: demo_row_env_def)
  have "field_name_index (build_entry demo_schema) (lit ''name'') = Some 0"
    by (simp add: build_entry_def n collect_map_def)
  moreover have "ordered_field_names (build_entry demo_schema) = [lit ''name'']" by (simp add: build_entry_def n)
  moreover have "ordinal_value (build_entry demo_schema) 1 (flatten_get [Some v]) (lit ''name'') = Some v"
    using calculation
    by (simp add: ordinal_value_def row_index_for_field_def flatten_get_def get_def use_seqno_slot_decoding_def)
  ultimately show ?thesis using de
    by (auto simp: decode_row_def decode_compatible_row_payload_with_schema_cache_def
        decode_compatible_row_payload_shape_def fill_row_eq)
qed

lemma demo_log_rows: "stream_log demo_access (lit ''s'') demo_disk = Some demo_two_rows"
  by (simp add: stream_log_def demo_access_def demo_disk_def demo_store_def demo_stream_key)

lemma demo_increasing: "increasing_ids [demo_first]" "increasing_ids demo_two_rows"
  by (simp_all add: increasing_ids_def demo_two_rows_def demo_first_def with_payload_def)

lemma demo_rows_of:
  "table_rows demo_access demo_schema [demo_first] = [(1, [lit ''name'' \<mapsto> [65]])]"
  "table_rows demo_access demo_schema demo_two_rows = [(1, [lit ''name'' \<mapsto> [65]]), (2, [lit ''name'' \<mapsto> [65]])]"
  using demo_increasing
  by (simp_all add: table_rows_spec demo_two_rows_def demo_first_def with_payload_def decode_visible_def record_visible_for_live_row_apply_def
        is_row_kind_def payload_logical_def resolved_payload_def deleted_refs_def demo_access_def demo_decode)

lemma demo_text:
  "text_row {lit ''name''} [lit ''name'' \<mapsto> [65]]" "text_row {lit ''name''} [lit ''name'' \<mapsto> [66]]"
  by (simp_all add: text_row_def plain_text_def plain_key_def from_utf8_ascii)

lemma demo_unlimited: "accessor_cache_rows_max_bytes (cache_env demo_access) = 0"
  unfolding accessor_cache_rows_max_bytes_def
  by (rule usize_setting_roundtrip(1)) (simp_all add: demo_access_def lit_def decimal.simps)

definition demo_calls :: "(call_context \<times> table_call) list" where
  "demo_calls = [(demo_call, Query (FindPrefixed (lit ''name'') [65])), (demo_call, Query (FindEqual [(lit ''name'', [65])])),
     (demo_call, InsertRow [1, 66] [lit ''name'' \<mapsto> [66]] 0)]"

lemma demo_table_ok: "table_ok demo_access (lit ''s'') (lit ''s'') demo_schema True {lit ''name''} demo_two_rows demo_disk"
  using demo_text demo_increasing by (simp add: table_ok_def demo_log_rows demo_rows_of)
    (simp add: demo_disk_def demo_store_def demo_two_rows_def)

lemma demo_file_read:
  "read_snapshot_file (row_checkpoint_codec demo_codecs) (row_checkpoint_file demo_files stream) = Some demo_checkpoint"
  "read_snapshot_file (accessor_snapshot_codec demo_codecs) (accessor_snapshot_file demo_files stream) = None"
  using verify_header_make [of Entity "[7]"]
  by (simp_all add: read_snapshot_file_def demo_files_def decode_snapshot_payload_def demo_codecs_def)

lemma demo_saved: "saved_current (at_call demo_access demo_call) demo_history (lit ''s'') (lit ''s'') demo_schema demo_two_rows"
proof -
  have "wal_stream_fingerprint demo_files (lit ''s'') = Some (2, 0)" "codecs demo_access = demo_codecs" "call_saved demo_call = demo_files"
    "ckpt_wal_size_bytes demo_checkpoint = 1" "ckpt_wal_modified_epoch_ms demo_checkpoint = 0"
    by (simp_all add: demo_files_def demo_access_def demo_call_def demo_checkpoint_def)
  moreover have "rows_saved (\<lambda>rs. (log_head rs, table_rows demo_access demo_schema rs)) (demo_history (1, 0)) demo_checkpoint"
    by (simp add: rows_saved_def demo_history_def demo_rows_of) (simp add: demo_checkpoint_def demo_first_def with_payload_def)
  moreover have "demo_history (2, 0) = demo_two_rows" by (simp add: demo_history_def)
  ultimately show ?thesis by (simp add: saved_current_def files_saved_def demo_file_read)
qed

lemma demo_query_ok:
  "query_ok demo_access {lit ''name''} [(1, [lit ''name'' \<mapsto> [65]]), (2, [lit ''name'' \<mapsto> [65]])] (FindEqual [(lit ''name'', [65])])"
  "query_ok demo_access {lit ''name''} [(1, [lit ''name'' \<mapsto> [65]]), (2, [lit ''name'' \<mapsto> [65]])] (FindPrefixed (lit ''name'') [65])"
  by (simp_all add: canonical_filters_def row_matches_equality_filters_def matches_bytes_def compare_refl) (simp add: lit_def)

lemma demo_query:
  assumes "table_ok demo_access (lit ''s'') (lit ''s'') demo_schema True {lit ''name''} demo_two_rows st"
    and "q = FindEqual [(lit ''name'', [65])] \<or> q = FindPrefixed (lit ''name'') [65]"
  shows "table_ok demo_access (lit ''s'') (lit ''s'') demo_schema True {lit ''name''} demo_two_rows
    (snd (run_query (at_call demo_access demo_call) (lit ''s'') (lit ''s'') demo_schema q st))"
  using assms demo_query_ok run_query_ok(2) [of "at_call demo_access demo_call" "lit ''s''" "lit ''s''" demo_schema True
      "{lit ''name''}" demo_two_rows st demo_history q, OF _ demo_saved]
  by (auto simp: demo_rows_of simp del: query_ok.simps run_query.simps)

lemma demo_table_log:
  assumes "table_ok demo_access (lit ''s'') (lit ''s'') demo_schema True {lit ''name''} demo_two_rows st"
  shows "table_log demo_access demo_catalog demo_view st = demo_two_rows"
  using assms by (intro table_ok_log [where A = demo_access]) (simp add: demo_stream)

lemma demo_admissible:
  "admissible_run (\<lambda>st c. snd (system_step demo_access demo_catalog demo_view st c))
     (call_ok demo_access demo_history demo_catalog demo_view {lit ''name''}) demo_disk demo_calls"
proof -
  have view: "view_table_id demo_view = lit ''s''" "view_schema demo_view = demo_schema" by (simp_all add: demo_view_def)
  note ok1 = demo_query [OF demo_table_ok disjI2 [OF refl]]
  note ok2 = demo_query [OF ok1 disjI1 [OF refl]]
  have "log_head demo_two_rows = 2" by (simp add: demo_two_rows_def with_payload_def)
  moreover have "decode_row (rows_env demo_access) demo_schema [1, 66] = Inr [lit ''name'' \<mapsto> [66]]"
    by (simp add: demo_access_def demo_decode)
  ultimately show ?thesis
    using demo_query_ok demo_text demo_table_log [OF demo_table_ok] demo_table_log [OF ok1] demo_table_log [OF ok2]
      unlimited_budget [OF demo_unlimited]
    by (simp add: demo_calls_def view demo_stream demo_saved demo_rows_of del: query_ok.simps run_query.simps)
qed

text \<open>A query for which there is no entry leaves one behind, when the size of an entry is not limited.\<close>

lemma prefix_query_caches:
  assumes ok: "table_ok A stream table_id schema tracked T rs st" and files: "saved_current A log_of stream table_id schema rs"
    and name: "name \<in> T" "name \<noteq> []" and budget: "accessor_cache_rows_max_bytes (cache_env A) = 0"
    and none: "equality_table_cache st (cache_scope_id A, stream) = None"
  shows "\<exists>e. equality_table_cache (snd (load_live_rows_by_prefix A stream table_id schema name p False st))
      (cache_scope_id A, stream) = Some e \<and> latest_tx_id e = log_head rs"
proof -
  obtain l loaded st' where miss: "load_live_rows_for_accessor_miss A stream table_id schema [name] st = ((l, loaded), st')"
    by (metis prod.exhaust)
  note L = miss_loads_table [OF ok files miss]
  note E = miss_entry_table [OF ok name(2) L(3)]
  show ?thesis
    using E L budget none
    by (simp add: load_live_rows_by_prefix_def load_through_entry_def with_matching_equality_cache_entry_def equality_cache_entry_def
        miss Let_def insert_scoped_equality_cache_entry_def enforce_entry_row_budget_def insert_equality_cache_entry_def)
qed

text \<open>
  With an outdated checkpoint file beside the log: a prefix query builds the entry of the table from the log,
  an equality query is answered from that entry, which carries the head of the log, and a row is inserted.
\<close>

theorem cached_reads_see_log_witness:
  "(\<exists>done. run_replies (system_step demo_access demo_catalog demo_view) demo_disk demo_calls =
      [Answer (Found {#(1, [lit ''name'' \<mapsto> [65]]), (2, [lit ''name'' \<mapsto> [65]])#}),
       Answer (Found {#(1, [lit ''name'' \<mapsto> [65]]), (2, [lit ''name'' \<mapsto> [65]])#}), Written done]) \<and>
   (\<exists>e. equality_table_cache (snd (system_step demo_access demo_catalog demo_view demo_disk (hd demo_calls))) (0, lit ''s'') = Some e \<and>
      latest_tx_id e = log_head demo_two_rows)"
proof
  have "table_ok demo_access (table_stream_id demo_catalog (view_table_id demo_view)) (view_table_id demo_view)
      (view_schema demo_view) (has_derived_indexes demo_view) {lit ''name''} demo_two_rows demo_disk"
    using demo_table_ok by (simp add: demo_stream) (simp add: demo_view_def)
  from cached_reads_see_log [OF this demo_admissible]
  show "\<exists>done. run_replies (system_step demo_access demo_catalog demo_view) demo_disk demo_calls =
      [Answer (Found {#(1, [lit ''name'' \<mapsto> [65]]), (2, [lit ''name'' \<mapsto> [65]])#}),
       Answer (Found {#(1, [lit ''name'' \<mapsto> [65]]), (2, [lit ''name'' \<mapsto> [65]])#}), Written done]"
    by (auto simp: demo_calls_def demo_view_def demo_rows_of matches_bytes_def field_text_def lossy_ascii from_utf8_ascii
        split: prod.splits elim: table_accepts.elims)
next
  have "equality_table_cache demo_disk (cache_scope_id (at_call demo_access demo_call), lit ''s'') = None"
    "cache_scope_id (at_call demo_access demo_call) = 0"
    by (simp_all add: demo_disk_def demo_store_def demo_access_def)
  with prefix_query_caches [of "at_call demo_access demo_call" "lit ''s''" "lit ''s''" demo_schema True "{lit ''name''}" demo_two_rows
      demo_disk demo_history "lit ''name''" "[65]"] demo_table_ok demo_saved demo_unlimited
  show "\<exists>e. equality_table_cache (snd (system_step demo_access demo_catalog demo_view demo_disk (hd demo_calls))) (0, lit ''s'') = Some e \<and>
      latest_tx_id e = log_head demo_two_rows"
    by (simp add: demo_calls_def demo_stream demo_view_def) (simp add: lit_def)
qed

section \<open>Entries behind the log\<close>












end
