(* ===== verification/Spec2Isabelle.thy ===== *)
theory Spec2Isabelle
  imports ColdScan Coordinator LikeText AccessorSystem
begin

text \<open>
  The storage core of distdb, a distributed SQL database written in Rust.

  \<^bold>\<open>The program.\<close>  A statement reaches the server through a connector.  The transaction coordinator stages
  it when its session is in a transaction and grants or refuses the tables it locks.  A row mutation is
  encoded as a row payload and appended, as a transaction record, to the write-ahead log of its table.
  The log of a table is a stream: a vector of records in memory, owned by a worker, and a file of frames
  whose payloads may be compressed and encrypted.  A read scans the log for live rows, or goes through
  caches of rows and of results that are keyed by the identifier of the last record of the log.

  \<^bold>\<open>Theories and sources\<close> (paths are under \<open>src/\<close>).
  \<^item> \<open>Prelude\<close>: machine types, results, binary searches, and the contracts \<open>command_machine\<close>,
    \<open>guarded_refinement\<close> and \<open>functional_refinement\<close> with what they give for runs of commands.
  \<^item> \<open>Strings_Util\<close>, \<open>Base64\<close>, \<open>Settings\<close>, \<open>TPHashSet\<close>: \<open>common/src/helpers\<close> and
    \<open>common/src/settings.rs\<close>.  \<open>StdText\<close> and \<open>Utf8\<close> hold what is used of the standard library: UTF-8,
    integers as text, doubles by their bit patterns.
  \<^item> \<open>TxRecord\<close>, \<open>Envelope\<close>, \<open>RowPayload\<close>: \<open>serverlib/src/engine/database/transaction\<close> and
    \<open>row_payload.rs\<close>: records, their wire frames, encryption at rest, and the forms of row payloads.
  \<^item> \<open>Schema\<close>, \<open>Conversion\<close>: table schemas and stored field values, \<open>common/src/schema\<close> and
    \<open>serverlib/src/engine/database\<close> (\<open>table\<close>, \<open>schema/migration\<close>).
  \<^item> \<open>WalFrame\<close>, \<open>WalEntries\<close>, \<open>WalWorker\<close>, \<open>WalManager\<close>: \<open>serverlib/src/engine/wal.rs\<close> from the bytes of a
    frame to the public operations of \<open>ConcurrentWalManager\<close>.  The state of the manager is the record
    \<open>ConcurrentWalManager\<close>, the state of a worker \<open>wal_worker\<close>; one definition per worker command and
    per public method.
  \<^item> \<open>Predicates\<close>, \<open>LikeText\<close>: \<open>serverlib/src/engine/sql/predicates.rs\<close>.
  \<^item> \<open>LiveRows\<close>, \<open>ColdScan\<close>: the scans of \<open>serverlib/src/engine/execution/access.rs\<close> over a log in memory and
    over a file that is not loaded.
  \<^item> \<open>AccessorCache\<close>, \<open>AccessorLookup\<close>, \<open>AccessorRefine\<close>: the cached rows of one table, their indexes and
    lookups.  \<open>ProbeCache\<close>: the cached results of equality probes.  \<open>AccessorStore\<close>: the caches of all
    tables and the loaders that go through them, on the record \<open>access_state\<close>.  All are of \<open>access.rs\<close>.
    \<open>Checkpoints\<close>: the saved rows and cache entries that the loaders read and the tests on their
    fingerprints, \<open>serverlib/src/engine/database/indexing/runtime_index_snapshot.rs\<close>.
  \<^item> \<open>WriteOps\<close>: \<open>server/src/core/mappings/query/core/wal_ops.rs\<close>, the row writes and write groups.
    \<open>AccessorSystem\<close> puts reads and writes together.
  \<^item> \<open>Coordinator\<close>: \<open>server/src/core/transaction_coordinator.rs\<close>, one handler per command of its
    thread on the record \<open>coordinator_state\<close>, and the methods that send the commands.

  \<^bold>\<open>What is shown.\<close>
  \<^item> Durability: acknowledged appends and batches, plain or encrypted, are what a restart reads back, a
    torn write costs no earlier record, the frames round-trip with and without encryption, and a crash inside a write group
    leaves the table before or after the whole group (this theory, \<open>WalFrame\<close>, \<open>WalWorker\<close>).
  \<^item> The record vector: appends keep order, batches are folds of appends, reads since an identifier are
    exact, compaction keeps the latest schema and metadata records and marks the rest as truncated,
    realignment keeps references (\<open>WalEntries\<close>); the cached time of the last write is exact
    (\<open>WalManager\<close>).
  \<^item> Scans: write groups are atomic, parallel and limited scans agree with the sequential one, the scan
    of a file agrees with the scan of memory (\<open>LiveRows\<close>, \<open>ColdScan\<close>).
  \<^item> Caches: one cached table refines the list of its rows; reads through all caches, mixed with row
    writes and beside saved files of any age, answer as the log does (\<open>AccessorRefine\<close>,
    \<open>AccessorSystem\<close>); the cache of field orders is transparent (\<open>RowPayload\<close>); the text index refines a map (\<open>TPHashSet\<close>).
  \<^item> Locks: a table is held by one session, and a write routed by another one is rejected; a commit
    takes what its session had staged, in order, also if the table was locked later; the coordinator
    refines a specification of one owner per table and one list of staged queries per session.
  \<^item> Values: rows and fields round-trip, comparison follows the stored integers, \<open>LIKE\<close> matches a
    reference definition.
  \<^item> Where the code does something else than it means to, a theorem states what it does: rows lost or
    brought back, records that replay does not reach, texts that a pattern misses.  These theorems give
    the condition under which it happens, and their witnesses a case.

  \<^bold>\<open>Modelling decisions.\<close>  Third-party code (bincode, zlib, AES-GCM, hash functions, the \<open>uuid\<close>, \<open>regex\<close> and
  \<open>chrono\<close> crates, the SQL parser, decimal text of floats) is a field of an environment record; what a
  theorem needs of it is a named hypothesis such as \<open>wal_env_ok\<close>, \<open>crypto_env_ok\<close> or \<open>row_codec_ok\<close>, and
  witnesses instantiate it.  Bincode reads back what it wrote only up to \<open>MAX_DECODE_BYTES\<close>, and a payload that
  looks compressed or encrypted is taken to be so; theorems on recovery ask that the records are
  \<open>storable\<close>, which excludes both.  The outcome of every I/O call is an argument, so a theorem covers each
  failure.  A method under a mutex is one step.  Identifiers are 64-bit words and wrap as the code does.
  Hash maps are maps where their order cannot be seen and association lists where it can.  All loops
  are total functions: no definition needs fuel.  Each recursion that is not structural has a measure, the
  bytes or records still to come, the length of a slice, or for \<open>LIKE\<close> a lexicographic one of its positions.
  Thread counts and size limits are parameters, not fixed.

  \<^bold>\<open>Not modelled.\<close>  SQL parsing, planning and statement execution (the syntax tree is a type of the
  \<open>sqlparser\<close> crate, and plans follow it node by node); the handlers of whole statements, catalogs, views,
  routines and triggers above the row writes; the runtime indexes, which the row writes notify and
  no modelled read consults; OLAP cubes and SQL functions, which compute in floating point; replication,
  affinity, transports, TLS, sessions, the client library and the console, which are I/O around the
  modelled parts; writing the snapshot and checkpoint files of the caches (the files are an argument of
  each read, \<open>saved_current\<close> says what is required of them); log lines and timings; poisoned mutexes and panicking threads.
\<close>

section \<open>Write groups across a crash\<close>

lemma scan_complete_group:
  assumes "\<forall>r \<in> set base. groupid r \<noteq> Some g" "\<forall>r \<in> set (data @ [c]). groupid r = Some g"
    and "tx_kind c = WriteCommit" "\<forall>r \<in> set data. \<not> is_terminal r"
  shows "collect_live_rows_from_records dec threads (base @ data @ [c]) =
         collect_live_rows_from_records dec threads (base @ map (ungroup g) (data @ [c]))"
proof -
  let ?rs = "base @ data @ [c]"
  have g: "g \<in> committed_groups ?rs" "g \<notin> aborted_groups ?rs"
    using assms by (auto simp: group_iffs is_terminal_def)
  have "map (ungroup g) base = base"
    using assms(1) by (intro map_idI) (auto simp: ungroup_def)
  with committed_group_plain [OF g, of dec] show ?thesis
    by (simp add: collect_live_rows_from_records_def apply_parallel_eq)
qed

lemma scan_incomplete_group:
  assumes "\<forall>r \<in> set base. groupid r \<noteq> Some g" "\<forall>r \<in> set data. groupid r = Some g \<and> \<not> is_terminal r"
  shows "collect_live_rows_from_records dec threads (base @ data) = collect_live_rows_from_records dec threads base"
proof -
  have "g \<notin> committed_groups (base @ data)"
    using assms by (auto simp: group_iffs is_terminal_def)
  moreover have "filter (\<lambda>r. groupid r \<noteq> Some g) (base @ data) = base"
    using assms by (simp add: filter_True filter_False)
  ultimately show ?thesis using hidden_group_absent [of g "base @ data" dec]
    by (simp add: collect_live_rows_from_records_def apply_parallel_eq)
qed

text \<open>
  C1. A crash while a write group is being written leaves the table as it was before the group or as
  it is after the whole group.  Let a log file hold records \<open>base\<close>, followed by the data records of a
  group and its commit record, and let the file be cut at any byte behind \<open>base\<close>: the rows found
  in the log that is loaded from it are the rows of \<open>base\<close>, or the rows of \<open>base\<close> followed by all
  records of the group.
\<close>

theorem write_group_crash_atomic:
  assumes "list_all2 (persisted E) (base @ data @ [c]) fs"
    and "HEADER_SIZE + length (concat (take (length base) fs)) \<le> n"
    and "\<forall>r \<in> set base. groupid r \<noteq> Some g" "\<forall>r \<in> set (data @ [c]). groupid r = Some g"
    and "tx_kind c = WriteCommit" "\<forall>r \<in> set data. \<not> is_terminal r"
  shows "collect_live_rows_from_records dec threads
           (load_records_from_path E (Some (take n (make_header Data @ concat fs))))
         \<in> {collect_live_rows_from_records dec threads base,
            collect_live_rows_from_records dec threads (base @ map (ungroup g) (data @ [c]))}"
proof -
  let ?rs = "base @ data @ [c]"
  obtain j where j: "min (length base) (length ?rs) \<le> j" "j \<le> length ?rs"
    and load: "load_records_from_path E (Some (take n (make_header Data @ concat fs))) = take j ?rs"
    using load_cut_file [OF assms(1,2)] .
  show ?thesis
  proof (cases "j = length ?rs")
    case True
    then show ?thesis using load scan_complete_group [OF assms(3-6)] by simp
  next
    case False
    with j have "take j ?rs = base @ take (j - length base) data" by simp
    moreover have "\<forall>r \<in> set (take (j - length base) data). groupid r = Some g \<and> \<not> is_terminal r"
      using assms(4,6) by (auto dest: in_set_takeD)
    ultimately show ?thesis using load scan_incomplete_group [OF assms(3)] by simp
  qed
qed

definition crash_base :: entries where
  "crash_base = [with_payload 1 None None 0 [] Insert [1, 65]]"

definition crash_group :: entries where
  "crash_group = [with_payload 2 (Some 7) None 0 [] Insert [1, 66]]"

definition crash_commit :: TransactionRecord where
  "crash_commit = without_payload 3 (Some 7) None 0 [] WriteCommit"

lemmas crash_simps = crash_base_def crash_group_def crash_commit_def with_payload_def without_payload_def

theorem write_group_crash_atomic_witness:
  "collect_live_rows_from_records (\<lambda>p. Some [lit ''name'' \<mapsto> p]) 4
     (load_records_from_path (table_env (crash_base @ crash_group @ [crash_commit]))
        (Some (take 29 (make_header Data @ concat [to_le 8 1 @ [0], to_le 8 1 @ [1], to_le 8 1 @ [2]]))))
   \<in> {collect_live_rows_from_records (\<lambda>p. Some [lit ''name'' \<mapsto> p]) 4 crash_base,
      collect_live_rows_from_records (\<lambda>p. Some [lit ''name'' \<mapsto> p]) 4
        (crash_base @ map (ungroup 7) (crash_group @ [crash_commit]))}"
proof (rule write_group_crash_atomic)
  show "list_all2 (persisted (table_env (crash_base @ crash_group @ [crash_commit])))
      (crash_base @ crash_group @ [crash_commit]) [to_le 8 1 @ [0], to_le 8 1 @ [1], to_le 8 1 @ [2]]"
    by (simp add: crash_simps persisted_def table_env_def decode_record_from_storage_with_context_def
        resolve_wal_storage_payload_def looks_like_zlib_payload_def)
qed (simp_all add: crash_simps is_terminal_def HEADER_SIZE_def)

end
